(* ===== verification/Kernel_Prelude.thy ===== *)
theory Kernel_Prelude
  imports "HOL-Library.Word"
begin

text \<open>
  The prelude of the development: machine integers as the release build of the
  kernel computes with them, the result type of fallible kernel functions, the
  error numbers the kernel returns, and the generic list and word lemmas the
  component theories share.

  Values of type \<^verbatim>\<open>usize\<close> and \<^verbatim>\<open>u64\<close> that the source uses as counts, offsets and
  addresses are natural numbers; where an operand can be out of range (a
  subtraction that may go below zero, an addition on values a user program
  supplies) the wrap-around of the release build is written out with the
  operations below.  Bit sets (signal masks, allocation bitmaps, open flags) are
  words of their width.
\<close>

unbundle bit_operations_syntax

named_theorems res_simps \<open>evaluation rules of the result type and its sequencing\<close>
named_theorems usize_simps \<open>wrap-around arithmetic on operands that stay in range\<close>

section \<open>Error numbers and results\<close>

datatype errno =
    E2BIG | EAFNOSUPPORT | EAGAIN | EALREADY | EBADF | ECHILD | EEXIST | EFAULT
  | EINTR | EINVAL | EIO | EISDIR | EMFILE | ENFILE | ENOENT | ENOMEM | ENOMSG | ENOSYS
  | ENOTDIR | ENOTEMPTY | ENOTTY | EPERM | ESRCH | ETIMEDOUT | EWOULDBLOCK | EBUSY
  | ESPIPE | EPIPE | EACCES | ENODEV | ENOSPC | ENOTCONN | ECONNREFUSED | EXDEV

text \<open>
  The outcome of a function of the kernel: a value, an error number, or a panic
  (an index out of range, an \<^verbatim>\<open>unwrap\<close> of nothing, a failed assertion).
\<close>

datatype 'a res = Ok 'a | Err errno | Panic

fun rbind :: "'a res \<Rightarrow> ('a \<Rightarrow> 'b res) \<Rightarrow> 'b res" where
  "rbind (Ok x) f = f x"
| "rbind (Err e) f = Err e"
| "rbind Panic f = Panic"

fun rmap :: "('a \<Rightarrow> 'b) \<Rightarrow> 'a res \<Rightarrow> 'b res" where
  "rmap f (Ok x) = Ok (f x)"
| "rmap f (Err e) = Err e"
| "rmap f Panic = Panic"

fun is_ok :: "'a res \<Rightarrow> bool" where
  "is_ok (Ok _) = True"
| "is_ok _ = False"

lemma rbind_eq_Ok [res_simps]: "rbind r f = Ok y \<longleftrightarrow> (\<exists>x. r = Ok x \<and> f x = Ok y)"
  by (cases r) auto

lemma rbind_eq_Panic [res_simps]: "rbind r f = Panic \<longleftrightarrow> r = Panic \<or> (\<exists>x. r = Ok x \<and> f x = Panic)"
  by (cases r) auto

lemma rmap_eq_Ok [res_simps]: "rmap f r = Ok y \<longleftrightarrow> (\<exists>x. r = Ok x \<and> y = f x)"
  by (cases r) auto

lemma is_ok_iff [res_simps]: "is_ok r \<longleftrightarrow> (\<exists>x. r = Ok x)"
  by (cases r) auto

text \<open>The outcome of polling a future once.\<close>

datatype 'a Poll = Ready 'a | Pending

section \<open>Machine arithmetic\<close>

type_synonym usize = nat
type_synonym u8 = "8 word"
type_synonym u64 = "64 word"

definition USIZE :: nat where
  "USIZE = 2 ^ 64"

definition uadd :: "usize \<Rightarrow> usize \<Rightarrow> usize" where
  "uadd a b = (a + b) mod USIZE"

definition usub :: "usize \<Rightarrow> usize \<Rightarrow> usize" where
  "usub a b = (if b \<le> a then a - b else a + USIZE - b)"

definition umul :: "usize \<Rightarrow> usize \<Rightarrow> usize" where
  "umul a b = (a * b) mod USIZE"

text \<open>\<^verbatim>\<open>div_ceil\<close> of the standard library.\<close>

definition div_ceil :: "nat \<Rightarrow> nat \<Rightarrow> nat" where
  "div_ceil a b = (if a mod b = 0 then a div b else a div b + 1)"

lemma uadd_le [usize_simps]: "a + b < USIZE \<Longrightarrow> uadd a b = a + b"
  by (simp add: uadd_def)

lemma usub_le [usize_simps]: "b \<le> a \<Longrightarrow> usub a b = a - b"
  by (simp add: usub_def)

lemma umul_le [usize_simps]: "a * b < USIZE \<Longrightarrow> umul a b = a * b"
  by (simp add: umul_def)

lemma uadd_less: "uadd a b < USIZE"
  by (simp add: uadd_def USIZE_def)

lemma usub_less: "a < USIZE \<Longrightarrow> usub a b < USIZE"
  by (auto simp: usub_def)

lemma usub_uadd: "a < USIZE \<Longrightarrow> b < USIZE \<Longrightarrow> usub (uadd a b) b = a"
  by (auto simp: usub_def uadd_def mod_if)

lemma div_ceil_bounds:
  assumes "0 < b"
  shows "a \<le> div_ceil a b * b" "div_ceil a b * b < a + b"
proof -
  define q r where "q = a div b" and "r = a mod b"
  have a: "a = b * q + r" and r: "r < b"
    using assms by (simp_all add: q_def r_def)
  have c: "div_ceil a b * b = (if r = 0 then b * q else b * q + b)"
    by (simp add: div_ceil_def q_def r_def algebra_simps)
  show "a \<le> div_ceil a b * b" "div_ceil a b * b < a + b"
    unfolding c using a r by auto
qed

section \<open>Lists\<close>

text \<open>The value of \<^verbatim>\<open>xs[i]\<close> with the bounds check of the language.\<close>

definition index_res :: "'a list \<Rightarrow> nat \<Rightarrow> 'a res" where
  "index_res xs i = (if i < length xs then Ok (xs ! i) else Panic)"

text \<open>\<^verbatim>\<open>Vec::remove(i)\<close>, in range.\<close>

definition remove_nth :: "nat \<Rightarrow> 'a list \<Rightarrow> 'a list" where
  "remove_nth i xs = take i xs @ drop (Suc i) xs"

text \<open>\<^verbatim>\<open>iter().position(p)\<close>.\<close>

fun position :: "('a \<Rightarrow> bool) \<Rightarrow> 'a list \<Rightarrow> nat option" where
  "position p [] = None"
| "position p (x # xs) = (if p x then Some 0 else map_option Suc (position p xs))"

lemma position_None: "position p xs = None \<longleftrightarrow> (\<forall>x \<in> set xs. \<not> p x)"
  by (induction xs) auto

lemma position_Some:
  "position p xs = Some i \<longleftrightarrow> i < length xs \<and> p (xs ! i) \<and> (\<forall>j < i. \<not> p (xs ! j))"
proof (induction xs arbitrary: i)
  case (Cons x xs)
  then show ?case
    by (cases i) (auto simp: nth_Cons All_less_Suc2 split: nat.splits)
qed simp

lemma length_remove_nth: "i < length xs \<Longrightarrow> length (remove_nth i xs) = length xs - 1"
  by (simp add: remove_nth_def)

lemma remove_nth_0 [simp]: "remove_nth 0 (x # xs) = xs"
  by (simp add: remove_nth_def)

lemma remove_nth_Suc [simp]: "remove_nth (Suc i) (x # xs) = x # remove_nth i xs"
  by (simp add: remove_nth_def)

text \<open>
  A slice write \<^verbatim>\<open>dst[at .. at + src.len()].copy_from_slice(src)\<close>, in range.
\<close>

definition overwrite :: "'a list \<Rightarrow> nat \<Rightarrow> 'a list \<Rightarrow> 'a list" where
  "overwrite dst at src = take at dst @ src @ drop (at + length src) dst"

lemma length_overwrite [simp]:
  "at + length src \<le> length dst \<Longrightarrow> length (overwrite dst at src) = length dst"
  by (simp add: overwrite_def)

lemma nth_overwrite:
  "at + length src \<le> length dst \<Longrightarrow> i < length dst \<Longrightarrow>
   overwrite dst at src ! i = (if at \<le> i \<and> i < at + length src then src ! (i - at) else dst ! i)"
  by (auto simp: overwrite_def nth_append)

lemma overwrite_read:
  "at + length src \<le> length dst \<Longrightarrow> take (length src) (drop at (overwrite dst at src)) = src"
  by (simp add: overwrite_def)

end
