(* ===== verification/Frame.thy ===== *)
theory Frame
  imports Kernel_Prelude
begin

text \<open>
  The physical frame allocator, \<^verbatim>\<open>crates/runtime/src/frame.rs\<close>: a list of regions,
  each with a bitmap of 64-bit words in which a set bit is a used (or
  non-existing) page.
\<close>

definition PAGE_SIZE :: nat where
  "PAGE_SIZE = 4096"

definition alignup :: "nat \<Rightarrow> nat \<Rightarrow> nat" where
  "alignup a b = div_ceil a b * b"

definition aligndown :: "nat \<Rightarrow> nat \<Rightarrow> nat" where
  "aligndown a b = a div b * b"

section \<open>Bit arrays\<close>

text \<open>
  \<^verbatim>\<open>BitArray\<close> of \<^verbatim>\<open>bit_field\<close> on a slice of \<^verbatim>\<open>usize\<close>: the bit \<open>i\<close> is the bit
  \<open>i mod 64\<close> of the word \<open>i div 64\<close>, an index past the slice panics.
\<close>

type_synonym bitmap = "64 word list"

definition ba_get_bit :: "bitmap \<Rightarrow> nat \<Rightarrow> bool res" where
  "ba_get_bit bs i = (if i div 64 < length bs then Ok (bit (bs ! (i div 64)) (i mod 64)) else Panic)"

definition word_set_bit :: "u64 \<Rightarrow> nat \<Rightarrow> bool \<Rightarrow> u64" where
  "word_set_bit w i v = (if v then w OR push_bit i 1 else w AND NOT (push_bit i 1))"

definition ba_set_bit :: "bitmap \<Rightarrow> nat \<Rightarrow> bool \<Rightarrow> bitmap res" where
  "ba_set_bit bs i v =
     (if i div 64 < length bs then Ok (bs[i div 64 := word_set_bit (bs ! (i div 64)) (i mod 64) v])
      else Panic)"

text \<open>\<^verbatim>\<open>for i in from..from + n\<close>: set the bit of every index of the range.\<close>

fun ba_fill :: "bitmap \<Rightarrow> nat \<Rightarrow> nat \<Rightarrow> bitmap res" where
  "ba_fill bs from 0 = Ok bs"
| "ba_fill bs from (Suc n) = rbind (ba_set_bit bs from True) (\<lambda>bs'. ba_fill bs' (Suc from) n)"

section \<open>Regions\<close>

record FrameRegionMap =
  bits :: bitmap
  paddr :: usize
  paddr_end :: usize

definition region_new :: "usize \<Rightarrow> usize \<Rightarrow> FrameRegionMap res" where
  "region_new start_addr end_addr =
     (let pages = usub end_addr start_addr div PAGE_SIZE;
          words = div_ceil pages 64
      in rmap (\<lambda>bs. \<lparr>bits = bs, paddr = start_addr, paddr_end = end_addr\<rparr>)
           (ba_fill (replicate words 0) pages (words * 64 - pages)))"

definition word_free_count :: "u64 \<Rightarrow> nat" where
  "word_free_count x = (if x = 0 then 64 else sum_list (map (\<lambda>i. if bit x i then 0 else 1) [0..<64]))"

definition region_get_free_page_count :: "FrameRegionMap \<Rightarrow> nat" where
  "region_get_free_page_count m = foldl (\<lambda>sum x. sum + word_free_count x) 0 (bits m)"

definition region_alloc_in_pos :: "FrameRegionMap \<Rightarrow> nat \<Rightarrow> FrameRegionMap \<times> usize option" where
  "region_alloc_in_pos m index =
     (case List.find (\<lambda>bit_index. \<not> bit (bits m ! index) bit_index) [0..<64] of
        Some bit_index \<Rightarrow>
          (m\<lparr>bits := (bits m)[index := word_set_bit (bits m ! index) bit_index True]\<rparr>,
           Some (paddr m + (index * 64 + bit_index) * PAGE_SIZE))
      | None \<Rightarrow> (m, None))"

definition region_alloc :: "FrameRegionMap \<Rightarrow> FrameRegionMap \<times> usize option" where
  "region_alloc m =
     (case List.find (\<lambda>i. bits m ! i \<noteq> - 1) [0..<length (bits m)] of
        Some i \<Rightarrow> region_alloc_in_pos m i
      | None \<Rightarrow> (m, None))"

text \<open>
  The sliding window of \<^verbatim>\<open>alloc_much\<close>: \<open>n\<close> pages from \<open>i\<close> on are left to look at,
  the current run of free pages starts at \<open>cstart\<close> and has \<open>ccount\<close> pages.  The
  result is the start of the first run of \<open>pages\<close> free pages.
\<close>

fun find_window :: "bitmap \<Rightarrow> nat \<Rightarrow> nat \<Rightarrow> nat \<Rightarrow> nat \<Rightarrow> nat \<Rightarrow> nat option res" where
  "find_window bs pages i 0 cstart ccount = Ok None"
| "find_window bs pages i (Suc n) cstart ccount =
     rbind (ba_get_bit bs i) (\<lambda>used.
       if used then find_window bs pages (Suc i) n (Suc i) 0
       else if pages \<le> Suc ccount then Ok (Some cstart)
       else find_window bs pages (Suc i) n cstart (Suc ccount))"

definition region_alloc_much :: "FrameRegionMap \<Rightarrow> nat \<Rightarrow> (FrameRegionMap \<times> usize list option) res" where
  "region_alloc_much m pages =
     (let start_ppn = paddr m div PAGE_SIZE;
          end_ppn = paddr_end m div PAGE_SIZE;
          total_pages = usub end_ppn start_ppn
      in if total_pages < pages then Ok (m, None)
         else if region_get_free_page_count m < pages then Ok (m, None)
         else rbind (find_window (bits m) pages 0 total_pages 0 0) (\<lambda>w.
           case w of
             None \<Rightarrow> Ok (m, None)
           | Some s \<Rightarrow>
               rmap (\<lambda>bs. (m\<lparr>bits := bs\<rparr>, Some (map (\<lambda>x. (start_ppn + x) * PAGE_SIZE) [s..<s + pages])))
                 (ba_fill (bits m) s pages)))"

definition region_dealloc :: "FrameRegionMap \<Rightarrow> usize \<Rightarrow> FrameRegionMap res" where
  "region_dealloc m pa =
     (let ppn = pa div PAGE_SIZE;
          start_ppn = paddr m div PAGE_SIZE
      in rmap (\<lambda>bs. m\<lparr>bits := bs\<rparr>) (ba_set_bit (bits m) (usub ppn start_ppn) False))"

section \<open>The allocator\<close>

type_synonym FrameAllocator = "FrameRegionMap list"

definition frame_allocator_new :: FrameAllocator where
  "frame_allocator_new = []"

definition add_memory_region :: "FrameAllocator \<Rightarrow> usize \<Rightarrow> usize \<Rightarrow> FrameAllocator res" where
  "add_memory_region fa start end_addr = rmap (\<lambda>m. fa @ [m]) (region_new start end_addr)"

text \<open>
  \<^verbatim>\<open>add_frame_map\<close>: the region is shrunk to whole pages, and the offset of the
  kernel's direct mapping (a parameter: it differs between architectures) is
  masked off both ends.
\<close>

definition add_frame_map :: "u64 \<Rightarrow> FrameAllocator \<Rightarrow> usize \<Rightarrow> usize \<Rightarrow> FrameAllocator res" where
  "add_frame_map VIRT_ADDR_START fa mm_start mm_end =
     (let s = alignup mm_start PAGE_SIZE;
          e = aligndown mm_end PAGE_SIZE
      in add_memory_region fa (unat (word_of_nat s AND NOT VIRT_ADDR_START))
           (unat (word_of_nat e AND NOT VIRT_ADDR_START)))"

definition get_free_page_count :: "FrameAllocator \<Rightarrow> nat" where
  "get_free_page_count fa = foldl (\<lambda>sum x. sum + region_get_free_page_count x) 0 fa"

fun frame_alloc :: "FrameAllocator \<Rightarrow> FrameAllocator \<times> usize option" where
  "frame_alloc [] = ([], None)"
| "frame_alloc (m # ms) =
     (case region_alloc m of
        (m', Some pa) \<Rightarrow> (m' # ms, Some pa)
      | (m', None) \<Rightarrow> (case frame_alloc ms of (ms', r) \<Rightarrow> (m' # ms', r)))"

fun frame_alloc_much :: "FrameAllocator \<Rightarrow> nat \<Rightarrow> (FrameAllocator \<times> usize list option) res" where
  "frame_alloc_much [] pages = Ok ([], None)"
| "frame_alloc_much (m # ms) pages =
     rbind (region_alloc_much m pages) (\<lambda>(m', r).
       case r of
         Some frames \<Rightarrow> Ok (m' # ms, Some frames)
       | None \<Rightarrow> rmap (\<lambda>(ms', r'). (m' # ms', r')) (frame_alloc_much ms pages))"

fun frame_dealloc :: "FrameAllocator \<Rightarrow> usize \<Rightarrow> FrameAllocator res" where
  "frame_dealloc [] pa = Ok []"
| "frame_dealloc (m # ms) pa =
     (if paddr m \<le> pa \<and> pa < paddr_end m then rmap (\<lambda>m'. m' # ms) (region_dealloc m pa)
      else rmap (\<lambda>ms'. m # ms') (frame_dealloc ms pa))"


section \<open>Bitmap lemmas\<close>

definition used :: "bitmap \<Rightarrow> nat \<Rightarrow> bool" where
  "used bs i = bit (bs ! (i div 64)) (i mod 64)"

lemma bit_word_set_bit:
  "i < 64 \<Longrightarrow> j < 64 \<Longrightarrow> bit (word_set_bit w i v) j = (if j = i then v else bit w j)"
  by (auto simp: word_set_bit_def bit_simps)

lemma div_mod_64_neq: "(j::nat) \<noteq> i \<Longrightarrow> j div 64 = i div 64 \<Longrightarrow> j mod 64 \<noteq> i mod 64"
  by (metis div_mult_mod_eq)

lemma index_64: "i < 64 * n \<Longrightarrow> i div 64 < (n::nat)"
  by (simp add: less_mult_imp_div_less mult.commute)

lemma ba_get_bit_Ok: "i < 64 * length bs \<Longrightarrow> ba_get_bit bs i = Ok (used bs i)"
  by (simp add: ba_get_bit_def used_def index_64)

lemma used_update:
  assumes "i < 64 * length bs" "j < 64 * length bs"
  shows "used (bs[i div 64 := word_set_bit (bs ! (i div 64)) (i mod 64) v]) j =
    (if j = i then v else used bs j)"
  using div_mod_64_neq [of j i] assms
  by (auto simp: used_def nth_list_update bit_word_set_bit index_64)

lemma ba_set_bit_Ok:
  assumes "i < 64 * length bs"
  shows "\<exists>bs'. ba_set_bit bs i v = Ok bs' \<and> length bs' = length bs \<and>
    (\<forall>j < 64 * length bs. used bs' j = (if j = i then v else used bs j))"
  using assms used_update [OF assms] by (auto simp: ba_set_bit_def index_64)

lemma ba_fill_Ok:
  assumes "from + n \<le> 64 * length bs"
  shows "\<exists>bs'. ba_fill bs from n = Ok bs' \<and> length bs' = length bs \<and>
    (\<forall>j < 64 * length bs. used bs' j \<longleftrightarrow> from \<le> j \<and> j < from + n \<or> used bs j)"
  using assms
proof (induction bs "from" n rule: ba_fill.induct)
  case (2 bs "from" n)
  then have "from < 64 * length bs" by simp
  then obtain bs' where bs': "ba_set_bit bs from True = Ok bs'" "length bs' = length bs"
    "\<forall>j < 64 * length bs. used bs' j = (if j = from then True else used bs j)"
    using ba_set_bit_Ok by blast
  from "2.IH" [of bs'] bs' "2.prems" obtain bs'' where
    "ba_fill bs' (Suc from) n = Ok bs''" "length bs'' = length bs"
    "\<forall>j < 64 * length bs. used bs'' j \<longleftrightarrow> Suc from \<le> j \<and> j < Suc from + n \<or> used bs' j"
    by auto
  then show ?case using bs' by (auto simp: Suc_le_eq)
qed auto

section \<open>Well-formed regions\<close>

definition region_pages :: "FrameRegionMap \<Rightarrow> nat" where
  "region_pages m = (paddr_end m - paddr m) div PAGE_SIZE"

text \<open>
  The invariant of a region: whole pages, one bit per page, and the bits past the
  last page are set.
\<close>

definition region_wf :: "FrameRegionMap \<Rightarrow> bool" where
  "region_wf m \<longleftrightarrow> paddr m \<le> paddr_end m \<and> PAGE_SIZE dvd paddr m \<and> PAGE_SIZE dvd paddr_end m \<and>
     length (bits m) = div_ceil (region_pages m) 64 \<and>
     (\<forall>i \<in> {region_pages m..<64 * length (bits m)}. used (bits m) i)"

definition free_pages :: "FrameRegionMap \<Rightarrow> nat set" where
  "free_pages m = {i \<in> {..<region_pages m}. \<not> used (bits m) i}"

definition page_addr :: "FrameRegionMap \<Rightarrow> nat \<Rightarrow> usize" where
  "page_addr m i = paddr m + i * PAGE_SIZE"

lemma region_pages_cap: "region_wf m \<Longrightarrow> region_pages m \<le> 64 * length (bits m)"
  using div_ceil_bounds(1) [of 64 "region_pages m"] by (simp add: region_wf_def mult.commute)

lemma free_pages_alt:
  "region_wf m \<Longrightarrow> free_pages m = {i. i < 64 * length (bits m) \<and> \<not> used (bits m) i}"
  using region_pages_cap [of m] by (force simp: free_pages_def region_wf_def not_le [symmetric])

lemma region_wf_upd:
  assumes "region_wf m" "length bs = length (bits m)"
    and "\<And>j. region_pages m \<le> j \<Longrightarrow> j < 64 * length (bits m) \<Longrightarrow> used bs j"
  shows "region_wf (m\<lparr>bits := bs\<rparr>)"
  using assms by (auto simp: region_wf_def region_pages_def)

lemma region_pages_upd [simp]: "region_pages (m\<lparr>bits := bs\<rparr>) = region_pages m"
  by (simp add: region_pages_def)

lemma page_addr_upd [simp]: "page_addr (m\<lparr>bits := bs\<rparr>) = page_addr m"
  by (simp add: page_addr_def fun_eq_iff)

lemma page_addr_inj: "page_addr m i = page_addr m j \<longleftrightarrow> i = j"
  by (simp add: page_addr_def PAGE_SIZE_def)

lemma page_addr_range:
  assumes "region_wf m" "i < region_pages m"
  shows "paddr m \<le> page_addr m i" "page_addr m i < paddr_end m" "PAGE_SIZE dvd page_addr m i"
    "page_addr m i div PAGE_SIZE - paddr m div PAGE_SIZE = i"
    "page_addr m i = (paddr m div PAGE_SIZE + i) * PAGE_SIZE"
proof -
  obtain a b where ab: "paddr m = a * PAGE_SIZE" "paddr_end m = b * PAGE_SIZE"
    using assms(1) unfolding region_wf_def by (metis dvd_def mult.commute)
  have P: "0 < PAGE_SIZE" by (simp add: PAGE_SIZE_def)
  have i: "i < b - a"
    using assms(2) P by (simp add: region_pages_def ab flip: diff_mult_distrib)
  have eq: "page_addr m i = (a + i) * PAGE_SIZE"
    by (simp add: page_addr_def ab add_mult_distrib)
  have "(a + i) * PAGE_SIZE < b * PAGE_SIZE"
    using i P by (intro mult_less_mono1) auto
  then show "paddr m \<le> page_addr m i" "page_addr m i < paddr_end m" "PAGE_SIZE dvd page_addr m i"
    "page_addr m i div PAGE_SIZE - paddr m div PAGE_SIZE = i"
    "page_addr m i = (paddr m div PAGE_SIZE + i) * PAGE_SIZE"
    using P by (simp_all add: eq ab add_mult_distrib)
qed

lemma total_pages: "region_wf m \<Longrightarrow> usub (paddr_end m div PAGE_SIZE) (paddr m div PAGE_SIZE) = region_pages m"
  by (auto simp: region_wf_def region_pages_def usub_def div_le_mono PAGE_SIZE_def elim!: dvdE
      simp flip: diff_mult_distrib2)

lemma region_new_wf:
  assumes "s \<le> e" "PAGE_SIZE dvd s" "PAGE_SIZE dvd e"
  shows "\<exists>m. region_new s e = Ok m \<and> region_wf m \<and> paddr m = s \<and> paddr_end m = e \<and>
    free_pages m = {..<region_pages m}"
proof -
  let ?p = "(e - s) div PAGE_SIZE" and ?w = "div_ceil ((e - s) div PAGE_SIZE) 64"
  have le: "?p \<le> ?w * 64" by (rule div_ceil_bounds) simp
  then obtain bs where bs: "ba_fill (replicate ?w 0) ?p (?w * 64 - ?p) = Ok bs" "length bs = ?w"
    "\<forall>j < 64 * ?w. used bs j \<longleftrightarrow> ?p \<le> j \<and> j < ?w * 64 \<or> used (replicate ?w 0) j"
    using ba_fill_Ok [of ?p "?w * 64 - ?p" "replicate ?w 0"] by auto
  have zero: "\<not> used (replicate ?w 0) j" if "j < ?w * 64" for j
    using that by (simp add: used_def index_64 mult.commute)
  have "region_new s e = Ok \<lparr>bits = bs, paddr = s, paddr_end = e\<rparr>"
    using assms(1) bs(1) by (simp add: region_new_def usub_def Let_def)
  with bs le zero assms show ?thesis
    by (auto simp: region_wf_def region_pages_def free_pages_def)
qed

section \<open>Counting free pages\<close>

lemma sum_list_bits: "sum_list (map (\<lambda>i. if P i then 0 else 1) [0..<n]) = card {i. i < n \<and> \<not> P i}"
proof (induction n)
  case (Suc n)
  have "{i. i < Suc n \<and> \<not> P i} = {i. i < n \<and> \<not> P i} \<union> (if P n then {} else {n})"
    by (auto simp: less_Suc_eq)
  then show ?case using Suc by simp
qed simp

lemma word_free_count: "word_free_count x = card {i. i < 64 \<and> \<not> bit x i}"
  unfolding word_free_count_def sum_list_bits by simp

lemma foldl_sum: "foldl (\<lambda>s x. s + f x) (a::nat) xs = a + sum_list (map f xs)"
  by (induction xs arbitrary: a) (simp_all add: add.assoc)

lemma used_Cons: "used (w # bs) i = (if i < 64 then bit w i else used bs (i - 64))"
proof (cases "i < 64")
  case False
  then obtain k where "i = k + 64" by (metis le_add_diff_inverse2 not_less)
  moreover have "(k + 64) div 64 = Suc (k div 64)" by simp
  ultimately show ?thesis by (simp add: used_def)
qed (simp add: used_def)

lemma sum_list_word_free_count:
  "sum_list (map word_free_count bs) = card {i. i < 64 * length bs \<and> \<not> used bs i}"
proof (induction bs)
  case (Cons w bs)
  let ?A = "{i. i < 64 \<and> \<not> bit w i}" and ?B = "{i. i < 64 * length bs \<and> \<not> used bs i}"
  have eq: "{i. i < 64 * length (w # bs) \<and> \<not> used (w # bs) i} = ?A \<union> (\<lambda>i. i + 64) ` ?B"
  proof (intro set_eqI iffI)
    fix i assume i: "i \<in> {i. i < 64 * length (w # bs) \<and> \<not> used (w # bs) i}"
    show "i \<in> ?A \<union> (\<lambda>i. i + 64) ` ?B"
    proof (cases "i < 64")
      case False
      then have "i = (i - 64) + 64" by simp
      moreover from False i have "i - 64 \<in> ?B" by (auto simp: used_Cons)
      ultimately show ?thesis by blast
    qed (use i in \<open>simp add: used_Cons\<close>)
  qed (auto simp: used_Cons)
  have "card (?A \<union> (\<lambda>i. i + 64) ` ?B) = card ?A + card ?B"
    by (subst card_Un_disjoint) (auto simp: card_image inj_on_def)
  then show ?case using Cons unfolding eq by (simp add: word_free_count)
qed simp

lemma region_free_count: "region_wf m \<Longrightarrow> region_get_free_page_count m = card (free_pages m)"
  by (simp add: region_get_free_page_count_def foldl_sum sum_list_word_free_count free_pages_alt)

section \<open>Single page allocation\<close>

lemma word_neq_max: "(w::u64) \<noteq> - 1 \<Longrightarrow> \<exists>i < 64. \<not> bit w i"
  using bit_eqI [of w "- 1"] by (auto simp: bit_simps)

lemma find_upt_Some:
  "List.find P [0..<n] = Some i \<longleftrightarrow> i < n \<and> P i \<and> (\<forall>j < i. \<not> P j)"
  by (auto simp: find_Some_iff)

lemma find_upt_None: "List.find P [0..<n] = None \<longleftrightarrow> (\<forall>i < n. \<not> P i)"
  by (auto simp: find_None_iff)

lemma used_split: "i < 64 \<Longrightarrow> used bs (k * 64 + i) = bit (bs ! k) i"
  by (simp add: used_def)

lemma region_alloc_None:
  assumes "region_wf m" "region_alloc m = (m', None)"
  shows "m' = m" "free_pages m = {}"
proof -
  let ?f = "List.find (\<lambda>i. bits m ! i \<noteq> - 1) [0..<length (bits m)]"
  have none: "?f = None"
  proof (cases ?f)
    case (Some k)
    then have "bits m ! k \<noteq> - 1" by (simp add: find_upt_Some)
    from word_neq_max [OF this] assms(2) Some show ?thesis
      by (auto simp: region_alloc_def region_alloc_in_pos_def find_upt_None split: option.splits)
  qed
  then show "m' = m" using assms(2) by (simp add: region_alloc_def)
  have "used (bits m) i" if "i < 64 * length (bits m)" for i
    using none index_64 [OF that] by (simp add: find_upt_None used_def bit_simps)
  then show "free_pages m = {}" using assms(1) by (simp add: free_pages_alt)
qed

lemma region_alloc_Some:
  assumes wf: "region_wf m" and eq: "region_alloc m = (m', Some pa)"
  obtains i bs where "i \<in> free_pages m" "\<And>j. j \<in> free_pages m \<Longrightarrow> i \<le> j" "pa = page_addr m i"
    "m' = m\<lparr>bits := bs\<rparr>" "region_wf m'" "free_pages m' = free_pages m - {i}"
proof -
  from eq obtain k where k: "List.find (\<lambda>i. bits m ! i \<noteq> - 1) [0..<length (bits m)] = Some k"
    and pos: "region_alloc_in_pos m k = (m', Some pa)"
    by (auto simp: region_alloc_def split: option.splits)
  from pos obtain b where b: "List.find (\<lambda>i. \<not> bit (bits m ! k) i) [0..<64] = Some b"
    and m': "m' = m\<lparr>bits := (bits m)[k := word_set_bit (bits m ! k) b True]\<rparr>"
    and pa: "pa = page_addr m (k * 64 + b)"
    by (auto simp: region_alloc_in_pos_def page_addr_def split: option.splits)
  let ?i = "k * 64 + b" and ?bs = "(bits m)[k := word_set_bit (bits m ! k) b True]"
  from k b have kb: "k < length (bits m)" "b < 64" "\<not> bit (bits m ! k) b"
    "\<And>j. j < k \<Longrightarrow> bits m ! j = - 1" "\<And>j. j < b \<Longrightarrow> bit (bits m ! k) j"
    by (simp_all add: find_upt_Some)
  have i: "?i < 64 * length (bits m)" using kb(1,2) by simp
  have least: "used (bits m) j" if "j < ?i" for j
  proof (cases "j div 64 < k")
    case True
    then show ?thesis using kb(4) by (simp add: used_def bit_simps)
  next
    case False
    with that kb(2) have "j div 64 = k" by (intro div_nat_eqI) auto
    moreover from this that have "j mod 64 < b" by (simp flip: minus_div_mult_eq_mod) 
    ultimately have "j div 64 = k" "j mod 64 < b" by auto
    then show ?thesis using kb(5) by (simp add: used_def)
  qed
  have upd: "used ?bs j = (j = ?i \<or> used (bits m) j)" if "j < 64 * length (bits m)" for j
    using used_update [OF i that, of True] kb(2) by simp
  show thesis
  proof (rule that [of ?i ?bs])
    show "?i \<in> free_pages m" using wf i kb(2,3) by (simp add: free_pages_alt used_split)
    show "?i \<le> j" if "j \<in> free_pages m" for j
      using that least by (force simp: free_pages_def not_le [symmetric])
    show wf': "region_wf m'" unfolding m'
      using wf upd by (intro region_wf_upd) (auto simp: region_wf_def)
    show "free_pages m' = free_pages m - {?i}"
      using wf wf' upd unfolding free_pages_alt [OF wf] free_pages_alt [OF wf'] by (auto simp: m')
  qed (use pa m' in simp_all)
qed

lemma region_dealloc_Ok:
  assumes wf: "region_wf m" and i: "i < region_pages m"
  obtains bs where "region_dealloc m (page_addr m i) = Ok (m\<lparr>bits := bs\<rparr>)"
    "region_wf (m\<lparr>bits := bs\<rparr>)" "free_pages (m\<lparr>bits := bs\<rparr>) = insert i (free_pages m)"
proof -
  have lt: "i < 64 * length (bits m)" using i region_pages_cap [OF wf] by simp
  then obtain bs where bs: "ba_set_bit (bits m) i False = Ok bs" "length bs = length (bits m)"
    "\<forall>j < 64 * length (bits m). used bs j = (if j = i then False else used (bits m) j)"
    using ba_set_bit_Ok by blast
  have idx: "usub (page_addr m i div PAGE_SIZE) (paddr m div PAGE_SIZE) = i"
    using page_addr_range [OF wf i] by (simp add: usub_def div_le_mono)
  have wf': "region_wf (m\<lparr>bits := bs\<rparr>)"
    using wf bs(2,3) i by (intro region_wf_upd) (auto simp: region_wf_def)
  show thesis
    by (rule that [OF _ wf'])
      (use bs lt i in \<open>auto simp: region_dealloc_def idx free_pages_alt [OF wf] free_pages_alt [OF wf'] split: if_splits\<close>)
qed

section \<open>Contiguous allocation\<close>

definition all_free :: "bitmap \<Rightarrow> nat \<Rightarrow> nat \<Rightarrow> bool" where
  "all_free bs s n \<longleftrightarrow> (\<forall>j \<in> {s..<s + n}. \<not> used bs j)"

lemma find_window_spec:
  assumes "0 < pages" "i + n \<le> 64 * length bs" "cstart + ccount = i" "ccount < pages"
    and "all_free bs cstart ccount" and "\<forall>t < cstart. \<not> all_free bs t pages"
  shows "\<exists>w. find_window bs pages i n cstart ccount = Ok w \<and>
    (case w of
       None \<Rightarrow> \<forall>t. t + pages \<le> i + n \<longrightarrow> \<not> all_free bs t pages
     | Some s \<Rightarrow> s + pages \<le> i + n \<and> all_free bs s pages \<and> (\<forall>t < s. \<not> all_free bs t pages))"
  using assms
proof (induction bs pages i n cstart ccount rule: find_window.induct)
  case (1 bs pages i cstart ccount)
  then show ?case by auto
next
  case (2 bs pages i n cstart ccount)
  have get: "ba_get_bit bs i = Ok (used bs i)"
    using "2.prems"(2) by (intro ba_get_bit_Ok) simp
  show ?case
  proof (cases "used bs i")
    case True
    have "\<not> all_free bs t pages" if "t < Suc i" for t
    proof (cases "t < cstart")
      case False
      then have "i \<in> {t..<t + pages}" using that "2.prems"(3,4) by simp
      with True show ?thesis by (auto simp: all_free_def)
    qed (use "2.prems"(6) in auto)
    moreover have "all_free bs (Suc i) 0" by (simp add: all_free_def)
    ultimately show ?thesis
      using "2.IH"(1) [OF True, unfolded add_Suc_shift] True "2.prems" by (simp add: get)
  next
    case False
    have run: "all_free bs cstart (Suc ccount)"
      using "2.prems"(3,5) False by (auto simp: all_free_def less_Suc_eq)
    show ?thesis
    proof (cases "pages \<le> Suc ccount")
      case True
      then have "pages = Suc ccount" using "2.prems"(4) by simp
      with run True False "2.prems" show ?thesis by (simp add: get)
    next
      case wide: False
      with "2.IH"(2) [OF False wide, unfolded add_Suc_shift] run False "2.prems" show ?thesis by (simp add: get)
    qed
  qed
qed

lemma region_alloc_much_spec:
  assumes wf: "region_wf m" and pages: "0 < pages"
  shows "\<exists>m' r. region_alloc_much m pages = Ok (m', r) \<and> region_wf m' \<and>
    (case r of
       None \<Rightarrow> m' = m \<and> (\<forall>s. \<not> {s..<s + pages} \<subseteq> free_pages m)
     | Some frames \<Rightarrow> \<exists>s bs. m' = m\<lparr>bits := bs\<rparr> \<and> frames = map (page_addr m) [s..<s + pages] \<and>
         {s..<s + pages} \<subseteq> free_pages m \<and> (\<forall>t < s. \<not> {t..<t + pages} \<subseteq> free_pages m) \<and>
         free_pages m' = free_pages m - {s..<s + pages})"
proof -
  let ?tp = "region_pages m"
  have window: "{s..<s + pages} \<subseteq> free_pages m \<longleftrightarrow> s + pages \<le> ?tp \<and> all_free (bits m) s pages" for s
  proof
    assume A: "{s..<s + pages} \<subseteq> free_pages m"
    then have "s + pages - 1 \<in> free_pages m" using pages by auto
    with A pages show "s + pages \<le> ?tp \<and> all_free (bits m) s pages"
      by (auto simp: free_pages_def all_free_def)
  qed (auto simp: free_pages_def all_free_def)
  have small: "\<not> {s..<s + pages} \<subseteq> free_pages m" if "card (free_pages m) < pages" for s
    using card_mono [of "free_pages m" "{s..<s + pages}"] that by (auto simp: free_pages_def)
  obtain w where w: "find_window (bits m) pages 0 ?tp 0 0 = Ok w"
    and spec: "case w of None \<Rightarrow> \<forall>t. t + pages \<le> ?tp \<longrightarrow> \<not> all_free (bits m) t pages
      | Some s \<Rightarrow> s + pages \<le> ?tp \<and> all_free (bits m) s pages \<and> (\<forall>t < s. \<not> all_free (bits m) t pages)"
    using find_window_spec [of pages 0 ?tp "bits m" 0 0, unfolded add_0] pages region_pages_cap [OF wf]
    by (auto simp: all_free_def)
  consider "?tp < pages" | "?tp \<ge> pages" "card (free_pages m) < pages"
    | "?tp \<ge> pages" "card (free_pages m) \<ge> pages" "w = None"
    | s where "?tp \<ge> pages" "card (free_pages m) \<ge> pages" "w = Some s"
    by (metis not_less option.exhaust)
  then show ?thesis
  proof cases
    case 1
    then show ?thesis
      using wf by (simp add: region_alloc_much_def total_pages Let_def window)
  next
    case 2
    then show ?thesis
      using wf small by (simp add: region_alloc_much_def total_pages Let_def region_free_count)
  next
    case 3
    then show ?thesis
      using wf spec w window by (simp add: region_alloc_much_def total_pages Let_def region_free_count)
  next
    case (4 s)
    then have s: "s + pages \<le> ?tp" "all_free (bits m) s pages" "\<forall>t < s. \<not> all_free (bits m) t pages"
      using spec by simp_all
    then obtain bs where bs: "ba_fill (bits m) s pages = Ok bs" "length bs = length (bits m)"
      "\<forall>j < 64 * length (bits m). used bs j \<longleftrightarrow> s \<le> j \<and> j < s + pages \<or> used (bits m) j"
      using ba_fill_Ok [of s pages "bits m"] region_pages_cap [OF wf] by auto
    have wf': "region_wf (m\<lparr>bits := bs\<rparr>)"
      using wf bs(2,3) by (intro region_wf_upd) (auto simp: region_wf_def)
    have addr: "map (\<lambda>x. (paddr m div PAGE_SIZE + x) * PAGE_SIZE) [s..<s + pages] =
        map (page_addr m) [s..<s + pages]"
      using s(1) page_addr_range(5) [OF wf] by simp
    have free: "free_pages (m\<lparr>bits := bs\<rparr>) = free_pages m - {s..<s + pages}"
      using bs(2,3) unfolding free_pages_alt [OF wf] free_pages_alt [OF wf'] by auto
    have "region_alloc_much m pages = Ok (m\<lparr>bits := bs\<rparr>, Some (map (page_addr m) [s..<s + pages]))"
      using 4 wf w bs(1)
      by (simp add: region_alloc_much_def total_pages Let_def region_free_count addr del: map_eq_conv)
    moreover have "{s..<s + pages} \<subseteq> free_pages m" "\<forall>t < s. \<not> {t..<t + pages} \<subseteq> free_pages m"
      using s window by auto
    ultimately show ?thesis using wf' free
      by (intro exI [of _ "m\<lparr>bits := bs\<rparr>"] exI [of _ "Some (map (page_addr m) [s..<s + pages])"])
        (simp only: option.case simp_thms, intro exI [of _ s] exI [of _ bs] conjI refl, assumption+)
  qed
qed

section \<open>The allocator over all regions\<close>

text \<open>
  The allocator is well formed when its regions are and their address ranges do
  not overlap.  Its abstraction is the set of free frame addresses.
\<close>

definition region_range :: "FrameRegionMap \<Rightarrow> usize \<times> usize" where
  "region_range m = (paddr m, paddr_end m)"

fun ranges_disjoint :: "(usize \<times> usize) list \<Rightarrow> bool" where
  "ranges_disjoint [] = True"
| "ranges_disjoint ((s, e) # rs) = ((\<forall>(s', e') \<in> set rs. e \<le> s' \<or> e' \<le> s) \<and> ranges_disjoint rs)"

definition fa_wf :: "FrameAllocator \<Rightarrow> bool" where
  "fa_wf fa \<longleftrightarrow> (\<forall>m \<in> set fa. region_wf m) \<and> ranges_disjoint (map region_range fa)"

definition free_frames :: "FrameAllocator \<Rightarrow> usize set" where
  "free_frames fa = (\<Union>m \<in> set fa. page_addr m ` free_pages m)"

definition managed_frames :: "FrameAllocator \<Rightarrow> usize set" where
  "managed_frames fa = (\<Union>m \<in> set fa. page_addr m ` {..<region_pages m})"

lemma fa_simps [simp]:
  "fa_wf []" "free_frames [] = {}" "managed_frames [] = {}"
  "free_frames (m # ms) = page_addr m ` free_pages m \<union> free_frames ms"
  "managed_frames (m # ms) = page_addr m ` {..<region_pages m} \<union> managed_frames ms"
  by (simp_all add: fa_wf_def free_frames_def managed_frames_def)

lemma region_range_upd [simp]: "region_range (m\<lparr>bits := bs\<rparr>) = region_range m"
  by (simp add: region_range_def)

lemma fa_wf_Cons:
  "fa_wf (m # ms) \<longleftrightarrow> region_wf m \<and> fa_wf ms \<and>
     (\<forall>n \<in> set ms. paddr_end m \<le> paddr n \<or> paddr_end n \<le> paddr m)"
  by (auto simp: fa_wf_def region_range_def)

lemma fa_wf_ranges:
  "fa_wf (m # ms) \<Longrightarrow> region_wf m' \<Longrightarrow> fa_wf ms' \<Longrightarrow> region_range m' = region_range m \<Longrightarrow>
   map region_range ms' = map region_range ms \<Longrightarrow> fa_wf (m' # ms')"
  by (simp add: fa_wf_def)

lemma free_pages_sub: "free_pages m \<subseteq> {..<region_pages m}"
  by (auto simp: free_pages_def)

lemma free_frames_managed: "free_frames fa \<subseteq> managed_frames fa"
  using free_pages_sub by (force simp: free_frames_def managed_frames_def)

lemma finite_managed_frames: "finite (managed_frames fa)"
  by (simp add: managed_frames_def)

lemma managed_range:
  "fa_wf fa \<Longrightarrow> p \<in> managed_frames fa \<Longrightarrow> \<exists>m \<in> set fa. paddr m \<le> p \<and> p < paddr_end m"
  using page_addr_range(1,2) by (fastforce simp: managed_frames_def fa_wf_def)

lemma fa_Cons_disjoint:
  assumes "fa_wf (m # ms)"
  shows "page_addr m ` {..<region_pages m} \<inter> managed_frames ms = {}"
proof -
  have "False" if "i < region_pages m" "page_addr m i \<in> managed_frames ms" for i
    using managed_range [of ms "page_addr m i"] page_addr_range(1,2) [of m i] that assms
    by (fastforce simp: fa_wf_Cons)
  then show ?thesis by auto
qed

lemma free_frames_diff:
  assumes "fa_wf (m # ms)" "I \<subseteq> {..<region_pages m}"
  shows "page_addr m ` (free_pages m - I) \<union> free_frames ms = free_frames (m # ms) - page_addr m ` I"
  using fa_Cons_disjoint [OF assms(1)] free_frames_managed [of ms] assms(2)
  by (auto simp: page_addr_inj)

lemma frame_alloc_spec:
  assumes "fa_wf fa" "frame_alloc fa = (fa', r)"
  shows "fa_wf fa' \<and> map region_range fa' = map region_range fa \<and> managed_frames fa' = managed_frames fa \<and>
    (case r of
       None \<Rightarrow> fa' = fa \<and> free_frames fa = {}
     | Some p \<Rightarrow> p \<in> free_frames fa \<and> free_frames fa' = free_frames fa - {p})"
  using assms
proof (induction fa arbitrary: fa' r)
  case (Cons m ms)
  then have wf: "region_wf m" "fa_wf ms" by (simp_all add: fa_wf_Cons)
  obtain m' r1 where a: "region_alloc m = (m', r1)" by fastforce
  obtain ms' r2 where b: "frame_alloc ms = (ms', r2)" by fastforce
  show ?case
  proof (cases r1)
    case None
    from region_alloc_None [OF wf(1)] a None have m: "m' = m" "free_pages m = {}" by auto
    from Cons.prems(2) a b None m have fa': "fa' = m # ms'" "r = r2" by simp_all
    from Cons.IH [OF wf(2) b] m show ?thesis
      using fa_wf_ranges [OF Cons.prems(1) wf(1), of ms'] unfolding fa' by (auto split: option.splits)
  next
    case (Some p)
    from region_alloc_Some [OF wf(1)] a Some obtain i bs where
      i: "i \<in> free_pages m" "p = page_addr m i" "m' = m\<lparr>bits := bs\<rparr>" "region_wf m'"
        "free_pages m' = free_pages m - {i}" by metis
    from Cons.prems(2) a Some have fa': "fa' = m' # ms" "r = Some p" by simp_all
    have "fa_wf (m' # ms)"
      using fa_wf_ranges [OF Cons.prems(1) i(4) wf(2)] i(3) by simp
    moreover have "page_addr m ` (free_pages m - {i}) \<union> free_frames ms = free_frames (m # ms) - {p}"
      using free_frames_diff [OF Cons.prems(1), of "{i}"] i(1,2) free_pages_sub by blast
    moreover have "p \<in> free_frames (m # ms)" using i(1,2) by simp
    ultimately show ?thesis
      unfolding fa' using i(3,5) by simp
  qed
qed simp

lemma frame_dealloc_spec:
  assumes "fa_wf fa" "p \<in> managed_frames fa"
  shows "\<exists>fa'. frame_dealloc fa p = Ok fa' \<and> fa_wf fa' \<and> map region_range fa' = map region_range fa \<and>
    managed_frames fa' = managed_frames fa \<and> free_frames fa' = insert p (free_frames fa)"
  using assms
proof (induction fa)
  case (Cons m ms)
  then have wf: "region_wf m" "fa_wf ms" by (simp_all add: fa_wf_Cons)
  show ?case
  proof (cases "p \<in> managed_frames ms")
    case True
    then have "\<not> (paddr m \<le> p \<and> p < paddr_end m)"
      using managed_range [OF wf(2) True] Cons.prems(1) by (fastforce simp: fa_wf_Cons)
    with Cons.IH [OF wf(2) True] show ?thesis
      using fa_wf_ranges [OF Cons.prems(1) wf(1)] by auto
  next
    case False
    then obtain i where i: "i < region_pages m" "p = page_addr m i" using Cons.prems(2) by auto
    from region_dealloc_Ok [OF wf(1) i(1)] obtain bs where
      bs: "region_dealloc m p = Ok (m\<lparr>bits := bs\<rparr>)" "region_wf (m\<lparr>bits := bs\<rparr>)"
        "free_pages (m\<lparr>bits := bs\<rparr>) = insert i (free_pages m)" unfolding i(2) by metis
    have "paddr m \<le> p" "p < paddr_end m" using page_addr_range(1,2) [OF wf(1) i(1)] i(2) by simp_all
    with bs i(2) fa_wf_ranges [OF Cons.prems(1) bs(2) wf(2)] show ?thesis by simp
  qed
qed simp

lemma free_page_count: "fa_wf fa \<Longrightarrow> get_free_page_count fa = card (free_frames fa)"
proof (induction fa)
  case (Cons m ms)
  then have wf: "region_wf m" "fa_wf ms" by (simp_all add: fa_wf_Cons)
  have "page_addr m ` free_pages m \<inter> free_frames ms = {}"
    using fa_Cons_disjoint [OF Cons.prems] free_frames_managed [of ms] free_pages_sub [of m] by blast
  then have "card (free_frames (m # ms)) = card (free_pages m) + card (free_frames ms)"
    using finite_subset [OF free_frames_managed finite_managed_frames, of ms]
    by (simp add: card_Un_disjoint card_image inj_on_def page_addr_inj free_pages_def)
  then show ?case
    using Cons.IH wf by (simp add: get_free_page_count_def foldl_sum region_free_count)
qed (simp add: get_free_page_count_def)

lemma contiguous_frames: "map (page_addr m) [s..<s + n] = map (\<lambda>i. page_addr m s + i * PAGE_SIZE) [0..<n]"
  by (rule nth_equalityI) (simp_all add: page_addr_def add_mult_distrib)

text \<open>The outcome of a contiguous allocation, over the free frames of all regions.\<close>

definition much_post :: "FrameAllocator \<Rightarrow> nat \<Rightarrow> FrameAllocator \<Rightarrow> usize list option \<Rightarrow> bool" where
  "much_post fa pages fa' r \<longleftrightarrow>
     fa_wf fa' \<and> map region_range fa' = map region_range fa \<and> managed_frames fa' = managed_frames fa \<and>
     (case r of
        None \<Rightarrow> fa' = fa \<and> (\<forall>m \<in> set fa. \<forall>s. \<not> {s..<s + pages} \<subseteq> free_pages m)
      | Some frames \<Rightarrow> (\<exists>base. frames = map (\<lambda>i. base + i * PAGE_SIZE) [0..<pages]) \<and>
          set frames \<subseteq> free_frames fa \<and> free_frames fa' = free_frames fa - set frames)"

lemma frame_alloc_much_spec:
  assumes "fa_wf fa" "0 < pages"
  shows "\<exists>fa' r. frame_alloc_much fa pages = Ok (fa', r) \<and> much_post fa pages fa' r"
  using assms(1)
proof (induction fa)
  case (Cons m ms)
  then have wf: "region_wf m" "fa_wf ms" by (simp_all add: fa_wf_Cons)
  obtain m' r where a: "region_alloc_much m pages = Ok (m', r)" and wf': "region_wf m'"
    and r: "case r of None \<Rightarrow> m' = m \<and> (\<forall>s. \<not> {s..<s + pages} \<subseteq> free_pages m)
     | Some frames \<Rightarrow> \<exists>s bs. m' = m\<lparr>bits := bs\<rparr> \<and> frames = map (page_addr m) [s..<s + pages] \<and>
         {s..<s + pages} \<subseteq> free_pages m \<and> (\<forall>t < s. \<not> {t..<t + pages} \<subseteq> free_pages m) \<and>
         free_pages m' = free_pages m - {s..<s + pages}"
    using region_alloc_much_spec [OF wf(1) assms(2)] by blast
  obtain ms' r2 where b: "frame_alloc_much ms pages = Ok (ms', r2)" and post: "much_post ms pages ms' r2"
    using Cons.IH [OF wf(2)] by blast
  show ?case
  proof (cases r)
    case None
    with r have m: "m' = m" "\<forall>s. \<not> {s..<s + pages} \<subseteq> free_pages m" by simp_all
    have "frame_alloc_much (m # ms) pages = Ok (m # ms', r2)" using a b None m by simp
    moreover have "fa_wf (m # ms')"
      using fa_wf_ranges [OF Cons.prems wf(1), of ms'] post by (simp add: much_post_def)
    moreover have "page_addr m ` free_pages m \<inter> free_frames ms = {}"
      using fa_Cons_disjoint [OF Cons.prems] free_frames_managed [of ms] free_pages_sub [of m] by blast
    ultimately show ?thesis
      using post m by (cases r2) (auto simp: much_post_def)
  next
    case (Some frames)
    with r obtain s bs where s: "m' = m\<lparr>bits := bs\<rparr>" "frames = map (page_addr m) [s..<s + pages]"
      "{s..<s + pages} \<subseteq> free_pages m" "free_pages m' = free_pages m - {s..<s + pages}" by auto
    have "frame_alloc_much (m # ms) pages = Ok (m' # ms, Some frames)" using a Some by simp
    moreover have "fa_wf (m' # ms)"
      using fa_wf_ranges [OF Cons.prems wf' wf(2)] s(1) by simp
    moreover have "page_addr m ` (free_pages m - {s..<s + pages}) \<union> free_frames ms =
        free_frames (m # ms) - set frames"
      using free_frames_diff [OF Cons.prems, of "{s..<s + pages}"] s(2,3) free_pages_sub [of m] by auto
    moreover have "set frames \<subseteq> free_frames (m # ms)" using s(2,3) by auto
    moreover have "\<exists>base. frames = map (\<lambda>i. base + i * PAGE_SIZE) [0..<pages]"
      unfolding s(2) contiguous_frames by blast
    ultimately show ?thesis
      using s(1,4) by (auto simp: much_post_def)
  qed
qed (simp add: much_post_def)

section \<open>The contract of a frame source\<close>

text \<open>
  What the rest of the kernel relies on: a frame handed out was free and is not
  free afterwards, a returned frame is free again, nothing else changes.  The
  owners of frames are the holders of \<^verbatim>\<open>FrameTracker\<close> values: the steps below
  start with no owner, hand a frame to an owner on every successful allocation
  and take it back when the tracker is dropped.
\<close>

inductive owner_steps ::
  "('s \<Rightarrow> 's \<times> usize option) \<Rightarrow> ('s \<Rightarrow> usize \<Rightarrow> 's res) \<Rightarrow> 's \<Rightarrow> 's \<Rightarrow> usize set \<Rightarrow> bool"
  for alloc dealloc s0 where
  init: "owner_steps alloc dealloc s0 s0 {}"
| get: "owner_steps alloc dealloc s0 s own \<Longrightarrow> alloc s = (s', Some p) \<Longrightarrow>
    owner_steps alloc dealloc s0 s' (insert p own)"
| put: "owner_steps alloc dealloc s0 s own \<Longrightarrow> p \<in> own \<Longrightarrow> dealloc s p = Ok s' \<Longrightarrow>
    owner_steps alloc dealloc s0 s' (own - {p})"

locale frame_source =
  fixes alloc :: "'s \<Rightarrow> 's \<times> usize option"
    and dealloc :: "'s \<Rightarrow> usize \<Rightarrow> 's res"
    and free :: "'s \<Rightarrow> usize set"
    and managed :: "'s \<Rightarrow> usize set"
    and wf :: "'s \<Rightarrow> bool"
  assumes alloc_Some: "wf s \<Longrightarrow> alloc s = (s', Some p) \<Longrightarrow>
      wf s' \<and> managed s' = managed s \<and> p \<in> free s \<and> free s' = free s - {p}"
    and alloc_None: "wf s \<Longrightarrow> alloc s = (s', None) \<Longrightarrow> s' = s \<and> free s = {}"
    and dealloc_Ok: "wf s \<Longrightarrow> p \<in> managed s \<Longrightarrow>
      \<exists>s'. dealloc s p = Ok s' \<and> wf s' \<and> managed s' = managed s \<and> free s' = insert p (free s)"
    and free_managed: "free s \<subseteq> managed s"
    and finite_managed: "finite (managed s)"
begin

lemma owned_partition:
  assumes "owner_steps alloc dealloc s0 s own" "wf s0"
  shows "wf s \<and> managed s = managed s0 \<and> own \<inter> free s = {} \<and> own \<union> free s = free s0"
  using assms
proof (induction rule: owner_steps.induct)
  case (get s own s' p)
  then show ?case using alloc_Some [of s s' p] by auto
next
  case (put s own p s')
  then have "p \<in> managed s" using free_managed by blast
  with put dealloc_Ok [of s p] show ?case by auto
qed simp

lemma alloc_not_owned:
  assumes "owner_steps alloc dealloc s0 s own" "wf s0" "alloc s = (s', Some p)"
  shows "p \<notin> own"
  using owned_partition [OF assms(1,2)] alloc_Some [OF _ assms(3)] by blast

lemma owned_count:
  assumes "owner_steps alloc dealloc s0 s own" "wf s0"
  shows "card (free s) + card own = card (free s0)"
proof -
  note part = owned_partition [OF assms]
  have "finite (free s0)" using free_managed finite_managed by (rule finite_subset)
  with part have fin: "finite own" "finite (free s)" by (metis finite_Un)+
  have "card (own \<union> free s) = card own + card (free s)"
    using fin part by (intro card_Un_disjoint) auto
  with part show ?thesis by simp
qed

lemma drop_never_panics:
  assumes "owner_steps alloc dealloc s0 s own" "wf s0" "p \<in> own"
  shows "\<exists>s'. dealloc s p = Ok s' \<and> alloc s' \<noteq> (s', None)"
proof -
  note part = owned_partition [OF assms(1,2)]
  with assms(3) free_managed have "p \<in> managed s" by blast
  with part dealloc_Ok [of s p] obtain s' where "dealloc s p = Ok s'" "wf s'" "p \<in> free s'" by auto
  with alloc_None [of s' s'] show ?thesis by auto
qed

end

interpretation frames: frame_source frame_alloc frame_dealloc free_frames managed_frames fa_wf
proof unfold_locales
  fix fa fa' p
  assume wf: "fa_wf fa"
  show "fa_wf fa' \<and> managed_frames fa' = managed_frames fa \<and>
      p \<in> free_frames fa \<and> free_frames fa' = free_frames fa - {p}"
    if "frame_alloc fa = (fa', Some p)"
    using frame_alloc_spec [OF wf that] by simp
  show "fa' = fa \<and> free_frames fa = {}" if "frame_alloc fa = (fa', None)"
    using frame_alloc_spec [OF wf that] by simp
  show "\<exists>fa'. frame_dealloc fa p = Ok fa' \<and> fa_wf fa' \<and>
      managed_frames fa' = managed_frames fa \<and> free_frames fa' = insert p (free_frames fa)"
    if "p \<in> managed_frames fa"
    using frame_dealloc_spec [OF wf that] by blast
qed (rule free_frames_managed finite_managed_frames)+

section \<open>Properties\<close>

text \<open>
  C7: no frame is handed out twice.  Start from any well-formed allocator with no
  owned frame and let owners allocate and drop frames in any order: the frame the
  next allocation returns is not owned, the owned and the free frames always
  partition the initially free ones, and the reported number of free pages
  accounts for every owned frame.
\<close>

theorem frame_never_allocated_twice:
  assumes "fa_wf fa0" "owner_steps frame_alloc frame_dealloc fa0 fa own"
    "frame_alloc fa = (fa', Some p)"
  shows "p \<notin> own \<and> p \<in> free_frames fa0 \<and> own \<union> free_frames fa = free_frames fa0 \<and>
    get_free_page_count fa' + card (insert p own) = get_free_page_count fa0"
proof -
  have step: "owner_steps frame_alloc frame_dealloc fa0 fa' (insert p own)"
    using owner_steps.get [OF assms(2,3)] .
  note part = frames.owned_partition [OF assms(2,1)] frames.owned_partition [OF step assms(1)]
  with frames.owned_count [OF step assms(1)] frames.alloc_not_owned [OF assms(2,1,3)]
  show ?thesis by (simp add: free_page_count assms(1)) blast
qed

lemmas frame_eval = region_alloc_def region_alloc_in_pos_def word_set_bit_def PAGE_SIZE_def upt_conv_Cons
lemmas frame_wf_eval = fa_wf_def region_wf_def region_pages_def div_ceil_def PAGE_SIZE_def region_range_def

theorem frame_never_allocated_twice_witness:
  "let m = \<lparr>bits = [0], paddr = 0x1000, paddr_end = 0x41000\<rparr> in
   case frame_alloc [m] of (fa, _) \<Rightarrow> case frame_alloc fa of (fa', r) \<Rightarrow>
     r = Some 0x2000 \<and> (0x2000::nat) \<notin> {0x1000} \<and> get_free_page_count fa' + 2 = get_free_page_count [m]"
proof -
  let ?m = "\<lparr>bits = [0], paddr = 0x1000, paddr_end = 0x41000\<rparr>"
  let ?m1 = "\<lparr>bits = [1], paddr = 0x1000, paddr_end = 0x41000\<rparr>"
  let ?m2 = "\<lparr>bits = [3], paddr = 0x1000, paddr_end = 0x41000\<rparr>"
  have wf: "fa_wf [?m]" by (simp add: frame_wf_eval)
  have a: "frame_alloc [?m] = ([?m1], Some 0x1000)" by (simp add: frame_eval)
  have b: "frame_alloc [?m1] = ([?m2], Some 0x2000)" by (simp add: frame_eval)
  have steps: "owner_steps frame_alloc frame_dealloc [?m] [?m1] {0x1000}"
    using owner_steps.get [where alloc = frame_alloc, OF owner_steps.init a] by simp
  show ?thesis
    using frame_never_allocated_twice [OF wf steps b] unfolding Let_def a b prod.case by simp
qed

text \<open>
  A request for \<open>pages\<close> contiguous frames never panics; it returns \<open>pages\<close>
  frames at consecutive page addresses, all free before and exactly these no
  longer free after, and it fails, changing nothing, only when no region has a
  run of that many free pages.
\<close>

theorem frame_alloc_much_contiguous:
  assumes "fa_wf fa" "0 < pages"
  shows "\<exists>fa' r. frame_alloc_much fa pages = Ok (fa', r) \<and> fa_wf fa' \<and>
     (case r of
        None \<Rightarrow> fa' = fa \<and> (\<forall>m \<in> set fa. \<forall>s. \<not> {s..<s + pages} \<subseteq> free_pages m)
      | Some frames \<Rightarrow> (\<exists>base. frames = map (\<lambda>i. base + i * PAGE_SIZE) [0..<pages]) \<and>
          set frames \<subseteq> free_frames fa \<and> free_frames fa' = free_frames fa - set frames)"
  using frame_alloc_much_spec [OF assms] by (auto simp: much_post_def)

theorem frame_alloc_much_contiguous_witness:
  "let fa = [\<lparr>bits = [0xF1], paddr = 0x1000, paddr_end = 0x41000\<rparr>] in
   fa_wf fa \<and> (\<exists>fa' r. frame_alloc_much fa 2 = Ok (fa', r) \<and> fa_wf fa')"
proof -
  have "fa_wf [\<lparr>bits = [0xF1], paddr = 0x1000, paddr_end = 0x41000\<rparr>]" by (simp add: frame_wf_eval)
  with frame_alloc_much_contiguous [OF this, of 2] show ?thesis by auto
qed

text \<open>
  A region built over whole pages is well formed with every page free, a page
  that is allocated and then dropped is free again and the bitmap reports the
  number of free pages it had before, and a drop of an owned frame never panics.
\<close>

theorem frame_region_life_cycle:
  assumes "s < e" "PAGE_SIZE dvd s" "PAGE_SIZE dvd e"
  shows "\<exists>fa fa1 p fa2. add_memory_region frame_allocator_new s e = Ok fa \<and> fa_wf fa \<and>
    get_free_page_count fa = (e - s) div PAGE_SIZE \<and>
    frame_alloc fa = (fa1, Some p) \<and> get_free_page_count fa1 = (e - s) div PAGE_SIZE - 1 \<and>
    frame_dealloc fa1 p = Ok fa2 \<and> get_free_page_count fa2 = (e - s) div PAGE_SIZE"
proof -
  obtain m where m: "region_new s e = Ok m" "region_wf m" "paddr m = s" "paddr_end m = e"
    "free_pages m = {..<region_pages m}"
    using region_new_wf [of s e] assms by auto
  have wf: "fa_wf [m]" using m(2) by (simp add: fa_wf_Cons)
  have cnt: "card (free_frames [m]) = (e - s) div PAGE_SIZE"
    using m(3-5) by (simp add: card_image inj_on_def page_addr_inj region_pages_def)
  have pos: "0 < (e - s) div PAGE_SIZE"
    using assms by (simp add: div_greater_zero_iff PAGE_SIZE_def dvd_imp_le dvd_diff_nat)
  obtain fa1 r where a: "frame_alloc [m] = (fa1, r)" by fastforce
  from frame_alloc_spec [OF wf a] cnt pos obtain p where
    p: "r = Some p" "fa_wf fa1" "p \<in> free_frames [m]" "free_frames fa1 = free_frames [m] - {p}"
      "managed_frames fa1 = managed_frames [m]" by (cases r) auto
  then have "p \<in> managed_frames fa1" using free_frames_managed [of "[m]"] by auto
  from frame_dealloc_spec [OF p(2) this] p(3,4) obtain fa2 where
    d: "frame_dealloc fa1 p = Ok fa2" "fa_wf fa2" "free_frames fa2 = free_frames [m]" by auto
  have "finite (free_frames [m])" using finite_managed_frames free_frames_managed by (rule finite_subset [rotated])
  with m(1) wf a p d cnt show ?thesis
    by (auto simp: add_memory_region_def frame_allocator_new_def free_page_count simp del: fa_simps(4))
qed

theorem frame_region_life_cycle_witness:
  "\<exists>fa. add_memory_region frame_allocator_new 0x80000000 0x80100000 = Ok fa \<and> fa_wf fa \<and>
    get_free_page_count fa = 256"
  using frame_region_life_cycle [of "0x80000000" "0x80100000"] by (auto simp: PAGE_SIZE_def)

end
