(* ===== verification/Heap.thy ===== *)
theory Heap
  imports Frame
begin

text \<open>
  The hybrid kernel heap, \<^verbatim>\<open>crates/runtime/src/heap.rs\<close>: requests above 64 KiB are
  served from a 128 MiB pool by a record-keeping allocator, all others (and the
  large ones the pool cannot serve) by a buddy allocator.  The pool allocator is
  modelled completely; positions are offsets into the pool.  The buddy allocator
  is a third-party crate and a parameter of the operations that call it.
\<close>

definition LARGE_ALLOC_THRESHOLD :: nat where
  "LARGE_ALLOC_THRESHOLD = 64 * 1024"

definition LARGE_POOL_SIZE :: nat where
  "LARGE_POOL_SIZE = 128 * 1024 * 1024"

text \<open>An allocation record: offset, size and whether it has been freed.\<close>

type_synonym record_entry = "usize \<times> usize \<times> bool"

record LargeAllocator =
  allocations :: "record_entry list"
  next_alloc_hint :: usize

definition large_new :: LargeAllocator where
  "large_new = \<lparr>allocations = [], next_alloc_hint = 0\<rparr>"

fun is_live :: "record_entry \<Rightarrow> bool" where
  "is_live (_, _, is_free) = (\<not> is_free)"

text \<open>\<^verbatim>\<open>(pos + align - 1) & !(align - 1)\<close>.\<close>

definition align_pos :: "nat \<Rightarrow> nat \<Rightarrow> nat" where
  "align_pos pos align = nat ((int pos + int align - 1) AND NOT (int align - 1))"

fun find_gap :: "(usize \<times> usize) list \<Rightarrow> nat \<Rightarrow> nat \<Rightarrow> nat \<Rightarrow> nat option" where
  "find_gap [] current_pos req align =
     (let aligned_pos = align_pos current_pos align
      in if aligned_pos + req \<le> LARGE_POOL_SIZE then Some aligned_pos else None)"
| "find_gap ((range_start, range_end) # rs) current_pos req align =
     (let aligned_pos = align_pos current_pos align
      in if aligned_pos + req \<le> range_start then Some aligned_pos
         else find_gap rs range_end req align)"

definition used_ranges :: "record_entry list \<Rightarrow> (usize \<times> usize) list" where
  "used_ranges as = sort_key fst (map (\<lambda>(off, sz, _). (off, off + sz)) (filter is_live as))"

definition find_free_block :: "LargeAllocator \<Rightarrow> nat \<Rightarrow> nat \<Rightarrow> nat option" where
  "find_free_block la req align = find_gap (used_ranges (allocations la)) 0 req align"

definition compact_memory :: "LargeAllocator \<Rightarrow> LargeAllocator \<times> bool" where
  "compact_memory la =
     (let kept = filter is_live (allocations la)
      in (la\<lparr>allocations := kept\<rparr>, length kept < length (allocations la)))"

definition get_end_offset :: "LargeAllocator \<Rightarrow> nat" where
  "get_end_offset la =
     (case map (\<lambda>(off, sz, _). off + sz) (filter is_live (allocations la)) of
        [] \<Rightarrow> 0
      | e # es \<Rightarrow> foldl max e es)"

definition get_allocation_stats :: "LargeAllocator \<Rightarrow> nat \<times> nat" where
  "get_allocation_stats la =
     (let free_count = length (filter (\<lambda>a. \<not> is_live a) (allocations la))
      in (free_count, length (allocations la) - free_count))"

definition emergency_reset :: "LargeAllocator \<Rightarrow> LargeAllocator \<times> bool" where
  "emergency_reset la =
     (case get_allocation_stats la of (free_count, used_count) \<Rightarrow>
        if free_count * 3 \<ge> used_count then (la\<lparr>allocations := filter is_live (allocations la)\<rparr>, True)
        else
          let small_cleared = filter (\<lambda>(_, sz, is_free). is_free \<or> sz \<ge> 64 * 1024) (allocations la);
              la2 = (if length (allocations la) > 800 then la\<lparr>allocations := small_cleared\<rparr> else la)
          in if length (allocations la) > 800 \<and> length small_cleared < length (allocations la) then (la2, True)
             else if length (allocations la2) > 500
               then (la2\<lparr>allocations := take (length (allocations la2) div 2) (allocations la2)\<rparr>, True)
             else (la2, False))"

definition emergency :: "LargeAllocator \<Rightarrow> bool" where
  "emergency la \<longleftrightarrow> LARGE_POOL_SIZE - get_end_offset la < LARGE_POOL_SIZE div 10 \<and> length (allocations la) > 100"

definition push_record :: "LargeAllocator \<Rightarrow> nat \<Rightarrow> nat \<Rightarrow> LargeAllocator" where
  "push_record la off req = la\<lparr>allocations := allocations la @ [(off, req, False)]\<rparr>"

definition large_alloc :: "LargeAllocator \<Rightarrow> nat \<Rightarrow> nat \<Rightarrow> LargeAllocator \<times> nat option" where
  "large_alloc la0 req align =
     (let la = (if emergency la0 then fst (emergency_reset la0) else la0)
      in case find_free_block la req align of
           Some off \<Rightarrow> (push_record la off req, Some off)
         | None \<Rightarrow>
             (case compact_memory la of (la1, compacted) \<Rightarrow>
                case (if compacted then find_free_block la1 req align else None) of
                  Some off \<Rightarrow> (push_record la1 off req, Some off)
                | None \<Rightarrow>
                    (let aligned_offset = align_pos (get_end_offset la1) align
                     in if aligned_offset + req \<le> LARGE_POOL_SIZE
                        then (push_record la1 aligned_offset req, Some aligned_offset)
                        else (la1, None))))"

text \<open>Mark the first record that satisfies \<open>p\<close> as freed; the flag tells whether there was one.\<close>

fun free_first :: "(record_entry \<Rightarrow> bool) \<Rightarrow> record_entry list \<Rightarrow> record_entry list \<times> bool" where
  "free_first p [] = ([], False)"
| "free_first p ((off, sz, fr) # as) =
     (if p (off, sz, fr) then ((off, sz, True) # as, True)
      else (case free_first p as of (as', b) \<Rightarrow> ((off, sz, fr) # as', b)))"

fun exact_match :: "nat \<Rightarrow> nat \<Rightarrow> record_entry \<Rightarrow> bool" where
  "exact_match off req (alloc_offset, alloc_size, is_free) =
     (alloc_offset = off \<and> alloc_size = req \<and> \<not> is_free)"

fun containing :: "nat \<Rightarrow> record_entry \<Rightarrow> bool" where
  "containing off (alloc_offset, alloc_size, is_free) =
     (\<not> is_free \<and> alloc_offset \<le> off \<and> off < alloc_offset + alloc_size)"

definition large_dealloc :: "LargeAllocator \<Rightarrow> nat \<Rightarrow> nat \<Rightarrow> LargeAllocator" where
  "large_dealloc la off req =
     (case free_first (exact_match off req) (allocations la) of
        (as', True) \<Rightarrow>
          (let la1 = la\<lparr>allocations := as'\<rparr>
           in case get_allocation_stats la1 of (free_count, used_count) \<Rightarrow>
                if free_count \<ge> 50 \<or> (free_count > 0 \<and> free_count * 4 \<ge> used_count)
                then fst (compact_memory la1) else la1)
      | (_, False) \<Rightarrow>
          (case free_first (containing off) (allocations la) of
             (as', _) \<Rightarrow> la\<lparr>allocations := as'\<rparr>))"

section \<open>The hybrid allocator\<close>

text \<open>
  The state of the buddy allocator has type \<open>'b\<close>; its two operations are
  parameters.  A null pointer is \<open>None\<close>.
\<close>

definition hybrid_alloc ::
  "('b \<Rightarrow> nat \<Rightarrow> nat \<Rightarrow> 'b \<times> usize option) \<Rightarrow> usize \<Rightarrow> LargeAllocator \<times> 'b \<Rightarrow> nat \<Rightarrow> nat \<Rightarrow>
   (LargeAllocator \<times> 'b) \<times> usize option" where
  "hybrid_alloc buddy_alloc pool st req align =
     (case st of (la, b) \<Rightarrow>
        (case (if req > LARGE_ALLOC_THRESHOLD then large_alloc la req align else (la, None)) of
           (la', Some off) \<Rightarrow> ((la', b), Some (pool + off))
         | (la', None) \<Rightarrow> (case buddy_alloc b req align of (b', r) \<Rightarrow> ((la', b'), r))))"

definition hybrid_dealloc ::
  "('b \<Rightarrow> usize \<Rightarrow> nat \<Rightarrow> nat \<Rightarrow> 'b) \<Rightarrow> usize \<Rightarrow> LargeAllocator \<times> 'b \<Rightarrow> usize \<Rightarrow> nat \<Rightarrow> nat \<Rightarrow>
   LargeAllocator \<times> 'b" where
  "hybrid_dealloc buddy_dealloc pool st ptr req align =
     (case st of (la, b) \<Rightarrow>
        if pool \<le> ptr \<and> ptr < pool + LARGE_POOL_SIZE then (large_dealloc la (ptr - pool) req, b)
        else (la, buddy_dealloc b ptr req align))"

section \<open>Alignment\<close>

lemma int_and_not_mask: "(x::int) AND NOT (2 ^ k - 1) = x div 2 ^ k * 2 ^ k"
proof -
  have "x AND NOT (mask k) = push_bit k (drop_bit k x)"
    by (rule bit_eqI) (auto simp: bit_simps)
  then show ?thesis by (simp add: mask_eq_exp_minus_1 push_bit_eq_mult drop_bit_eq_div)
qed

lemma align_pos_eq:
  assumes "align = 2 ^ k"
  shows "align_pos pos align = (pos + align - 1) div align * align"
proof -
  have "1 \<le> pos + align" using assms by (simp add: Suc_le_eq)
  then have "int pos + int align - 1 = int (pos + align - 1)" by (simp add: of_nat_diff)
  then have "align_pos pos align = nat (int ((pos + align - 1) div align * align))"
    using assms int_and_not_mask [of "int (pos + align - 1)" k]
    by (simp add: align_pos_def zdiv_int)
  then show ?thesis by (simp only: nat_int)
qed

lemma align_pos_props:
  assumes "align = 2 ^ k"
  shows "pos \<le> align_pos pos align" "align dvd align_pos pos align"
    "\<And>q. pos \<le> q \<Longrightarrow> align dvd q \<Longrightarrow> align_pos pos align \<le> q"
proof -
  have pos: "0 < align" using assms by simp
  let ?x = "pos + align - 1"
  have "?x = ?x div align * align + ?x mod align" by simp
  moreover have "?x mod align < align" using pos by simp
  ultimately show "pos \<le> align_pos pos align"
    unfolding align_pos_eq [OF assms] using pos by linarith
  show "align dvd align_pos pos align" by (simp add: align_pos_eq [OF assms])
  fix q assume q: "pos \<le> q" "align dvd q"
  then obtain c where c: "q = c * align" by (metis dvd_def mult.commute)
  have "?x < Suc c * align" using q(1) c pos by simp
  then have "?x div align < Suc c" using pos by (simp add: div_less_iff_less_mult)
  then show "align_pos pos align \<le> q"
    unfolding align_pos_eq [OF assms] c by simp
qed

section \<open>The pool invariant\<close>

fun entry_range :: "record_entry \<Rightarrow> usize \<times> usize" where
  "entry_range (off, sz, _) = (off, off + sz)"

fun separate :: "usize \<times> usize \<Rightarrow> usize \<times> usize \<Rightarrow> bool" where
  "separate (s, e) (s', e') = (e \<le> s' \<or> e' \<le> s)"

definition ranges_ok :: "(usize \<times> usize) list \<Rightarrow> bool" where
  "ranges_ok rs \<longleftrightarrow> (\<forall>(s, e) \<in> set rs. s < e \<and> e \<le> LARGE_POOL_SIZE) \<and> distinct rs \<and>
     (\<forall>r \<in> set rs. \<forall>r' \<in> set rs. r \<noteq> r' \<longrightarrow> separate r r')"

definition live_ranges :: "LargeAllocator \<Rightarrow> (usize \<times> usize) list" where
  "live_ranges la = map entry_range (filter is_live (allocations la))"

text \<open>The blocks in use are non-empty, inside the pool and pairwise disjoint.\<close>

definition pool_wf :: "LargeAllocator \<Rightarrow> bool" where
  "pool_wf la \<longleftrightarrow> ranges_ok (live_ranges la)"

definition fits :: "(usize \<times> usize) list \<Rightarrow> nat \<Rightarrow> nat \<Rightarrow> nat \<Rightarrow> nat \<Rightarrow> bool" where
  "fits rs from req align q \<longleftrightarrow> align dvd q \<and> from \<le> q \<and> q + req \<le> LARGE_POOL_SIZE \<and>
     (\<forall>r \<in> set rs. separate r (q, q + req))"

lemma separate_sym: "separate r r' \<Longrightarrow> separate r' r"
  by (cases r; cases r') auto

lemma ranges_ok_Cons:
  "ranges_ok ((s, e) # rs) \<longleftrightarrow> s < e \<and> e \<le> LARGE_POOL_SIZE \<and> ranges_ok rs \<and>
     (\<forall>r \<in> set rs. separate (s, e) r)"
proof -
  have "r = (s, e) \<Longrightarrow> s < e \<Longrightarrow> \<not> separate (s, e) r" for r by auto
  then show ?thesis
    using separate_sym unfolding ranges_ok_def by (auto simp del: separate.simps)
qed

lemma ranges_ok_sub:
  "ranges_ok rs \<Longrightarrow> distinct rs' \<Longrightarrow> set rs' \<subseteq> set rs \<Longrightarrow> ranges_ok rs'"
  unfolding ranges_ok_def by (blast dest: subsetD)

lemma ranges_ok_sort: "ranges_ok (sort_key fst rs) = ranges_ok rs"
  by (simp add: ranges_ok_def)

lemma find_gap_first_fit:
  assumes "align = 2 ^ k" "0 < req" "ranges_ok rs" "sorted (map fst rs)" "\<forall>r \<in> set rs. cur \<le> fst r"
  shows "case find_gap rs cur req align of
      None \<Rightarrow> \<forall>q. \<not> fits rs cur req align q
    | Some off \<Rightarrow> fits rs cur req align off \<and> (\<forall>q. fits rs cur req align q \<longrightarrow> off \<le> q)"
  using assms(3-5)
proof (induction rs arbitrary: cur)
  case Nil
  have "align_pos cur align + req \<le> LARGE_POOL_SIZE" if "fits [] cur req align q" for q
    using that align_pos_props(3) [OF assms(1), of cur q] by (simp add: fits_def)
  then show ?case
    using align_pos_props [OF assms(1), of cur] by (auto simp: fits_def Let_def)
next
  case (Cons r rs)
  obtain s e where r: "r = (s, e)" by fastforce
  note al = align_pos_props [OF assms(1), of cur]
  from Cons.prems have ok: "s < e" "e \<le> LARGE_POOL_SIZE" "ranges_ok rs" "sorted (map fst rs)"
    and sep: "\<forall>r \<in> set rs. separate (s, e) r" and le: "\<forall>r \<in> set rs. s \<le> fst r"
    by (auto simp: r ranges_ok_Cons)
  have later: "\<forall>r \<in> set rs. e \<le> fst r"
  proof
    fix r' assume r': "r' \<in> set rs"
    obtain s' e' where p: "r' = (s', e')" by fastforce
    from r' ok(3) have "s' < e'" by (auto simp: ranges_ok_def p)
    with r' sep le show "e \<le> fst r'" by (fastforce simp: p)
  qed
  show ?case
  proof (cases "align_pos cur align + req \<le> s")
    case True
    have "separate r' (align_pos cur align, align_pos cur align + req)" if "r' \<in> set (r # rs)" for r'
    proof -
      obtain s' e' where p: "r' = (s', e')" by fastforce
      have "s \<le> s'" using that le by (auto simp: p r)
      with True show ?thesis by (simp add: p)
    qed
    with True ok al show ?thesis by (auto simp: r fits_def Let_def)
  next
    case False
    have "fits (r # rs) cur req align q \<longleftrightarrow> fits rs e req align q" for q
    proof
      assume "fits (r # rs) cur req align q"
      then have "cur \<le> q" "align dvd q" "e \<le> q \<or> q + req \<le> s" "fits rs cur req align q"
        by (auto simp: fits_def r)
      moreover from this al(3) [of q] False have "e \<le> q" by linarith
      ultimately show "fits rs e req align q" by (simp add: fits_def)
    qed (use Cons.prems(3) ok(1) in \<open>auto simp: fits_def r\<close>)
    with Cons.IH [OF ok(3,4) later] False show ?thesis
      by (cases "find_gap rs e req align") (simp_all add: r Let_def)
  qed
qed

lemma entry_range_fun: "(\<lambda>(off, sz, _). (off, off + sz)) = entry_range"
  by (simp add: fun_eq_iff)

lemma used_ranges_alt: "used_ranges (allocations la) = sort_key fst (live_ranges la)"
  by (simp add: used_ranges_def live_ranges_def entry_range_fun)

lemma find_free_block_first_fit:
  assumes "pool_wf la" "align = 2 ^ k" "0 < req"
  shows "case find_free_block la req align of
      None \<Rightarrow> \<forall>q. \<not> fits (live_ranges la) 0 req align q
    | Some off \<Rightarrow> fits (live_ranges la) 0 req align off \<and>
        (\<forall>q. fits (live_ranges la) 0 req align q \<longrightarrow> off \<le> q)"
proof -
  have "fits (used_ranges (allocations la)) = fits (live_ranges la)"
    by (simp add: fun_eq_iff fits_def used_ranges_alt)
  moreover have "ranges_ok (used_ranges (allocations la))" "sorted (map fst (used_ranges (allocations la)))"
    using assms(1) by (simp_all add: used_ranges_alt pool_wf_def ranges_ok_sort)
  ultimately show ?thesis
    using find_gap_first_fit [OF assms(2,3), of "used_ranges (allocations la)" 0]
    by (cases "find_gap (used_ranges (allocations la)) 0 req align") (simp_all add: find_free_block_def)
qed

section \<open>Allocation\<close>

lemma live_ranges_push [simp]: "live_ranges (push_record la off req) = live_ranges la @ [(off, off + req)]"
  by (simp add: live_ranges_def push_record_def)

lemma live_ranges_compact [simp]: "live_ranges (fst (compact_memory la)) = live_ranges la"
  by (simp add: live_ranges_def compact_memory_def Let_def)

lemma find_free_block_live: "live_ranges la = live_ranges la' \<Longrightarrow> find_free_block la = find_free_block la'"
  by (simp add: fun_eq_iff find_free_block_def used_ranges_alt)

lemma pool_wf_push:
  assumes "pool_wf la" "fits (live_ranges la) 0 req align off" "0 < req"
  shows "pool_wf (push_record la off req)"
proof -
  have "ranges_ok ((off, off + req) # live_ranges la)"
    using assms separate_sym by (auto simp: ranges_ok_Cons pool_wf_def fits_def simp del: separate.simps)
  then show ?thesis
    unfolding pool_wf_def by (rule ranges_ok_sub) (use \<open>ranges_ok (_ # _)\<close> in \<open>auto simp: ranges_ok_def\<close>)
qed

lemma foldl_max_init: "(e::nat) \<le> foldl max e es"
  by (induction es arbitrary: e) (auto intro: order_trans [OF max.cobounded1])

lemma foldl_max_ge: "x = e \<or> x \<in> set es \<Longrightarrow> (x::nat) \<le> foldl max e es"
  by (induction es arbitrary: e)
    (auto intro: order_trans [OF max.cobounded1 foldl_max_init] order_trans [OF max.cobounded2 foldl_max_init])

lemma end_offset_ge: "(s, e) \<in> set (live_ranges la) \<Longrightarrow> e \<le> get_end_offset la"
proof -
  let ?ends = "map (\<lambda>(off, sz, _). off + sz) (filter is_live (allocations la))"
  have "?ends = map snd (live_ranges la)"
    by (auto simp: live_ranges_def)
  moreover assume "(s, e) \<in> set (live_ranges la)"
  ultimately have "e \<in> set ?ends" by (metis image_eqI list.set_map snd_conv)
  then show ?thesis
    unfolding get_end_offset_def by (cases ?ends) (auto intro: foldl_max_ge simp del: list.set_map)
qed

text \<open>
  When the first search fails, neither the search after compaction nor the
  placement past the last block can succeed.
\<close>

lemma large_alloc_search:
  assumes wf: "pool_wf la" and al: "align = 2 ^ k" and req: "0 < req" and ne: "\<not> emergency la"
  shows "large_alloc la req align =
    (case find_free_block la req align of
       Some off \<Rightarrow> (push_record la off req, Some off)
     | None \<Rightarrow> (fst (compact_memory la), None))"
proof (cases "find_free_block la req align")
  case None
  let ?la1 = "fst (compact_memory la)"
  have none: "find_free_block ?la1 req align = None"
    using None find_free_block_live [of ?la1 la] by simp
  have nofit: "\<not> fits (live_ranges la) 0 req align q" for q
    using find_free_block_first_fit [OF wf al req] None by simp
  let ?e = "align_pos (get_end_offset ?la1) align"
  have "\<not> ?e + req \<le> LARGE_POOL_SIZE"
  proof
    assume "?e + req \<le> LARGE_POOL_SIZE"
    moreover have "separate r (?e, ?e + req)" if "r \<in> set (live_ranges la)" for r
    proof -
      obtain s e where r: "r = (s, e)" by fastforce
      have "e \<le> get_end_offset ?la1"
        using that end_offset_ge [of s e ?la1] by (simp add: r)
      also have "\<dots> \<le> ?e" by (rule align_pos_props(1) [OF al])
      finally show ?thesis by (simp add: r)
    qed
    ultimately have "fits (live_ranges la) 0 req align ?e"
      using align_pos_props(2) [OF al] by (simp add: fits_def)
    with nofit show False by blast
  qed
  with None none ne show ?thesis
    by (auto simp: large_alloc_def Let_def split: prod.splits option.splits if_splits)
qed (use ne in \<open>simp add: large_alloc_def Let_def\<close>)

section \<open>Deallocation\<close>

lemma free_first_exact:
  assumes "free_first (exact_match off req) as = (as', b)"
  shows "map entry_range (filter is_live as') = remove1 (off, off + req) (map entry_range (filter is_live as)) \<and>
    (b \<longleftrightarrow> (off, off + req) \<in> set (map entry_range (filter is_live as)))"
  using assms
proof (induction as arbitrary: as' b)
  case (Cons a as)
  obtain o' sz fr where a: "a = (o', sz, fr)" by (cases a)
  obtain as1 b1 where r: "free_first (exact_match off req) as = (as1, b1)" by fastforce
  have "(as', b) = (if exact_match off req a then ((o', sz, True) # as, True) else ((o', sz, fr) # as1, b1))"
    using Cons.prems unfolding a by (simp only: free_first.simps r prod.case split: if_splits)
  then consider "exact_match off req a" "as' = (o', sz, True) # as" "b"
    | "\<not> exact_match off req a" "as' = (o', sz, fr) # as1" "b = b1" by (auto split: if_splits)
  then show ?case
  proof cases
    case 1
    then show ?thesis by (simp add: a)
  next
    case 2
    then have "fr \<or> entry_range a \<noteq> (off, off + req)" by (auto simp: a)
    with 2 Cons.IH [OF r] show ?thesis by (cases fr) (simp_all add: a, metis add_left_cancel)
  qed
qed simp

lemma large_dealloc_live:
  assumes "(off, off + req) \<in> set (live_ranges la)"
  shows "live_ranges (large_dealloc la off req) = remove1 (off, off + req) (live_ranges la)"
proof -
  obtain as' b where ff: "free_first (exact_match off req) (allocations la) = (as', b)"
    by fastforce
  with free_first_exact [OF ff] assms have b: "b"
    and live: "live_ranges (la\<lparr>allocations := as'\<rparr>) = remove1 (off, off + req) (live_ranges la)"
    by (simp_all add: live_ranges_def)
  moreover obtain fc uc where "get_allocation_stats (la\<lparr>allocations := as'\<rparr>) = (fc, uc)" by fastforce
  ultimately show ?thesis
    by (simp add: large_dealloc_def ff Let_def)
qed

lemma pool_wf_remove1:
  "pool_wf la \<Longrightarrow> live_ranges la' = remove1 r (live_ranges la) \<Longrightarrow> pool_wf la'"
  using ranges_ok_sub [of "live_ranges la" "live_ranges la'"] set_remove1_subset [of r "live_ranges la"]
  by (simp add: pool_wf_def) (simp add: ranges_ok_def)

section \<open>A full pool\<close>

text \<open>The pool after \<open>n\<close> requests of 256 KiB, none of them freed.\<close>

definition BLOCK :: nat where
  "BLOCK = 262144"

definition blocks :: "nat \<Rightarrow> record_entry list" where
  "blocks n = map (\<lambda>i. (i * BLOCK, BLOCK, False)) [0..<n]"

fun alloc_blocks :: "nat \<Rightarrow> LargeAllocator" where
  "alloc_blocks 0 = large_new"
| "alloc_blocks (Suc n) = fst (large_alloc (alloc_blocks n) BLOCK 8)"

lemma filter_blocks [simp]: "filter is_live (blocks n) = blocks n"
  by (simp add: blocks_def)

lemma filter_not_blocks [simp]: "filter (\<lambda>a. \<not> is_live a) (blocks n) = []"
  by (simp add: blocks_def)

lemma length_blocks [simp]: "length (blocks n) = n"
  by (simp add: blocks_def)

lemma take_blocks: "k \<le> n \<Longrightarrow> take k (blocks n) = blocks k"
  by (simp add: blocks_def take_map)

lemma blocks_Suc: "blocks (Suc n) = blocks n @ [(n * BLOCK, BLOCK, False)]"
  by (simp add: blocks_def)

lemma live_blocks: "live_ranges (la\<lparr>allocations := blocks n\<rparr>) = map (\<lambda>i. (i * BLOCK, i * BLOCK + BLOCK)) [0..<n]"
  by (simp add: live_ranges_def) (simp add: blocks_def)

lemma align_pos_block: "align_pos (i * BLOCK) 8 = i * BLOCK"
proof (rule antisym)
  show "align_pos (i * BLOCK) 8 \<le> i * BLOCK"
    by (rule align_pos_props(3) [of 8 3]) (simp_all add: BLOCK_def)
  show "i * BLOCK \<le> align_pos (i * BLOCK) 8"
    by (rule align_pos_props(1) [of 8 3]) simp
qed

lemma find_gap_blocks:
  "i \<le> n \<Longrightarrow> n < 512 \<Longrightarrow>
   find_gap (map (\<lambda>i. (i * BLOCK, i * BLOCK + BLOCK)) [i..<n]) (i * BLOCK) BLOCK 8 = Some (n * BLOCK)"
proof (induction rule: inc_induct)
  case base
  then have "n * BLOCK + BLOCK \<le> LARGE_POOL_SIZE" by (simp add: LARGE_POOL_SIZE_def BLOCK_def)
  then show ?case by (simp add: align_pos_block Let_def)
next
  case (step i)
  have "Suc i * BLOCK = i * BLOCK + BLOCK" "0 < BLOCK" by (simp_all add: BLOCK_def)
  with step show ?case by (simp add: upt_conv_Cons align_pos_block Let_def add.commute)
qed

lemma find_free_block_blocks:
  assumes "n < 512"
  shows "find_free_block (la\<lparr>allocations := blocks n\<rparr>) BLOCK 8 = Some (n * BLOCK)"
proof -
  let ?rs = "map (\<lambda>i. (i * BLOCK, i * BLOCK + BLOCK)) [0..<n]"
  have "sorted (map fst ?rs)" by (simp add: sorted_iff_nth_mono_less)
  then have "sort_key fst ?rs = ?rs" by (rule sort_key_id_if_sorted)
  with find_gap_blocks [of 0 n] assms show ?thesis
    by (simp only: find_free_block_def used_ranges_alt live_blocks mult_0 le0)
qed

lemma reset_blocks:
  assumes "0 < n" "n \<le> 800"
  shows "fst (emergency_reset (la\<lparr>allocations := blocks n\<rparr>)) =
    la\<lparr>allocations := blocks (if n > 500 then n div 2 else n)\<rparr>"
  using assms by (simp add: emergency_reset_def get_allocation_stats_def Let_def take_blocks)

lemma large_alloc_blocks:
  assumes "n \<le> 501"
  shows "large_alloc (la\<lparr>allocations := blocks n\<rparr>) BLOCK 8 =
    (let k = (if emergency (la\<lparr>allocations := blocks n\<rparr>) \<and> n > 500 then n div 2 else n)
     in (la\<lparr>allocations := blocks (Suc k)\<rparr>, Some (k * BLOCK)))"
proof -
  have "0 < n" if "emergency (la\<lparr>allocations := blocks n\<rparr>)" using that by (simp add: emergency_def)
  then show ?thesis
    using assms reset_blocks [of n la]
    by (auto simp: large_alloc_def Let_def find_free_block_blocks push_record_def blocks_Suc)
qed

lemma alloc_blocks: "n \<le> 501 \<Longrightarrow> alloc_blocks n = large_new\<lparr>allocations := blocks n\<rparr>"
proof (induction n)
  case (Suc n)
  then show ?case using large_alloc_blocks [of n large_new] by (simp add: Let_def)
qed (simp add: large_new_def blocks_def)

lemma foldl_max_last: "foldl max 0 (map (\<lambda>i. i * BLOCK + BLOCK) [0..<n]) = n * BLOCK"
  by (induction n) (auto simp: max_def)

lemma emergency_501: "emergency (large_new\<lparr>allocations := blocks 501\<rparr>)"
proof -
  have "(500 * BLOCK, 500 * BLOCK + BLOCK) \<in> set (live_ranges (large_new\<lparr>allocations := blocks 501\<rparr>))"
    unfolding live_blocks set_map by (rule image_eqI [of _ _ 500]) simp_all
  from end_offset_ge [OF this] show ?thesis
    by (simp add: emergency_def LARGE_POOL_SIZE_def BLOCK_def)
qed

lemma large_alloc_spec:
  assumes "pool_wf la" "\<not> emergency la" "align = 2 ^ k" "0 < req"
  shows "case large_alloc la req align of
      (la', Some off) \<Rightarrow> pool_wf la' \<and> live_ranges la' = live_ranges la @ [(off, off + req)] \<and>
        fits (live_ranges la) 0 req align off \<and> (\<forall>q. fits (live_ranges la) 0 req align q \<longrightarrow> off \<le> q)
    | (la', None) \<Rightarrow> pool_wf la' \<and> live_ranges la' = live_ranges la \<and>
        (\<forall>q. \<not> fits (live_ranges la) 0 req align q)"
  using find_free_block_first_fit [OF assms(1,3,4)] pool_wf_push [OF assms(1) _ assms(4)] assms(1)
  unfolding large_alloc_search [OF assms(1,3,4,2)]
  by (cases "find_free_block la req align") (auto simp: pool_wf_def)

section \<open>Properties\<close>

text \<open>
  C34: an allocation from the pool outside an emergency returns the lowest aligned
  offset at which the block lies inside the pool and overlaps no block in use,
  and records exactly this block; it fails only when there is no such offset, and
  the invariant (blocks in use are disjoint and inside the pool) is kept.
\<close>

theorem large_alloc_first_fit:
  assumes "pool_wf la" "\<not> emergency la" "align = 2 ^ k" "0 < req"
  shows "case large_alloc la req align of
      (la', Some off) \<Rightarrow> pool_wf la' \<and> live_ranges la' = live_ranges la @ [(off, off + req)] \<and>
        fits (live_ranges la) 0 req align off \<and> (\<forall>q. fits (live_ranges la) 0 req align q \<longrightarrow> off \<le> q)
    | (la', None) \<Rightarrow> pool_wf la' \<and> live_ranges la' = live_ranges la \<and>
        (\<forall>q. \<not> fits (live_ranges la) 0 req align q)"
  using assms by (rule large_alloc_spec)

theorem large_alloc_first_fit_witness:
  "pool_wf large_new \<and> (case large_alloc large_new 70000 16 of
     (la', Some off) \<Rightarrow> pool_wf la' \<and> live_ranges la' = [(off, off + 70000)] | _ \<Rightarrow> True)"
proof -
  have "pool_wf large_new" "\<not> emergency large_new"
    by (simp_all add: pool_wf_def ranges_ok_def live_ranges_def large_new_def emergency_def)
  with large_alloc_first_fit [OF this, of 16 4 70000] show ?thesis
    by (auto simp: large_new_def live_ranges_def split: prod.splits option.splits)
qed

text \<open>
  A large block that the hybrid allocator hands out is routed back to the pool
  when it is freed, and freeing it removes exactly this block from those in use.
\<close>

theorem hybrid_alloc_dealloc:
  assumes "pool_wf la" "\<not> emergency la" "align = 2 ^ k" "LARGE_ALLOC_THRESHOLD < req"
    "hybrid_alloc buddy_alloc pool (la, b) req align = ((la', b'), Some ptr)"
    "\<exists>q. fits (live_ranges la) 0 req align q"
  shows "pool \<le> ptr \<and> ptr + req \<le> pool + LARGE_POOL_SIZE \<and> pool_wf la' \<and>
    (ptr - pool, ptr - pool + req) \<in> set (live_ranges la') \<and>
    (case hybrid_dealloc buddy_dealloc pool (la', b') ptr req align of
       (la'', b'') \<Rightarrow> b'' = b \<and> pool_wf la'' \<and> live_ranges la'' = live_ranges la)"
proof -
  have req: "0 < req" using assms(4) by simp
  note ff = large_alloc_spec [OF assms(1-3) req]
  obtain la1 r where l: "large_alloc la req align = (la1, r)" by fastforce
  with ff assms(6) obtain off where r: "r = Some off" by (cases r) auto
  with l assms(4,5) have p: "la' = la1" "ptr = pool + off" "b' = b" by (simp_all add: hybrid_alloc_def)
  from ff l r p have live: "live_ranges la' = live_ranges la @ [(off, off + req)]" and wf: "pool_wf la'"
    and fit: "fits (live_ranges la) 0 req align off" by simp_all
  have "(off, off + req) \<notin> set (live_ranges la)"
    using wf live by (auto simp: pool_wf_def ranges_ok_def)
  then have "live_ranges (large_dealloc la' off req) = live_ranges la"
    using large_dealloc_live [of off req la'] live by (simp add: remove1_append)
  moreover have "off < LARGE_POOL_SIZE" using fit req by (simp add: fits_def)
  ultimately show ?thesis
    using fit wf live assms(1) by (simp add: p hybrid_dealloc_def fits_def pool_wf_def)
qed

theorem hybrid_alloc_dealloc_witness:
  "case hybrid_alloc (\<lambda>b _ _. (b, None)) 0x1000 (large_new, ()) 70000 8 of
     ((la', b'), Some ptr) \<Rightarrow> 0x1000 \<le> ptr \<and>
        live_ranges (fst (hybrid_dealloc (\<lambda>b _ _ _. b) 0x1000 (la', b') ptr 70000 8)) = []
   | _ \<Rightarrow> False"
proof -
  have wf: "pool_wf large_new" "\<not> emergency large_new"
    by (simp_all add: pool_wf_def ranges_ok_def live_ranges_def large_new_def emergency_def)
  have "find_free_block large_new 70000 8 = Some 0"
    by (simp add: find_free_block_def used_ranges_def large_new_def align_pos_def LARGE_POOL_SIZE_def Let_def)
  then have l: "large_alloc large_new 70000 8 = (push_record large_new 0 70000, Some 0)"
    using wf(2) by (simp add: large_alloc_def Let_def)
  have h: "hybrid_alloc (\<lambda>b _ _. (b, None)) 0x1000 (large_new, ()) 70000 8 =
      ((push_record large_new 0 70000, ()), Some 0x1000)"
    by (simp add: hybrid_alloc_def l LARGE_ALLOC_THRESHOLD_def)
  have "fits (live_ranges large_new) 0 70000 8 0"
    by (simp add: fits_def live_ranges_def large_new_def LARGE_POOL_SIZE_def)
  then have fit: "\<exists>q. fits (live_ranges large_new) 0 70000 8 q" by blast
  have "live_ranges large_new = []" by (simp add: live_ranges_def large_new_def)
  then show ?thesis
    using hybrid_alloc_dealloc [OF wf _ _ h fit, of 3 "\<lambda>b _ _ _. b"] unfolding h
    by (simp add: LARGE_ALLOC_THRESHOLD_def case_prod_unfold)
qed

text \<open>
  C37: the emergency reset forgets blocks that are still in use.  After 501
  requests of 256 KiB, none of them freed, every block is recorded at its own
  place; the next request resets the table to its first half and is given the
  offset of the 251st block, which its owner never released.
\<close>

theorem emergency_reset_reuses_live_block:
  "live_ranges (alloc_blocks 501) = map (\<lambda>i. (i * BLOCK, i * BLOCK + BLOCK)) [0..<501] \<and>
   (250 * BLOCK, 250 * BLOCK + BLOCK) \<in> set (live_ranges (alloc_blocks 501)) \<and>
   snd (large_alloc (alloc_blocks 501) BLOCK 8) = Some (250 * BLOCK)"
proof -
  have "snd (large_alloc (alloc_blocks 501) BLOCK 8) = Some (250 * BLOCK)"
    using large_alloc_blocks [of 501 large_new] emergency_501 by (simp add: alloc_blocks)
  moreover have "(250 * BLOCK, 250 * BLOCK + BLOCK) \<in> set (map (\<lambda>i. (i * BLOCK, i * BLOCK + BLOCK)) [0..<501])"
    unfolding set_map by (rule image_eqI [of _ _ 250]) simp_all
  ultimately show ?thesis by (simp only: alloc_blocks live_blocks order_refl simp_thms)
qed

end
