(* ===== verification/Paths.thy ===== *)
theory Paths
  imports Kernel_Prelude "HOL-Library.Sublist"
begin

text \<open>
  Paths and the mount table: \<^verbatim>\<open>filesystem/fs/src/pathbuf.rs\<close> and
  \<^verbatim>\<open>filesystem/fs/src/dentry.rs\<close>.  A \<^verbatim>\<open>PathBuf\<close> is the list of its components.
\<close>

type_synonym PathBuf = "string list"

definition SLASH :: char where
  "SLASH = CHR ''/''"

text \<open>\<^verbatim>\<open>str::split("/")\<close>: always at least one piece, empty pieces included.\<close>

fun split_slash :: "string \<Rightarrow> string list" where
  "split_slash [] = [[]]"
| "split_slash (c # cs) =
     (if c = SLASH then [] # split_slash cs
      else case split_slash cs of p # ps \<Rightarrow> (c # p) # ps | [] \<Rightarrow> [[c]])"

fun intercalate :: "string list \<Rightarrow> string" where
  "intercalate [] = []"
| "intercalate [p] = p"
| "intercalate (p # q # ps) = p @ SLASH # intercalate (q # ps)"

definition path_new :: PathBuf where
  "path_new = []"

definition push_component :: "string \<Rightarrow> PathBuf \<Rightarrow> PathBuf" where
  "push_component x pb =
     (if x = ''.'' \<or> x = [] then pb
      else if x = ''..'' then butlast pb
      else pb @ [x])"

definition path_join :: "PathBuf \<Rightarrow> string \<Rightarrow> PathBuf" where
  "path_join self path =
     fold push_component (split_slash path)
       (case path of c # _ \<Rightarrow> if c = SLASH then path_new else self | [] \<Rightarrow> self)"

definition path_from :: "string \<Rightarrow> PathBuf" where
  "path_from s = path_join path_new s"

definition path_string :: "PathBuf \<Rightarrow> string" where
  "path_string self = SLASH # intercalate self"

definition filename :: "PathBuf \<Rightarrow> string" where
  "filename self = (if self = [] then [SLASH] else last self)"

definition path_dir :: "PathBuf \<Rightarrow> PathBuf" where
  "path_dir self = butlast self"

definition levels :: "PathBuf \<Rightarrow> nat" where
  "levels self = length self"

definition starts_with :: "PathBuf \<Rightarrow> PathBuf \<Rightarrow> bool" where
  "starts_with self target \<longleftrightarrow> take (length target) self = target"

definition trim_start :: "PathBuf \<Rightarrow> PathBuf \<Rightarrow> PathBuf" where
  "trim_start self target = (if starts_with self target then drop (length target) self else self)"

section \<open>The mount table\<close>

text \<open>The mounted file systems in the order they were mounted; \<open>'fs\<close> stands for the mounted node.\<close>

type_synonym 'fs mounts = "(PathBuf \<times> 'fs) list"

definition get_mounted :: "'fs mounts \<Rightarrow> PathBuf \<Rightarrow> ('fs \<times> PathBuf) res" where
  "get_mounted ms path =
     (case List.find (\<lambda>(mp, _). starts_with path mp) (rev ms) of
        Some (mp, fs) \<Rightarrow> Ok (fs, trim_start path mp)
      | None \<Rightarrow> Panic)"

definition mount_fs :: "'fs mounts \<Rightarrow> 'fs \<Rightarrow> string \<Rightarrow> 'fs mounts" where
  "mount_fs ms fs path = ms @ [(path_from path, fs)]"

definition umount :: "'fs mounts \<Rightarrow> PathBuf \<Rightarrow> 'fs mounts" where
  "umount ms path = filter (\<lambda>(mp, _). mp \<noteq> path) ms"

text \<open>The table that \<^verbatim>\<open>fs::init\<close> sets up on the given root file system.\<close>

datatype fs_kind = RootFs | DevFs | TmpFs | ShmFs | HomeFs | VarFs | ProcFs

definition init_mounts :: "fs_kind mounts" where
  "init_mounts =
     mount_fs (mount_fs (mount_fs (mount_fs (mount_fs (mount_fs (mount_fs []
       RootFs ''/'') DevFs ''/dev'') TmpFs ''/tmp'') ShmFs ''/dev/shm'') HomeFs ''/home'') VarFs ''/var'')
       ProcFs ''/proc''"

section \<open>Splitting and joining\<close>

definition component :: "string \<Rightarrow> bool" where
  "component x \<longleftrightarrow> x \<noteq> [] \<and> x \<noteq> ''.'' \<and> x \<noteq> ''..'' \<and> SLASH \<notin> set x"

definition path_wf :: "PathBuf \<Rightarrow> bool" where
  "path_wf pb \<longleftrightarrow> (\<forall>x \<in> set pb. component x)"

lemma split_slash_not_Nil [simp]: "split_slash s \<noteq> []"
  by (induction s) (auto split: list.splits)

lemma split_slash_no_slash: "x \<in> set (split_slash s) \<Longrightarrow> SLASH \<notin> set x"
proof (induction s arbitrary: x)
  case (Cons c cs)
  then show ?case by (cases "split_slash cs") (auto split: if_splits)
qed simp

lemma split_slash_plain: "SLASH \<notin> set s \<Longrightarrow> split_slash s = [s]"
  by (induction s) auto

lemma split_slash_append:
  "split_slash (s @ SLASH # t) = split_slash s @ split_slash t"
proof (induction s)
  case (Cons c s)
  then show ?case by (cases "split_slash s") auto
qed simp

lemma split_intercalate:
  "ps \<noteq> [] \<Longrightarrow> \<forall>p \<in> set ps. SLASH \<notin> set p \<Longrightarrow> split_slash (intercalate ps) = ps"
  by (induction ps rule: intercalate.induct) (auto simp: split_slash_plain split_slash_append)

lemma push_component_wf: "path_wf pb \<Longrightarrow> SLASH \<notin> set x \<Longrightarrow> path_wf (push_component x pb)"
  by (auto simp: path_wf_def push_component_def component_def dest: in_set_butlastD)

lemma fold_push_wf: "path_wf pb \<Longrightarrow> \<forall>x \<in> set xs. SLASH \<notin> set x \<Longrightarrow> path_wf (fold push_component xs pb)"
  by (induction xs arbitrary: pb) (auto simp: push_component_wf)

lemma path_join_wf: "path_wf pb \<Longrightarrow> path_wf (path_join pb s)"
proof -
  assume "path_wf pb"
  then have "path_wf (case s of c # _ \<Rightarrow> if c = SLASH then path_new else pb | [] \<Rightarrow> pb)"
    by (auto simp: path_new_def path_wf_def split: list.splits)
  then show ?thesis
    unfolding path_join_def by (rule fold_push_wf) (auto dest: split_slash_no_slash)
qed

lemma fold_push_components: "path_wf ps \<Longrightarrow> fold push_component ps pb = pb @ ps"
  by (induction ps arbitrary: pb) (auto simp: path_wf_def push_component_def component_def)

lemma path_from_string: "path_wf pb \<Longrightarrow> path_from (path_string pb) = pb"
proof (cases pb)
  case Nil
  then show ?thesis
    by (simp add: path_from_def path_join_def path_string_def path_new_def push_component_def SLASH_def)
next
  case (Cons p ps)
  assume wf: "path_wf pb"
  have "split_slash (path_string pb) = [] # pb"
    using split_intercalate [of pb] wf Cons by (auto simp: path_string_def path_wf_def component_def)
  then show ?thesis
    using fold_push_components [OF wf, of "[]"]
    by (simp add: path_from_def path_join_def path_string_def path_new_def push_component_def)
qed

text \<open>
  Resolving in two steps is resolving the concatenation.
\<close>

lemma path_join_assoc:
  assumes "\<not> (\<exists>u. t = SLASH # u)" "s \<noteq> []"
  shows "path_join (path_join pb s) t = path_join pb (s @ SLASH # t)"
proof -
  have "(case t of c # _ \<Rightarrow> if c = SLASH then path_new else p | [] \<Rightarrow> p) = p" for p
    using assms(1) by (auto split: list.splits)
  moreover have "(case s @ SLASH # t of c # _ \<Rightarrow> if c = SLASH then path_new else pb | [] \<Rightarrow> pb) =
      (case s of c # _ \<Rightarrow> if c = SLASH then path_new else pb | [] \<Rightarrow> pb)"
    using assms(2) by (cases s) auto
  ultimately show ?thesis
    by (simp add: path_join_def split_slash_append)
qed

lemma starts_with_prefix: "starts_with p t \<longleftrightarrow> prefix t p"
  by (metis append_take_drop_id prefix_def starts_with_def append_eq_conv_conj)

lemma trim_start_append: "starts_with p t \<Longrightarrow> t @ trim_start p t = p"
  by (metis append_take_drop_id starts_with_def trim_start_def)

section \<open>Mount lookup\<close>

lemma get_mounted_snoc:
  "get_mounted (ms @ [(mp, fs)]) path =
     (if starts_with path mp then Ok (fs, trim_start path mp) else get_mounted ms path)"
  by (simp add: get_mounted_def)

lemma get_mounted_last:
  assumes "([], root) \<in> set ms"
  shows "\<exists>mp fs before after. ms = before @ (mp, fs) # after \<and>
    get_mounted ms path = Ok (fs, trim_start path mp) \<and> starts_with path mp \<and>
    (\<forall>(mp', _) \<in> set after. \<not> starts_with path mp')"
  using assms
proof (induction ms rule: rev_induct)
  case (snoc x ms)
  obtain mp fs where x: "x = (mp, fs)" by fastforce
  show ?case
  proof (cases "starts_with path mp")
    case True
    then show ?thesis
      by (rule_tac exI [of _ mp], rule_tac exI [of _ fs], rule_tac exI [of _ ms], rule_tac exI [of _ "[]"])
        (simp add: x get_mounted_snoc)
  next
    case False
    then have "mp \<noteq> []" by (auto simp: starts_with_def)
    then have "([], root) \<in> set ms" using snoc.prems x by auto
    then obtain mp' fs' before after where m: "ms = before @ (mp', fs') # after"
      "get_mounted ms path = Ok (fs', trim_start path mp')" "starts_with path mp'"
      "\<forall>(mp', _) \<in> set after. \<not> starts_with path mp'" using snoc.IH by blast
    have "get_mounted (ms @ [x]) path = Ok (fs', trim_start path mp')"
      using m(2) False by (simp add: x get_mounted_snoc)
    moreover have "ms @ [x] = before @ (mp', fs') # (after @ [x])" using m(1) by simp
    moreover have "\<forall>(mp', _) \<in> set (after @ [x]). \<not> starts_with path mp'" using m(4) False by (auto simp: x)
    ultimately show ?thesis using m(3) by blast
  qed
qed simp

lemma umount_mount: "\<forall>(mp, _) \<in> set ms. mp \<noteq> path_from p \<Longrightarrow> umount (mount_fs ms fs p) (path_from p) = ms"
  by (auto simp: umount_def mount_fs_def filter_id_conv)

lemma init_mounts_eval: "init_mounts =
   [([], RootFs), ([''dev''], DevFs), ([''tmp''], TmpFs), ([''dev'', ''shm''], ShmFs),
    ([''home''], HomeFs), ([''var''], VarFs), ([''proc''], ProcFs)]"
  by (simp add: init_mounts_def mount_fs_def path_from_def path_join_def path_new_def push_component_def SLASH_def)

section \<open>Properties\<close>

text \<open>
  Resolution of path strings.  The components of a path are never empty, a
  dot, a double dot or contain a slash, whatever the string; printing a path and
  parsing it back gives the path; and resolving a relative path against the result
  of an earlier resolution is resolving the concatenated string.
\<close>

theorem path_resolution:
  assumes "path_wf pb"
  shows "path_wf (path_join pb s) \<and> path_from (path_string pb) = pb \<and>
    (s \<noteq> [] \<longrightarrow> \<not> prefix [SLASH] t \<longrightarrow> path_join (path_join pb s) t = path_join pb (s @ SLASH # t))"
  using path_join_wf [OF assms] path_from_string [OF assms] path_join_assoc [of t s pb]
  by (auto simp: prefix_def)

theorem path_resolution_witness:
  "path_wf (path_join [''usr'', ''lib''] ''../bin/./ls'') \<and> path_from (path_string [''usr'', ''lib'']) = [''usr'', ''lib'']"
  using path_resolution [of "[''usr'', ''lib'']" "''../bin/./ls''" "[]"]
  by (simp add: path_wf_def component_def SLASH_def)

text \<open>
  Mount lookup.  With a root mount in the table the lookup never panics; it
  returns the most recent mount whose path is a prefix, and the mount path
  followed by the rest it returns is the path asked for.  Unmounting a fresh mount
  point restores the table.
\<close>

theorem get_mounted_most_recent:
  assumes "([], root) \<in> set ms"
  shows "(\<exists>mp fs rest before after. ms = before @ (mp, fs) # after \<and> get_mounted ms path = Ok (fs, rest) \<and>
      mp @ rest = path \<and> (\<forall>(mp', _) \<in> set after. \<not> starts_with path mp')) \<and>
    ((\<forall>(mp, _) \<in> set ms. mp \<noteq> path_from p) \<longrightarrow> umount (mount_fs ms fs' p) (path_from p) = ms)"
  using get_mounted_last [OF assms, of path] umount_mount [of ms p fs'] by (metis trim_start_append)

theorem get_mounted_most_recent_witness:
  "\<exists>mp fs rest. get_mounted init_mounts [''dev'', ''null''] = Ok (fs, rest) \<and> mp @ rest = [''dev'', ''null'']"
proof -
  have "([], RootFs) \<in> set init_mounts" by (simp add: init_mounts_eval)
  from get_mounted_most_recent [OF this, of "[''dev'', ''null'']"] show ?thesis by blast
qed

text \<open>
  In the table the kernel boots with, the lookup returns the mount with the
  longest matching path.
\<close>

theorem init_mounts_longest_prefix:
  "\<exists>mp fs rest. get_mounted init_mounts path = Ok (fs, rest) \<and> (mp, fs) \<in> set init_mounts \<and> mp @ rest = path \<and>
     (\<forall>(mp', _) \<in> set init_mounts. starts_with path mp' \<longrightarrow> length mp' \<le> length mp)"
proof -
  have root: "([], RootFs) \<in> set init_mounts" by (simp add: init_mounts_eval)
  obtain mp fs before after where m: "init_mounts = before @ (mp, fs) # after"
    "get_mounted init_mounts path = Ok (fs, trim_start path mp)" "starts_with path mp"
    "\<forall>(mp', _) \<in> set after. \<not> starts_with path mp'"
    using get_mounted_last [OF root, of path] by blast
  have "length mp' \<le> length mp" if "(mp', fs') \<in> set init_mounts" "starts_with path mp'" for mp' fs'
  proof (cases "(mp', fs') \<in> set before")
    case True
    have "sorted_wrt (\<lambda>(p, _) (q, _). prefix p q \<or> prefix q p \<longrightarrow> length p \<le> length q) init_mounts"
      by (simp add: init_mounts_eval)
    then have "prefix mp' mp \<or> prefix mp mp' \<longrightarrow> length mp' \<le> length mp"
      using True unfolding m(1) by (auto simp: sorted_wrt_append)
    with that m(3) show ?thesis by (metis prefix_same_cases starts_with_prefix)
  next
    case False
    have "(mp', fs') \<in> set (before @ (mp, fs) # after)" using that(1) m(1) by simp
    with False m(4) that(2) show ?thesis by auto
  qed
  with m trim_start_append [OF m(3)] show ?thesis
    by (intro exI [of _ mp] exI [of _ fs] exI [of _ "trim_start path mp"]) (auto simp: m(1))
qed

theorem init_mounts_longest_prefix_witness:
  "\<exists>mp fs rest. get_mounted init_mounts [''dev'', ''shm'', ''a''] = Ok (fs, rest) \<and> mp @ rest = [''dev'', ''shm'', ''a'']"
  using init_mounts_longest_prefix [of "[''dev'', ''shm'', ''a'']"] by blast

end
