(* ===== verification/Vfs.thy ===== *)
theory Vfs
  imports Kernel_Prelude
begin

text \<open>
  The virtual file system interface, \<^verbatim>\<open>filesystem/vfscore/src/lib.rs\<close>: the flag sets,
  the metadata records and the inode trait.  A trait object is a record of
  operations on a state \<open>'s\<close>; the methods the trait provides are the record
  \<open>inode_default\<close>, and an implementation overrides fields of it.  References
  from one inode to another (\<^verbatim>\<open>Arc<dyn INodeInterface>\<close>) have the type \<open>'i\<close>.
\<close>

section \<open>Flag sets\<close>

type_synonym OpenFlags = "64 word"
type_synonym StatMode = "32 word"
type_synonym PollEvent = "16 word"

definition O_RDONLY :: OpenFlags where "O_RDONLY = 0"
definition O_WRONLY :: OpenFlags where "O_WRONLY = 1"
definition O_RDWR :: OpenFlags where "O_RDWR = 2"
definition O_CREAT :: OpenFlags where "O_CREAT = 0x40"
definition O_EXCL :: OpenFlags where "O_EXCL = 0x80"
definition O_TRUNC :: OpenFlags where "O_TRUNC = 0x200"
definition O_APPEND :: OpenFlags where "O_APPEND = 0x400"
definition O_NONBLOCK :: OpenFlags where "O_NONBLOCK = 0x800"
definition O_DIRECTORY :: OpenFlags where "O_DIRECTORY = 0x10000"
definition O_CLOEXEC :: OpenFlags where "O_CLOEXEC = 0x80000"

lemmas open_flags_defs = O_RDONLY_def O_WRONLY_def O_RDWR_def O_CREAT_def O_EXCL_def O_TRUNC_def
  O_APPEND_def O_NONBLOCK_def O_DIRECTORY_def O_CLOEXEC_def

definition S_TYPE_MASK :: StatMode where "S_TYPE_MASK = 0xF000"
definition S_FIFO :: StatMode where "S_FIFO = 0x1000"
definition S_CHAR :: StatMode where "S_CHAR = 0x2000"
definition S_DIR :: StatMode where "S_DIR = 0x4000"
definition S_BLOCK :: StatMode where "S_BLOCK = 0x6000"
definition S_FILE :: StatMode where "S_FILE = 0x8000"
definition S_LINK :: StatMode where "S_LINK = 0xA000"
definition S_SOCKET :: StatMode where "S_SOCKET = 0xC000"

lemmas stat_mode_defs = S_TYPE_MASK_def S_FIFO_def S_CHAR_def S_DIR_def S_BLOCK_def S_FILE_def S_LINK_def S_SOCKET_def

definition POLLNONE :: PollEvent where "POLLNONE = 0"
definition POLLIN :: PollEvent where "POLLIN = 1"
definition POLLOUT :: PollEvent where "POLLOUT = 4"
definition POLLERR :: PollEvent where "POLLERR = 8"
definition POLLHUP :: PollEvent where "POLLHUP = 0x10"

lemmas poll_defs = POLLNONE_def POLLIN_def POLLOUT_def POLLERR_def POLLHUP_def

text \<open>\<^verbatim>\<open>contains\<close> of a flag set.\<close>

definition contains :: "'a::len word \<Rightarrow> 'a word \<Rightarrow> bool" where
  "contains w f \<longleftrightarrow> w AND f = f"

definition UTIME_NOW :: nat where "UTIME_NOW = 0x3fffffff"
definition UTIME_OMIT :: nat where "UTIME_OMIT = 0x3ffffffe"

section \<open>Metadata\<close>

datatype FileType = File | Directory | Device | Socket | Link

definition file_type_from :: "StatMode \<Rightarrow> FileType res" where
  "file_type_from value =
     (let t = value AND S_TYPE_MASK in
      if t = S_SOCKET then Ok Socket
      else if t = S_LINK then Ok Link
      else if t = S_FILE then Ok File
      else if t = S_BLOCK then Ok Device
      else if t = S_DIR then Ok Directory
      else if t = S_CHAR then Ok Device
      else if t = S_FIFO then Ok Device
      else Panic)"

datatype SeekFrom = SET usize | CURRENT int | END int

record DirEntry =
  de_filename :: string
  de_len :: nat
  de_type :: FileType

record TimeSpec =
  sec :: nat
  nsec :: nat

definition time_zero :: TimeSpec where
  "time_zero = \<lparr>sec = 0, nsec = 0\<rparr>"

definition to_nsec :: "TimeSpec \<Rightarrow> usize" where
  "to_nsec t = uadd (umul (sec t) 1000000000) (nsec t)"

record Stat =
  st_dev :: u64
  st_ino :: u64
  st_mode :: StatMode
  st_nlink :: nat
  st_uid :: nat
  st_gid :: nat
  st_rdev :: u64
  st_size :: nat
  st_blksize :: nat
  st_blocks :: nat
  st_atime :: TimeSpec
  st_mtime :: TimeSpec
  st_ctime :: TimeSpec

definition stat_default :: Stat where
  "stat_default = \<lparr>st_dev = 0, st_ino = 0, st_mode = 0, st_nlink = 0, st_uid = 0, st_gid = 0, st_rdev = 0,
     st_size = 0, st_blksize = 0, st_blocks = 0, st_atime = time_zero, st_mtime = time_zero, st_ctime = time_zero\<rparr>"

section \<open>The inode interface\<close>

record ('i, 's) inode =
  i_readat :: "'s \<Rightarrow> usize \<Rightarrow> nat \<Rightarrow> 's \<times> u8 list res"
  i_writeat :: "'s \<Rightarrow> usize \<Rightarrow> u8 list \<Rightarrow> 's \<times> nat res"
  i_create :: "'s \<Rightarrow> string \<Rightarrow> FileType \<Rightarrow> 's \<times> unit res"
  i_mkdir :: "'s \<Rightarrow> string \<Rightarrow> 's \<times> unit res"
  i_rmdir :: "'s \<Rightarrow> string \<Rightarrow> 's \<times> unit res"
  i_remove :: "'s \<Rightarrow> string \<Rightarrow> 's \<times> unit res"
  i_read_dir :: "'s \<Rightarrow> DirEntry list res"
  i_lookup :: "'s \<Rightarrow> string \<Rightarrow> 'i res"
  i_ioctl :: "'s \<Rightarrow> usize \<Rightarrow> usize \<Rightarrow> 's \<times> usize res"
  i_truncate :: "'s \<Rightarrow> usize \<Rightarrow> 's \<times> unit res"
  i_flush :: "'s \<Rightarrow> 's \<times> unit res"
  i_resolve_link :: "'s \<Rightarrow> string res"
  i_link :: "'s \<Rightarrow> string \<Rightarrow> 'i \<Rightarrow> 's \<times> unit res"
  i_symlink :: "'s \<Rightarrow> string \<Rightarrow> string \<Rightarrow> 's \<times> unit res"
  i_unlink :: "'s \<Rightarrow> string \<Rightarrow> 's \<times> unit res"
  i_stat :: "'s \<Rightarrow> Stat \<Rightarrow> Stat res"
  i_utimes :: "'s \<Rightarrow> TimeSpec \<Rightarrow> TimeSpec \<Rightarrow> 's \<times> unit res"
  i_poll :: "'s \<Rightarrow> PollEvent \<Rightarrow> 's \<times> PollEvent res"

definition inode_default :: "('i, 's) inode" where
  "inode_default =
     \<lparr>i_readat = \<lambda>s _ _. (s, Err ENOENT),
      i_writeat = \<lambda>s _ _. (s, Err ENOENT),
      i_create = \<lambda>s _ _. (s, Err ENOTDIR),
      i_mkdir = \<lambda>s _. (s, Err EEXIST),
      i_rmdir = \<lambda>s _. (s, Err ENOENT),
      i_remove = \<lambda>s _. (s, Err ENOENT),
      i_read_dir = \<lambda>s. Err EPERM,
      i_lookup = \<lambda>s _. Err ENOENT,
      i_ioctl = \<lambda>s _ _. (s, Err EPERM),
      i_truncate = \<lambda>s _. (s, Err EPERM),
      i_flush = \<lambda>s. (s, Err EPERM),
      i_resolve_link = \<lambda>s. Err EPERM,
      i_link = \<lambda>s _ _. (s, Err EPERM),
      i_symlink = \<lambda>s _ _. (s, Err EPERM),
      i_unlink = \<lambda>s _. (s, Err EPERM),
      i_stat = \<lambda>s _. Err EPERM,
      i_utimes = \<lambda>s _ _. (s, Err EPERM),
      i_poll = \<lambda>s _. (s, Err EPERM)\<rparr>"

lemma contains_refl [simp]: "contains w w"
  by (simp add: contains_def)

lemma contains_0 [simp]: "contains w 0"
  by (simp add: contains_def)

lemma contains_or: "contains (a OR b) b" "contains (a OR b) a"
  by (simp_all add: contains_def bit_eq_iff bit_and_iff bit_or_iff)

text \<open>The type bits of a mode decide its file type, whatever the permission bits are.\<close>

lemma file_type_from_masked: "file_type_from (m AND S_TYPE_MASK) = file_type_from m"
  by (simp add: file_type_from_def ac_simps)

lemma file_type_from_values:
  "file_type_from S_FILE = Ok File" "file_type_from S_DIR = Ok Directory" "file_type_from S_LINK = Ok Link"
  "file_type_from S_SOCKET = Ok Socket" "file_type_from S_CHAR = Ok Device" "file_type_from S_BLOCK = Ok Device"
  "file_type_from S_FIFO = Ok Device" "file_type_from 0 = Panic"
  by (simp_all add: file_type_from_def stat_mode_defs)

lemma to_nsec_exact: "sec t * 1000000000 + nsec t < USIZE \<Longrightarrow> to_nsec t = sec t * 1000000000 + nsec t"
  by (simp add: to_nsec_def umul_def uadd_def)

end
