(* ===== verification/RamFs.thy ===== *)
theory RamFs
  imports Frame Vfs
begin

text \<open>
  The in-memory file system, \<^verbatim>\<open>filesystem/ramfs/src/lib.rs\<close>.  File contents live in
  frames taken from the frame allocator one page at a time; the state is the
  allocator together with the contents of physical pages.  Directories are lists
  of entries that refer to inodes of a store.
\<close>

section \<open>Files\<close>

record phys =
  alloc :: FrameAllocator
  mem :: "usize \<Rightarrow> u8 list"

record RamFileInner =
  file_name :: string
  flen :: usize
  pages :: "usize list"
  times :: "TimeSpec list"

definition ramfile_new :: "string \<Rightarrow> RamFileInner" where
  "ramfile_new name = \<lparr>file_name = name, flen = 0, pages = [], times = replicate 3 time_zero\<rparr>"

text \<open>The copy loop of \<^verbatim>\<open>readat\<close>; indexing past the pages panics.\<close>

function read_loop :: "(usize \<Rightarrow> u8 list) \<Rightarrow> usize list \<Rightarrow> nat \<Rightarrow> nat \<Rightarrow> u8 list res" where
  "read_loop m ps off last_len =
     (let curr_size = min (PAGE_SIZE - off mod PAGE_SIZE) last_len
      in if curr_size = 0 then Ok []
         else if off div PAGE_SIZE < length ps then
           rmap (\<lambda>rest. take curr_size (drop (off mod PAGE_SIZE) (m (ps ! (off div PAGE_SIZE)))) @ rest)
             (read_loop m ps (off + curr_size) (last_len - curr_size))
         else Panic)"
  by pat_completeness auto
termination
  by (relation "measure (\<lambda>(m, ps, off, n). n)") (auto simp: Let_def PAGE_SIZE_def)

declare read_loop.simps [simp del]

definition ram_readat :: "phys \<Rightarrow> RamFileInner \<Rightarrow> usize \<Rightarrow> nat \<Rightarrow> u8 list res" where
  "ram_readat w f off buflen =
     (if off \<ge> flen f then Ok []
      else read_loop (mem w) (pages f) off (min buflen (flen f - off)))"

datatype grow_result = Grown | Partial | NoMem

text \<open>
  \<^verbatim>\<open>for i in inner.len()..pages\<close>: allocate the missing pages one by one; running out
  of memory is an error only when not a single page was allocated.
\<close>

fun grow_pages :: "FrameAllocator \<Rightarrow> usize list \<Rightarrow> nat \<Rightarrow> nat \<Rightarrow> FrameAllocator \<times> usize list \<times> grow_result" where
  "grow_pages f ps 0 allocated = (f, ps, Grown)"
| "grow_pages f ps (Suc n) allocated =
     (case frame_alloc f of
        (f', Some p) \<Rightarrow> grow_pages f' (ps @ [p]) n (Suc allocated)
      | (f', None) \<Rightarrow> (f', ps, if allocated > 0 then Partial else NoMem))"

text \<open>The copy loop of \<^verbatim>\<open>writeat\<close>; it returns the memory and the offset it reached.\<close>

function write_loop :: "(usize \<Rightarrow> u8 list) \<Rightarrow> usize list \<Rightarrow> nat \<Rightarrow> u8 list \<Rightarrow> (usize \<Rightarrow> u8 list) \<times> nat" where
  "write_loop m ps write_offset data =
     (let curr_size = min (PAGE_SIZE - write_offset mod PAGE_SIZE) (length data)
      in if curr_size = 0 then (m, write_offset)
         else let index = write_offset div PAGE_SIZE in
           if index \<ge> length ps then (m, write_offset)
           else write_loop (m(ps ! index := overwrite (m (ps ! index)) (write_offset mod PAGE_SIZE) (take curr_size data)))
                  ps (write_offset + curr_size) (drop curr_size data))"
  by pat_completeness auto
termination
  by (relation "measure (\<lambda>(m, ps, off, d). length d)") (auto simp: Let_def PAGE_SIZE_def)

declare write_loop.simps [simp del]

definition ram_writeat :: "phys \<Rightarrow> RamFileInner \<Rightarrow> usize \<Rightarrow> u8 list \<Rightarrow> (phys \<times> RamFileInner) \<times> nat res" where
  "ram_writeat w f off buffer =
     (let n = div_ceil (uadd off (length buffer)) PAGE_SIZE
      in case grow_pages (alloc w) (pages f) (n - length (pages f)) 0 of
           (fa', ps, NoMem) \<Rightarrow> ((w\<lparr>alloc := fa'\<rparr>, f\<lparr>pages := ps\<rparr>), Err ENOMEM)
         | (fa', ps, _) \<Rightarrow>
             (let available_space = length ps * PAGE_SIZE;
                  max_writable = (if off < available_space then available_space - off else 0);
                  actual_write_size = min (length buffer) max_writable
              in case write_loop (mem w) ps off (take actual_write_size buffer) of
                   (m', write_offset) \<Rightarrow>
                     ((w\<lparr>alloc := fa', mem := m'\<rparr>,
                       f\<lparr>pages := ps, flen := (if write_offset > flen f then write_offset else flen f)\<rparr>),
                      Ok actual_write_size)))"

definition zero_page :: "u8 list" where
  "zero_page = replicate PAGE_SIZE 0"

fun truncate_grow :: "FrameAllocator \<Rightarrow> usize list \<Rightarrow> nat \<Rightarrow> FrameAllocator \<times> usize list \<times> bool" where
  "truncate_grow f ps 0 = (f, ps, True)"
| "truncate_grow f ps (Suc n) =
     (case frame_alloc f of
        (f', Some p) \<Rightarrow> truncate_grow f' (ps @ [p]) n
      | (f', None) \<Rightarrow> (f', ps, False))"

definition ram_truncate :: "phys \<Rightarrow> RamFileInner \<Rightarrow> usize \<Rightarrow> (phys \<times> RamFileInner) \<times> unit res" where
  "ram_truncate w f sz =
     (let f1 = f\<lparr>flen := sz\<rparr>;
          target_pages = div_ceil sz PAGE_SIZE;
          m1 = (\<lambda>p. if p \<in> set (drop target_pages (pages f)) then zero_page else mem w p);
          page = sz div PAGE_SIZE; off = sz mod PAGE_SIZE;
          m2 = (if off \<noteq> 0 \<and> page < length (pages f)
                then m1(pages f ! page := overwrite (m1 (pages f ! page)) off (replicate (PAGE_SIZE - off) 0))
                else m1)
      in case truncate_grow (alloc w) (pages f) (target_pages - length (pages f)) of
           (fa', ps, True) \<Rightarrow> ((w\<lparr>alloc := fa', mem := m2\<rparr>, f1\<lparr>pages := ps\<rparr>), Ok ())
         | (fa', ps, False) \<Rightarrow> ((w\<lparr>alloc := fa', mem := m2\<rparr>, f1\<lparr>pages := ps\<rparr>), Err ENOMEM))"

definition ram_utimes :: "RamFileInner \<Rightarrow> TimeSpec \<Rightarrow> TimeSpec \<Rightarrow> RamFileInner" where
  "ram_utimes f a m =
     (let t1 = (if nsec a \<noteq> UTIME_OMIT then (times f)[1 := a] else times f);
          t2 = (if nsec m \<noteq> UTIME_OMIT then t1[2 := m] else t1)
      in f\<lparr>times := t2\<rparr>)"

section \<open>Directories\<close>

text \<open>References to the inodes of the file system; a link wraps the inode it was made for.\<close>

datatype ram_handle = HFile nat | HDir nat | HLink ram_handle

datatype FileContainer = CFile string nat | CDir string nat | CLink string ram_handle

fun entry_name :: "FileContainer \<Rightarrow> string" where
  "entry_name (CFile n _) = n"
| "entry_name (CDir n _) = n"
| "entry_name (CLink n _) = n"

fun to_inode :: "FileContainer \<Rightarrow> ram_handle" where
  "to_inode (CFile _ i) = HFile i"
| "to_inode (CDir _ i) = HDir i"
| "to_inode (CLink _ h) = HLink h"

text \<open>\<open>fresh\<close> is the inode of the new file or directory.\<close>

definition ram_mkdir :: "FileContainer list \<Rightarrow> string \<Rightarrow> nat \<Rightarrow> FileContainer list res" where
  "ram_mkdir children name fresh =
     (case List.find (\<lambda>x. entry_name x = name) children of
        Some _ \<Rightarrow> Err EEXIST
      | None \<Rightarrow> Ok (children @ [CDir name fresh]))"

definition ram_lookup :: "FileContainer list \<Rightarrow> string \<Rightarrow> ram_handle res" where
  "ram_lookup children name =
     (case List.find (\<lambda>x. entry_name x = name) children of
        Some x \<Rightarrow> Ok (to_inode x)
      | None \<Rightarrow> Err ENOENT)"

definition ram_create :: "FileContainer list \<Rightarrow> string \<Rightarrow> FileType \<Rightarrow> nat \<Rightarrow> FileContainer list res" where
  "ram_create children name ty fresh =
     (if ty = Directory then Ok (children @ [CDir name fresh])
      else if ty = File then Ok (children @ [CFile name fresh])
      else Panic)"

fun is_dir_named :: "string \<Rightarrow> FileContainer \<Rightarrow> bool" where
  "is_dir_named name (CDir n _) = (n = name)"
| "is_dir_named name _ = False"

fun is_file_named :: "string \<Rightarrow> FileContainer \<Rightarrow> bool" where
  "is_file_named name (CDir _ _) = False"
| "is_file_named name x = (entry_name x = name)"

definition ram_rmdir :: "FileContainer list \<Rightarrow> string \<Rightarrow> FileContainer list \<times> unit res" where
  "ram_rmdir children name =
     (filter (\<lambda>x. \<not> is_dir_named name x) children,
      if length (filter (is_dir_named name) children) > 0 then Ok () else Err ENOENT)"

definition ram_remove :: "FileContainer list \<Rightarrow> string \<Rightarrow> FileContainer list \<times> unit res" where
  "ram_remove children name =
     (filter (\<lambda>x. \<not> is_file_named name x) children,
      if length (filter (is_file_named name) children) > 0 then Ok () else Err ENOENT)"

definition ram_unlink :: "FileContainer list \<Rightarrow> string \<Rightarrow> FileContainer list \<times> unit res" where
  "ram_unlink children name = ram_remove children name"

definition ram_link :: "FileContainer list \<Rightarrow> string \<Rightarrow> ram_handle \<Rightarrow> FileContainer list res" where
  "ram_link children name src =
     (case List.find (\<lambda>x. entry_name x = name) children of
        Some _ \<Rightarrow> Err EEXIST
      | None \<Rightarrow> Ok (children @ [CLink name src]))"

definition ram_read_dir :: "(nat \<Rightarrow> nat) \<Rightarrow> FileContainer list \<Rightarrow> DirEntry list" where
  "ram_read_dir file_len children =
     map (\<lambda>x. case x of
            CFile n i \<Rightarrow> \<lparr>de_filename = n, de_len = file_len i, de_type = File\<rparr>
          | CDir n _ \<Rightarrow> \<lparr>de_filename = n, de_len = 0, de_type = Directory\<rparr>
          | CLink n _ \<Rightarrow> \<lparr>de_filename = n, de_len = 0, de_type = Link\<rparr>) children"

definition ends_with :: "string \<Rightarrow> string \<Rightarrow> bool" where
  "ends_with s t \<longleftrightarrow> length t \<le> length s \<and> drop (length s - length t) s = t"

definition ram_file_stat :: "RamFileInner \<Rightarrow> Stat \<Rightarrow> Stat" where
  "ram_file_stat f st =
     st\<lparr>st_ino := (if ends_with (file_name f) ''.s'' then 2 else 1),
        st_mode := S_FILE, st_nlink := 1, st_uid := 0, st_gid := 0, st_size := flen f,
        st_blksize := 512, st_blocks := 0, st_rdev := 0,
        st_atime := times f ! 1, st_mtime := times f ! 2\<rparr>"

definition ram_dir_stat :: "Stat \<Rightarrow> Stat" where
  "ram_dir_stat st =
     st\<lparr>st_ino := 1, st_mode := S_DIR, st_nlink := 1, st_uid := 0, st_gid := 0, st_size := 0,
        st_blksize := 512, st_blocks := 0, st_rdev := 0,
        st_mtime := time_zero, st_atime := time_zero, st_ctime := time_zero\<rparr>"

text \<open>\<open>addr\<close> is the address of the link object, which the code reports as inode number.\<close>

definition ram_link_stat :: "u64 \<Rightarrow> Stat \<Rightarrow> Stat" where
  "ram_link_stat addr st =
     st\<lparr>st_ino := addr, st_blksize := 4096, st_blocks := 8, st_size := 3, st_uid := 0, st_gid := 0, st_mode := S_LINK\<rparr>"

section \<open>The inodes of a ramfs\<close>

text \<open>
  The whole file system: physical memory and the files, directories and links by
  inode number.  \<open>rs_next\<close> is the number the next created inode gets.
\<close>

record RamState =
  rs_phys :: phys
  rs_files :: "nat \<Rightarrow> RamFileInner"
  rs_dirs :: "nat \<Rightarrow> FileContainer list"
  rs_next :: nat

definition lift_file :: "nat \<Rightarrow> RamState \<Rightarrow> (phys \<times> RamFileInner) \<times> 'a res \<Rightarrow> RamState \<times> 'a res" where
  "lift_file i s r = (case r of ((w, f), x) \<Rightarrow> (s\<lparr>rs_phys := w, rs_files := (rs_files s)(i := f)\<rparr>, x))"

definition lift_dir :: "nat \<Rightarrow> RamState \<Rightarrow> FileContainer list \<times> unit res \<Rightarrow> RamState \<times> unit res" where
  "lift_dir i s r = (case r of (ch, x) \<Rightarrow> (s\<lparr>rs_dirs := (rs_dirs s)(i := ch)\<rparr>, x))"

text \<open>A new entry: the inode number \<^term>\<open>rs_next s\<close> is taken by a new file or directory.\<close>

definition lift_new :: "nat \<Rightarrow> RamState \<Rightarrow> string \<Rightarrow> FileContainer list res \<Rightarrow> RamState \<times> unit res" where
  "lift_new i s name r =
     (case r of
        Ok ch \<Rightarrow> (s\<lparr>rs_dirs := (rs_dirs s)(rs_next s := [], i := ch),
                     rs_files := (rs_files s)(rs_next s := ramfile_new name), rs_next := Suc (rs_next s)\<rparr>, Ok ())
      | Err e \<Rightarrow> (s, Err e)
      | Panic \<Rightarrow> (s, Panic))"

definition ram_file_inode :: "nat \<Rightarrow> (ram_handle, RamState) inode" where
  "ram_file_inode i = inode_default
     \<lparr>i_readat := \<lambda>s off n. (s, ram_readat (rs_phys s) (rs_files s i) off n),
      i_writeat := \<lambda>s off d. lift_file i s (ram_writeat (rs_phys s) (rs_files s i) off d),
      i_truncate := \<lambda>s sz. lift_file i s (ram_truncate (rs_phys s) (rs_files s i) sz),
      i_stat := \<lambda>s st. Ok (ram_file_stat (rs_files s i) st),
      i_utimes := \<lambda>s a m. (s\<lparr>rs_files := (rs_files s)(i := ram_utimes (rs_files s i) a m)\<rparr>, Ok ())\<rparr>"

definition ram_dir_inode :: "nat \<Rightarrow> (ram_handle, RamState) inode" where
  "ram_dir_inode i = inode_default
     \<lparr>i_mkdir := \<lambda>s n. lift_new i s n (ram_mkdir (rs_dirs s i) n (rs_next s)),
      i_lookup := \<lambda>s n. ram_lookup (rs_dirs s i) n,
      i_create := \<lambda>s n ty. lift_new i s n (ram_create (rs_dirs s i) n ty (rs_next s)),
      i_rmdir := \<lambda>s n. lift_dir i s (ram_rmdir (rs_dirs s i) n),
      i_read_dir := \<lambda>s. Ok (ram_read_dir (\<lambda>j. flen (rs_files s j)) (rs_dirs s i)),
      i_remove := \<lambda>s n. lift_dir i s (ram_remove (rs_dirs s i) n),
      i_unlink := \<lambda>s n. lift_dir i s (ram_unlink (rs_dirs s i) n),
      i_stat := \<lambda>s st. Ok (ram_dir_stat st),
      i_link := \<lambda>s n src. (case ram_link (rs_dirs s i) n src of
         Ok ch \<Rightarrow> (s\<lparr>rs_dirs := (rs_dirs s)(i := ch)\<rparr>, Ok ()) | Err e \<Rightarrow> (s, Err e) | Panic \<Rightarrow> (s, Panic))\<rparr>"

text \<open>A link forwards reads, writes and truncation to the inode it was made for.\<close>

definition ram_link_inode :: "(ram_handle, RamState) inode \<Rightarrow> u64 \<Rightarrow> (ram_handle, RamState) inode" where
  "ram_link_inode target addr = inode_default
     \<lparr>i_stat := \<lambda>s st. Ok (ram_link_stat addr st),
      i_readat := i_readat target, i_writeat := i_writeat target, i_truncate := i_truncate target\<rparr>"

fun ram_inode :: "(ram_handle \<Rightarrow> u64) \<Rightarrow> ram_handle \<Rightarrow> (ram_handle, RamState) inode" where
  "ram_inode addr (HFile i) = ram_file_inode i"
| "ram_inode addr (HDir i) = ram_dir_inode i"
| "ram_inode addr (HLink h) = ram_link_inode (ram_inode addr h) (addr (HLink h))"

section \<open>The flat contents of a file\<close>

definition flat :: "(usize \<Rightarrow> u8 list) \<Rightarrow> usize list \<Rightarrow> u8 list" where
  "flat m ps = concat (map m ps)"

definition pages_ok :: "(usize \<Rightarrow> u8 list) \<Rightarrow> usize list \<Rightarrow> bool" where
  "pages_ok m ps \<longleftrightarrow> distinct ps \<and> (\<forall>p \<in> set ps. length (m p) = PAGE_SIZE)"

definition contents :: "phys \<Rightarrow> RamFileInner \<Rightarrow> u8 list" where
  "contents w f = take (flen f) (flat (mem w) (pages f))"

definition phys_wf :: "phys \<Rightarrow> bool" where
  "phys_wf w \<longleftrightarrow> fa_wf (alloc w) \<and> (\<forall>p. length (mem w p) = PAGE_SIZE)"

text \<open>
  A file is well formed when its pages are distinct, none of them is free, and
  its length does not exceed its pages.
\<close>

definition file_wf :: "phys \<Rightarrow> RamFileInner \<Rightarrow> bool" where
  "file_wf w f \<longleftrightarrow> distinct (pages f) \<and> set (pages f) \<inter> free_frames (alloc w) = {} \<and>
     flen f \<le> length (pages f) * PAGE_SIZE"

lemma PAGE_SIZE_pos [simp]: "0 < PAGE_SIZE"
  by (simp add: PAGE_SIZE_def)

lemma length_flat: "\<forall>p \<in> set ps. length (m p) = PAGE_SIZE \<Longrightarrow> length (flat m ps) = length ps * PAGE_SIZE"
  by (induction ps) (auto simp: flat_def)

lemma drop_flat:
  "\<forall>p \<in> set ps. length (m p) = PAGE_SIZE \<Longrightarrow> drop (i * PAGE_SIZE) (flat m ps) = flat m (drop i ps)"
proof (induction ps arbitrary: i)
  case (Cons p ps)
  then show ?case by (cases i) (simp_all add: flat_def)
qed (simp add: flat_def)

lemma drop_flat_off:
  assumes "\<forall>p \<in> set ps. length (m p) = PAGE_SIZE" "off div PAGE_SIZE < length ps"
  shows "drop off (flat m ps) =
    drop (off mod PAGE_SIZE) (m (ps ! (off div PAGE_SIZE))) @ flat m (drop (Suc (off div PAGE_SIZE)) ps)"
proof -
  let ?i = "off div PAGE_SIZE" and ?r = "off mod PAGE_SIZE"
  have "drop off (flat m ps) = drop ?r (drop (?i * PAGE_SIZE) (flat m ps))"
    by (simp only: drop_drop) simp
  also have "\<dots> = drop ?r (m (ps ! ?i) @ flat m (drop (Suc ?i) ps))"
    using assms(1) Cons_nth_drop_Suc [OF assms(2), symmetric] by (simp only: drop_flat) (simp add: flat_def)
  also have "\<dots> = drop ?r (m (ps ! ?i)) @ flat m (drop (Suc ?i) ps)"
    using assms nth_mem [OF assms(2)] by (simp add: less_imp_le)
  finally show ?thesis .
qed

lemma div_less_cap: "off < n * PAGE_SIZE \<Longrightarrow> off div PAGE_SIZE < n"
  by (simp add: less_mult_imp_div_less)

lemma read_loop_flat:
  assumes "\<forall>p \<in> set ps. length (m p) = PAGE_SIZE" "off + n \<le> length ps * PAGE_SIZE"
  shows "read_loop m ps off n = Ok (take n (drop off (flat m ps)))"
  using assms
proof (induction m ps off n rule: read_loop.induct)
  case (1 m ps off n)
  let ?c = "min (PAGE_SIZE - off mod PAGE_SIZE) n"
  have room: "0 < PAGE_SIZE - off mod PAGE_SIZE" by simp
  show ?case
  proof (cases "?c = 0")
    case True
    then have "n = 0" using room by linarith
    with True show ?thesis by (subst read_loop.simps) (simp add: Let_def)
  next
    case False
    then have n: "0 < n" by auto
    then have i: "off div PAGE_SIZE < length ps" using "1.prems"(2) by (intro div_less_cap) simp
    let ?d = "drop (off mod PAGE_SIZE) (m (ps ! (off div PAGE_SIZE)))"
    have len: "length ?d = PAGE_SIZE - off mod PAGE_SIZE" using "1.prems"(1) nth_mem [OF i] by simp
    have flat: "drop off (flat m ps) = ?d @ flat m (drop (Suc (off div PAGE_SIZE)) ps)"
      by (rule drop_flat_off [OF "1.prems"(1) i])
    have first: "take ?c (drop off (flat m ps)) = take ?c ?d" unfolding flat using len by simp
    have split: "take n (drop off (flat m ps)) =
        take ?c (drop off (flat m ps)) @ take (n - ?c) (drop (off + ?c) (flat m ps))"
      by (metis add.commute drop_drop le_add_diff_inverse min.cobounded2 take_add)
    have rest: "read_loop m ps (off + ?c) (n - ?c) = Ok (take (n - ?c) (drop (off + ?c) (flat m ps)))"
      using "1.IH" [OF refl False i] "1.prems" by simp
    have "read_loop m ps off n = rmap (\<lambda>rest. take ?c ?d @ rest) (read_loop m ps (off + ?c) (n - ?c))"
      using False i by (subst read_loop.simps) (simp only: Let_def if_False if_True)
    then show ?thesis by (simp only: rest rmap.simps split first)
  qed
qed

section \<open>Writing\<close>

lemma overwrite_overwrite:
  assumes "at + length a + length b \<le> length dst"
  shows "overwrite (overwrite dst at a) (at + length a) b = overwrite dst at (a @ b)"
  using assms by (intro nth_equalityI) (auto simp: nth_overwrite nth_append)

lemma nth_concat_uniform:
  assumes "\<forall>x \<in> set xs. length x = P" "0 < P" "j < length xs * P"
  shows "concat xs ! j = xs ! (j div P) ! (j mod P)"
  using assms
proof (induction xs arbitrary: j)
  case (Cons x xs)
  show ?case
  proof (cases "j < P")
    case False
    then have "j div P = Suc ((j - P) div P)" "j mod P = (j - P) mod P"
      using Cons.prems(2) by (simp_all add: le_div_geq le_mod_geq)
    with False Cons show ?thesis by (simp add: nth_append)
  qed (use Cons in \<open>simp add: nth_append\<close>)
qed simp

lemma nth_flat:
  "\<forall>p \<in> set ps. length (m p) = PAGE_SIZE \<Longrightarrow> j < length ps * PAGE_SIZE \<Longrightarrow>
   flat m ps ! j = m (ps ! (j div PAGE_SIZE)) ! (j mod PAGE_SIZE)"
  unfolding flat_def using nth_concat_uniform [of "map m ps" PAGE_SIZE j]
  by (simp add: div_less_cap)

lemma flat_overwrite_page:
  assumes ok: "pages_ok m ps" and i: "off div PAGE_SIZE < length ps"
    and fit: "off mod PAGE_SIZE + length d \<le> PAGE_SIZE"
  defines "p \<equiv> ps ! (off div PAGE_SIZE)"
  defines "m' \<equiv> m(p := overwrite (m p) (off mod PAGE_SIZE) d)"
  shows "pages_ok m' ps" "flat m' ps = overwrite (flat m ps) off d"
proof -
  have len: "\<forall>p \<in> set ps. length (m p) = PAGE_SIZE" and dist: "distinct ps"
    using ok by (simp_all add: pages_ok_def)
  have p: "p \<in> set ps" using i by (simp add: p_def)
  show ok': "pages_ok m' ps" using ok p fit by (simp add: pages_ok_def m'_def)
  then have len': "\<forall>p \<in> set ps. length (m' p) = PAGE_SIZE" by (simp add: pages_ok_def)
  have cap: "off + length d \<le> length ps * PAGE_SIZE"
  proof -
    have "off = off div PAGE_SIZE * PAGE_SIZE + off mod PAGE_SIZE" by simp
    then have "off + length d \<le> Suc (off div PAGE_SIZE) * PAGE_SIZE"
      using fit by (simp only: mult_Suc)
    also have "\<dots> \<le> length ps * PAGE_SIZE" using i by (intro mult_le_mono1) simp
    finally show ?thesis .
  qed
  show "flat m' ps = overwrite (flat m ps) off d"
  proof (rule nth_equalityI)
    show "length (flat m' ps) = length (overwrite (flat m ps) off d)"
      using cap by (simp add: length_flat len len')
    fix j assume "j < length (flat m' ps)"
    then have j: "j < length ps * PAGE_SIZE" by (simp add: length_flat len')
    let ?q = "j div PAGE_SIZE" and ?r = "j mod PAGE_SIZE"
    have q: "?q < length ps" by (rule div_less_cap [OF j])
    have same: "ps ! ?q = p \<longleftrightarrow> ?q = off div PAGE_SIZE"
      using q i dist by (simp add: p_def nth_eq_iff_index_eq)
    have jq: "j = PAGE_SIZE * ?q + ?r" "off = PAGE_SIZE * (off div PAGE_SIZE) + off mod PAGE_SIZE" by simp_all
    have inside: "?q = off div PAGE_SIZE" if "off \<le> j" "j < off + length d"
    proof (rule div_nat_eqI)
      show "PAGE_SIZE * (off div PAGE_SIZE) \<le> j" using that(1) jq(2) by linarith
      show "j < PAGE_SIZE * Suc (off div PAGE_SIZE)"
        using that(2) fit jq(2) unfolding mult_Suc_right by linarith
    qed
    show "flat m' ps ! j = overwrite (flat m ps) off d ! j"
    proof (cases "?q = off div PAGE_SIZE")
      case True
      then have cond: "off \<le> j \<longleftrightarrow> off mod PAGE_SIZE \<le> ?r"
        "j < off + length d \<longleftrightarrow> ?r < off mod PAGE_SIZE + length d" "j - off = ?r - off mod PAGE_SIZE"
        using jq unfolding True by linarith+
      have "flat m' ps ! j = overwrite (m p) (off mod PAGE_SIZE) d ! ?r"
        unfolding nth_flat [OF len' j] using True same by (simp add: m'_def)
      also have "\<dots> = (if off \<le> j \<and> j < off + length d then d ! (j - off) else m p ! ?r)"
        using fit len p by (simp add: nth_overwrite cond)
      also have "\<dots> = overwrite (flat m ps) off d ! j"
        using cap j True by (simp add: nth_overwrite length_flat len nth_flat [OF len j] p_def)
      finally show ?thesis .
    next
      case False
      then have "\<not> (off \<le> j \<and> j < off + length d)" using inside by blast
      then have "overwrite (flat m ps) off d ! j = flat m ps ! j"
        using cap j by (auto simp: nth_overwrite length_flat len)
      then show ?thesis
        unfolding nth_flat [OF len' j] nth_flat [OF len j] using False same by (simp add: m'_def)
    qed
  qed
qed

lemma write_loop_flat:
  assumes "pages_ok m ps" "off + length d \<le> length ps * PAGE_SIZE"
  shows "\<exists>m'. write_loop m ps off d = (m', off + length d) \<and> pages_ok m' ps \<and>
    flat m' ps = overwrite (flat m ps) off d \<and> (\<forall>p. p \<notin> set ps \<longrightarrow> m' p = m p)"
  using assms
proof (induction m ps off d rule: write_loop.induct)
  case (1 m ps off d)
  let ?c = "min (PAGE_SIZE - off mod PAGE_SIZE) (length d)"
  have room: "0 < PAGE_SIZE - off mod PAGE_SIZE" by simp
  show ?case
  proof (cases "?c = 0")
    case True
    then have "length d = 0" using room by linarith
    with True "1.prems" show ?thesis by (subst write_loop.simps) (simp add: overwrite_def)
  next
    case False
    then have "0 < length d" by linarith
    then have i: "off div PAGE_SIZE < length ps" using "1.prems"(2) by (intro div_less_cap) linarith
    let ?p = "ps ! (off div PAGE_SIZE)"
    let ?m = "m(?p := overwrite (m ?p) (off mod PAGE_SIZE) (take ?c d))"
    have fit: "off mod PAGE_SIZE + length (take ?c d) \<le> PAGE_SIZE"
      using mod_less_divisor [OF PAGE_SIZE_pos, of off] unfolding length_take by linarith
    note page = flat_overwrite_page [OF "1.prems"(1) i fit]
    have ni: "\<not> length ps \<le> off div PAGE_SIZE" using i by simp
    have cap: "off + ?c + length (drop ?c d) \<le> length ps * PAGE_SIZE" using "1.prems"(2) by simp
    from "1.IH" [OF refl False refl ni page(1) cap] obtain m' where
      m': "write_loop ?m ps (off + ?c) (drop ?c d) = (m', off + ?c + length (drop ?c d))" "pages_ok m' ps"
        "flat m' ps = overwrite (flat ?m ps) (off + ?c) (drop ?c d)" "\<forall>p. p \<notin> set ps \<longrightarrow> m' p = ?m p"
      by blast
    have "flat m' ps = overwrite (flat m ps) off (take ?c d @ drop ?c d)"
      unfolding m'(3) page(2)
      using overwrite_overwrite [of off "take ?c d" "drop ?c d" "flat m ps"] "1.prems"
      by (simp add: length_flat pages_ok_def)
    moreover have "write_loop m ps off d = (m', off + length d)"
      using False i m'(1) by (subst write_loop.simps) (simp add: Let_def)
    ultimately show ?thesis using m'(2,4) i by auto
  qed
qed

section \<open>Growing\<close>

lemma grow_pages_spec:
  assumes "fa_wf f" "distinct ps" "set ps \<inter> free_frames f = {}" "grow_pages f ps n k = (f', ps', r)"
  shows "\<exists>new. ps' = ps @ new \<and> distinct ps' \<and> set new \<subseteq> free_frames f \<and> fa_wf f' \<and>
    managed_frames f' = managed_frames f \<and> free_frames f' = free_frames f - set new \<and> length new \<le> n \<and>
    (r = Grown \<longleftrightarrow> length new = n) \<and> (r \<noteq> Grown \<longrightarrow> free_frames f' = {}) \<and>
    (r = NoMem \<longrightarrow> k = 0 \<and> new = [])"
  using assms
proof (induction n arbitrary: f ps k)
  case (Suc n)
  obtain f1 x where a: "frame_alloc f = (f1, x)" by fastforce
  note spec = frame_alloc_spec [OF Suc.prems(1) a]
  show ?case
  proof (cases x)
    case None
    with a Suc.prems spec show ?thesis by (auto split: if_splits)
  next
    case (Some p)
    with spec have f1: "fa_wf f1" "managed_frames f1 = managed_frames f" "p \<in> free_frames f"
      "free_frames f1 = free_frames f - {p}" by simp_all
    have "grow_pages f1 (ps @ [p]) n (Suc k) = (f', ps', r)" using Suc.prems(4) a Some by simp
    moreover have "distinct (ps @ [p])" "set (ps @ [p]) \<inter> free_frames f1 = {}"
      using f1(3,4) Suc.prems(2,3) by auto
    ultimately obtain new where
      new: "ps' = (ps @ [p]) @ new" "distinct ps'" "set new \<subseteq> free_frames f1" "fa_wf f'"
        "managed_frames f' = managed_frames f1" "free_frames f' = free_frames f1 - set new" "length new \<le> n"
        "r = Grown \<longleftrightarrow> length new = n" "r \<noteq> Grown \<longrightarrow> free_frames f' = {}"
        "r = NoMem \<longrightarrow> Suc k = 0 \<and> new = []"
      using Suc.IH [OF f1(1)] by blast
    then show ?thesis using f1 by (intro exI [of _ "p # new"]) auto
  qed
qed auto

lemma grow_pages_enough:
  assumes "fa_wf f" "distinct ps" "set ps \<inter> free_frames f = {}" "grow_pages f ps n k = (f', ps', r)"
    "n \<le> card (free_frames f)"
  shows "r = Grown"
proof (rule ccontr)
  assume r: "r \<noteq> Grown"
  obtain new where new: "ps' = ps @ new" "distinct ps'" "free_frames f' = free_frames f - set new" "length new \<le> n"
    "r = Grown \<longleftrightarrow> length new = n" "r \<noteq> Grown \<longrightarrow> free_frames f' = {}"
    using grow_pages_spec [OF assms(1-4)] by blast
  with r have "free_frames f \<subseteq> set new" "length new < n" by auto
  then have "card (free_frames f) \<le> length new"
    by (meson List.finite_set card_length card_mono le_trans)
  with \<open>length new < n\<close> assms(5) show False by simp
qed

text \<open>The pages a write needs are available.\<close>

definition has_room :: "phys \<Rightarrow> RamFileInner \<Rightarrow> nat \<Rightarrow> nat \<Rightarrow> bool" where
  "has_room w f off n \<longleftrightarrow> off + n < USIZE \<and>
     div_ceil (off + n) PAGE_SIZE - length (pages f) \<le> card (free_frames (alloc w))"

lemma ram_writeat_spec:
  assumes "phys_wf w" "file_wf w f" "has_room w f off (length d)"
  shows "\<exists>w' f' new. ram_writeat w f off d = ((w', f'), Ok (length d)) \<and> phys_wf w' \<and> file_wf w' f' \<and>
    pages f' = pages f @ new \<and> set new \<subseteq> free_frames (alloc w) \<and>
    free_frames (alloc w') = free_frames (alloc w) - set new \<and>
    flen f' = max (flen f) (off + length d) \<and>
    flat (mem w') (pages f') = overwrite (flat (mem w) (pages f')) off d \<and>
    off + length d \<le> length (pages f') * PAGE_SIZE \<and>
    (\<forall>p. p \<notin> set (pages f') \<longrightarrow> mem w' p = mem w p)"
proof -
  let ?n = "div_ceil (off + length d) PAGE_SIZE"
  have u: "uadd off (length d) = off + length d" using assms(3) by (simp add: has_room_def uadd_def)
  have fwf: "distinct (pages f)" "set (pages f) \<inter> free_frames (alloc w) = {}" "flen f \<le> length (pages f) * PAGE_SIZE"
    and pwf: "fa_wf (alloc w)" "\<forall>p. length (mem w p) = PAGE_SIZE"
    using assms(1,2) by (simp_all add: file_wf_def phys_wf_def)
  obtain fa' ps r where g: "grow_pages (alloc w) (pages f) (?n - length (pages f)) 0 = (fa', ps, r)"
    by (metis prod_cases3)
  have r: "r = Grown" using grow_pages_enough [OF pwf(1) fwf(1,2) g] assms(3) by (simp add: has_room_def)
  obtain new where new: "ps = pages f @ new" "distinct ps" "set new \<subseteq> free_frames (alloc w)" "fa_wf fa'"
    "free_frames fa' = free_frames (alloc w) - set new" "length new = ?n - length (pages f)"
    using grow_pages_spec [OF pwf(1) fwf(1,2) g] r by blast
  have "off + length d \<le> ?n * PAGE_SIZE" by (rule div_ceil_bounds) simp
  also have "\<dots> \<le> length ps * PAGE_SIZE" using new(1,6) by (intro mult_le_mono1) simp
  finally have cap: "off + length d \<le> length ps * PAGE_SIZE" .
  have ok: "pages_ok (mem w) ps" using new(2) pwf(2) by (simp add: pages_ok_def)
  obtain m' where m': "write_loop (mem w) ps off d = (m', off + length d)" "pages_ok m' ps"
    "flat m' ps = overwrite (flat (mem w) ps) off d" "\<forall>p. p \<notin> set ps \<longrightarrow> m' p = mem w p"
    using write_loop_flat [OF ok cap] by blast
  let ?w = "w\<lparr>alloc := fa', mem := m'\<rparr>"
  let ?f = "f\<lparr>pages := ps, flen := max (flen f) (off + length d)\<rparr>"
  have sz: "min (length d) (if off < length ps * PAGE_SIZE then length ps * PAGE_SIZE - off else 0) = length d"
  proof (cases "off < length ps * PAGE_SIZE")
    case False
    then have "length d = 0" using cap by linarith
    then show ?thesis by simp
  qed (use cap in simp)
  have "ram_writeat w f off d = ((?w, ?f), Ok (length d))"
    using g r m'(1) by (auto simp: ram_writeat_def u sz Let_def max_def)
  moreover have "length (m' p) = PAGE_SIZE" for p
    using m'(2,4) pwf(2) by (cases "p \<in> set ps") (auto simp: pages_ok_def)
  then have "phys_wf ?w" using new(4) by (simp add: phys_wf_def)
  moreover have "flen f \<le> length ps * PAGE_SIZE"
    using fwf(3) new(1) by (simp add: add_mult_distrib)
  then have "file_wf ?w ?f" using new fwf(2) cap by (auto simp: file_wf_def)
  ultimately show ?thesis
    using new m' cap by (intro exI [of _ ?w] exI [of _ ?f] exI [of _ new]) simp
qed

lemma ram_readat_contents:
  assumes "phys_wf w" "file_wf w f"
  shows "ram_readat w f off n = Ok (take n (drop off (contents w f)))"
proof (cases "off \<ge> flen f")
  case True
  then show ?thesis by (simp add: ram_readat_def contents_def)
next
  case False
  have "read_loop (mem w) (pages f) off (min n (flen f - off)) =
      Ok (take (min n (flen f - off)) (drop off (flat (mem w) (pages f))))"
    using assms False by (intro read_loop_flat) (auto simp: phys_wf_def file_wf_def)
  with False show ?thesis by (simp add: ram_readat_def contents_def drop_take min.commute)
qed

lemma length_contents: "phys_wf w \<Longrightarrow> file_wf w f \<Longrightarrow> length (contents w f) = flen f"
  by (simp add: contents_def length_flat phys_wf_def file_wf_def)

lemma contents_write:
  assumes "phys_wf w" "file_wf w f" "has_room w f off (length d)" "ram_writeat w f off d = ((w', f'), r)"
  shows "r = Ok (length d)" "phys_wf w'" "file_wf w' f'"
    "length (contents w' f') = max (length (contents w f)) (off + length d)"
    "\<And>i. off \<le> i \<Longrightarrow> i < off + length d \<Longrightarrow> contents w' f' ! i = d ! (i - off)"
    "\<And>i. i < length (contents w f) \<Longrightarrow> \<not> (off \<le> i \<and> i < off + length d) \<Longrightarrow> contents w' f' ! i = contents w f ! i"
proof -
  obtain new where n: "r = Ok (length d)" "phys_wf w'" "file_wf w' f'" "pages f' = pages f @ new"
    "flen f' = max (flen f) (off + length d)"
    "flat (mem w') (pages f') = overwrite (flat (mem w) (pages f')) off d"
    "off + length d \<le> length (pages f') * PAGE_SIZE"
    using ram_writeat_spec [OF assms(1-3)] assms(4) by auto
  have len: "length (flat (mem w) (pages f')) = length (pages f') * PAGE_SIZE"
    using assms(1) by (intro length_flat) (simp add: phys_wf_def)
  have cap: "flen f \<le> length (pages f) * PAGE_SIZE" using assms(2) by (simp add: file_wf_def)
  have old: "flat (mem w) (pages f') ! i = flat (mem w) (pages f) ! i" if "i < flen f" for i
    using that cap assms(1) n(4) by (simp add: flat_def nth_append)
      (use length_flat [of "pages f" "mem w"] in \<open>simp add: flat_def phys_wf_def\<close>)
  show "r = Ok (length d)" "phys_wf w'" "file_wf w' f'" by fact+
  show "length (contents w' f') = max (length (contents w f)) (off + length d)"
    using n assms(1,2) by (simp add: length_contents)
  show "contents w' f' ! i = d ! (i - off)" if "off \<le> i" "i < off + length d" for i
    using that n(5-7) len by (simp add: contents_def nth_overwrite)
  show "contents w' f' ! i = contents w f ! i"
    if "i < length (contents w f)" "\<not> (off \<le> i \<and> i < off + length d)" for i
  proof -
    have i: "i < flen f" using that(1) assms(1,2) by (simp add: length_contents)
    then have "i < length (pages f') * PAGE_SIZE" using cap n(4) by (simp add: add_mult_distrib)
    with i that(2) n(5-7) len old [OF i] show ?thesis by (auto simp: contents_def nth_overwrite)
  qed
qed

section \<open>Random access files\<close>

text \<open>
  What a client of a file relies on: reading returns a slice of the contents, and
  a write for which there is room stores the bytes and touches nothing else.
\<close>

locale random_access_file =
  fixes rd :: "'s \<Rightarrow> nat \<Rightarrow> nat \<Rightarrow> 'b list res"
    and wr :: "'s \<Rightarrow> nat \<Rightarrow> 'b list \<Rightarrow> 's \<times> nat res"
    and content :: "'s \<Rightarrow> 'b list"
    and inv :: "'s \<Rightarrow> bool"
    and room :: "'s \<Rightarrow> nat \<Rightarrow> nat \<Rightarrow> bool"
  assumes rd_content: "inv s \<Longrightarrow> rd s off n = Ok (take n (drop off (content s)))"
    and wr_result: "inv s \<Longrightarrow> room s off (length d) \<Longrightarrow> wr s off d = (s', r) \<Longrightarrow> r = Ok (length d) \<and> inv s'"
    and wr_length: "inv s \<Longrightarrow> room s off (length d) \<Longrightarrow> wr s off d = (s', r) \<Longrightarrow>
      length (content s') = max (length (content s)) (off + length d)"
    and wr_inside: "inv s \<Longrightarrow> room s off (length d) \<Longrightarrow> wr s off d = (s', r) \<Longrightarrow>
      off \<le> i \<Longrightarrow> i < off + length d \<Longrightarrow> content s' ! i = d ! (i - off)"
    and wr_outside: "inv s \<Longrightarrow> room s off (length d) \<Longrightarrow> wr s off d = (s', r) \<Longrightarrow>
      i < length (content s) \<Longrightarrow> \<not> (off \<le> i \<and> i < off + length d) \<Longrightarrow> content s' ! i = content s ! i"
begin

lemma read_own_write:
  assumes "inv s" "room s off (length d)" "wr s off d = (s', r)"
  shows "rd s' off (length d) = Ok d"
proof -
  have "inv s'" using wr_result [OF assms] by blast
  moreover have "take (length d) (drop off (content s')) = d"
    using wr_length [OF assms] wr_inside [OF assms] by (intro nth_equalityI) auto
  ultimately show ?thesis by (simp add: rd_content)
qed

lemma read_before_write:
  assumes "inv s" "room s off (length d)" "wr s off d = (s', r)" "at + n \<le> off"
    "off \<le> length (content s)"
  shows "rd s' at n = rd s at n"
proof -
  have "inv s'" using wr_result [OF assms(1-3)] by blast
  moreover have "take n (drop at (content s')) = take n (drop at (content s))"
    using wr_length [OF assms(1-3)] wr_outside [OF assms(1-3)] assms(4,5) by (intro nth_equalityI) auto
  ultimately show ?thesis using assms(1) by (simp add: rd_content)
qed

lemma read_after_write:
  assumes "inv s" "room s off (length d)" "wr s off d = (s', r)" "off + length d \<le> at"
    "off + length d \<le> length (content s)"
  shows "rd s' at n = rd s at n"
proof -
  have "inv s'" using wr_result [OF assms(1-3)] by blast
  moreover have "take n (drop at (content s')) = take n (drop at (content s))"
    using wr_length [OF assms(1-3)] wr_outside [OF assms(1-3)] assms(4,5) by (intro nth_equalityI) auto
  ultimately show ?thesis using assms(1) by (simp add: rd_content)
qed

lemma append_contents:
  assumes "inv s" "room s (length (content s)) (length d)" "wr s (length (content s)) d = (s', r)"
  shows "content s' = content s @ d"
  using wr_length [OF assms] wr_inside [OF assms] wr_outside [OF assms]
  by (intro nth_equalityI) (auto simp: nth_append)

end

definition ram_wf :: "phys \<times> RamFileInner \<Rightarrow> bool" where
  "ram_wf s \<longleftrightarrow> phys_wf (fst s) \<and> file_wf (fst s) (snd s)"

interpretation ramfile: random_access_file
  "\<lambda>(w, f). ram_readat w f" "\<lambda>(w, f). ram_writeat w f" "\<lambda>(w, f). contents w f"
  ram_wf "\<lambda>(w, f). has_room w f"
proof (unfold_locales, goal_cases)
  case (1 s off n)
  then show ?case by (cases s) (simp add: ram_wf_def ram_readat_contents)
next
  case (2 s off d s' r)
  then show ?case
    using contents_write(1-3) [of "fst s" "snd s" off d "fst s'" "snd s'" r] by (simp add: ram_wf_def split_beta)
next
  case (3 s off d s' r)
  then show ?case
    using contents_write(4) [of "fst s" "snd s" off d "fst s'" "snd s'" r] by (simp add: ram_wf_def split_beta)
next
  case (4 s off d s' r i)
  then show ?case
    using contents_write(5) [of "fst s" "snd s" off d "fst s'" "snd s'" r i] by (simp add: ram_wf_def split_beta)
next
  case (5 s off d s' r i)
  then show ?case
    using contents_write(6) [of "fst s" "snd s" off d "fst s'" "snd s'" r i] by (simp add: ram_wf_def split_beta)
qed

lemma contents_cong:
  "flen f = flen g \<Longrightarrow> pages f = pages g \<Longrightarrow> \<forall>p \<in> set (pages g). mem w' p = mem w p \<Longrightarrow>
   contents w' f = contents w g"
  by (simp add: contents_def flat_def cong: map_cong)

text \<open>C9: A write to a ramfs file for which the frame allocator has the missing
  pages returns the full length; reading the same range gives back exactly the
  bytes written, the rest of the file keeps its bytes, its length becomes the larger
  of the old length and the end of the write, and every other file that shares no
  page with it keeps its contents and still shares no page with it.\<close>

theorem ramfs_write_then_read:
  assumes "phys_wf w" "file_wf w f" "has_room w f off (length d)"
    and "file_wf w g" "set (pages f) \<inter> set (pages g) = {}"
    and "ram_writeat w f off d = ((w', f'), r)"
  shows "r = Ok (length d) \<and> ram_readat w' f' off (length d) = Ok d \<and>
    flen f' = max (flen f) (off + length d) \<and>
    (\<forall>i < flen f. \<not> (off \<le> i \<and> i < off + length d) \<longrightarrow> contents w' f' ! i = contents w f ! i) \<and>
    phys_wf w' \<and> file_wf w' f' \<and>
    file_wf w' g \<and> contents w' g = contents w g \<and> set (pages f') \<inter> set (pages g) = {}"
proof -
  obtain new where n: "pages f' = pages f @ new" "set new \<subseteq> free_frames (alloc w)"
    "free_frames (alloc w') = free_frames (alloc w) - set new"
    "\<forall>p. p \<notin> set (pages f') \<longrightarrow> mem w' p = mem w p" "flen f' = max (flen f) (off + length d)"
    using ram_writeat_spec [OF assms(1-3)] assms(6) by auto
  have g: "set (pages g) \<inter> free_frames (alloc w) = {}" using assms(4) by (simp add: file_wf_def)
  with n assms(5) have disj: "set (pages f') \<inter> set (pages g) = {}" by auto
  then have "contents w' g = contents w g" using n(4) by (intro contents_cong) auto
  moreover have "file_wf w' g" using assms(4) n(3) by (auto simp: file_wf_def)
  moreover have "ram_readat w' f' off (length d) = Ok d"
    using ramfile.read_own_write [of "(w, f)" off d "(w', f')" r] assms by (simp add: ram_wf_def)
  ultimately show ?thesis
    using contents_write [OF assms(1-3,6)] n(5) disj assms(1,2) by (simp add: length_contents)
qed


definition two_files :: phys where
  "two_files = \<lparr>alloc = [\<lparr>bits = [3], paddr = 0x1000, paddr_end = 0x41000\<rparr>], mem = \<lambda>_. zero_page\<rparr>"

definition file_a :: RamFileInner where
  "file_a = \<lparr>file_name = ''a'', flen = 4096, pages = [0x1000], times = []\<rparr>"

definition file_b :: RamFileInner where
  "file_b = \<lparr>file_name = ''b'', flen = 10, pages = [0x2000], times = []\<rparr>"

lemma two_files_wf:
  "phys_wf two_files" "file_wf two_files file_a" "file_wf two_files file_b"
  "set (pages file_a) \<inter> set (pages file_b) = {}" "has_room two_files file_a 4095 2"
proof -
  let ?m = "\<lparr>bits = [3], paddr = 0x1000, paddr_end = 0x41000\<rparr>"
  show wf: "phys_wf two_files"
    by (simp add: phys_wf_def two_files_def zero_page_def frame_wf_eval)
  have b: "bit (3::u64) 0" "bit (3::u64) (Suc 0)" "\<not> bit (3::u64) 2" 
    by (simp_all add: bit_numeral_rec)
  have used: "used (bits ?m) 0" "used (bits ?m) 1" "\<not> used (bits ?m) 2"
    using b by (simp_all add: used_def)
  have "x \<noteq> 0x1000 \<and> x \<noteq> 0x2000" if x: "x \<in> free_frames (alloc two_files)" for x
  proof -
    obtain i where i: "x = 0x1000 + i * 0x1000" "\<not> used (bits ?m) i"
      using x by (auto simp: free_frames_def two_files_def free_pages_def page_addr_def PAGE_SIZE_def)
    then have "i \<noteq> 0" "i \<noteq> 1" using used by metis+
    with i(1) show ?thesis by simp
  qed
  then show "file_wf two_files file_a" "file_wf two_files file_b"
    by (auto simp: file_wf_def file_a_def file_b_def PAGE_SIZE_def)
  show "set (pages file_a) \<inter> set (pages file_b) = {}" by (simp add: file_a_def file_b_def)
  have "0x3000 \<in> free_frames (alloc two_files)"
    using used(3) by (auto simp: free_frames_def two_files_def free_pages_def page_addr_def region_pages_def PAGE_SIZE_def intro!: image_eqI [of _ _ 2])
  moreover have "finite (free_frames (alloc two_files))"
    by (meson finite_managed_frames finite_subset free_frames_managed)
  ultimately have "0 < card (free_frames (alloc two_files))" by (auto simp: card_gt_0_iff)
  then show "has_room two_files file_a 4095 2"
    by (simp add: has_room_def div_ceil_def USIZE_def PAGE_SIZE_def file_a_def)
qed

theorem ramfs_write_then_read_witness:
  "case ram_writeat two_files file_a 4095 [7, 8] of ((w', f'), r) \<Rightarrow>
     r = Ok 2 \<and> ram_readat w' f' 4095 2 = Ok [7, 8] \<and> flen f' = 4097 \<and>
     contents w' file_b = contents two_files file_b"
proof -
  obtain w' f' r where e: "ram_writeat two_files file_a 4095 [7, 8] = ((w', f'), r)" by (metis prod.collapse)
  have "has_room two_files file_a 4095 (length [7::u8, 8])" using two_files_wf(5) by (simp add: numeral_2_eq_2)
  from ramfs_write_then_read [OF two_files_wf(1,2) this two_files_wf(3,4) e] show ?thesis
    unfolding e by (simp add: file_a_def numeral_2_eq_2)
qed

section \<open>Truncation\<close>

lemma flat_truncate:
  assumes "phys_wf w" "distinct ps" "s \<le> length ps * PAGE_SIZE"
  defines "m1 \<equiv> (\<lambda>p. if p \<in> set (drop (div_ceil s PAGE_SIZE) ps) then zero_page else mem w p)"
  defines "m2 \<equiv> (if s mod PAGE_SIZE \<noteq> 0 \<and> s div PAGE_SIZE < length ps
                then m1(ps ! (s div PAGE_SIZE) := overwrite (m1 (ps ! (s div PAGE_SIZE))) (s mod PAGE_SIZE) (replicate (PAGE_SIZE - s mod PAGE_SIZE) 0))
                else m1)"
  shows "flat m2 ps = take s (flat (mem w) ps) @ replicate (length ps * PAGE_SIZE - s) 0"
proof -
  have len: "\<forall>p \<in> set ps. length (mem w p) = PAGE_SIZE" using assms(1) by (simp add: phys_wf_def)
  have len1: "length (m1 p) = PAGE_SIZE" for p using assms(1) by (simp add: m1_def phys_wf_def zero_page_def)
  have len2: "\<forall>p \<in> set ps. length (m2 p) = PAGE_SIZE" using len1 by (simp add: m2_def)
  show ?thesis
  proof (rule nth_equalityI)
    show "length (flat m2 ps) = length (take s (flat (mem w) ps) @ replicate (length ps * PAGE_SIZE - s) 0)"
      using assms(3) by (simp add: length_flat len len2)
    fix j assume "j < length (flat m2 ps)"
    then have j: "j < length ps * PAGE_SIZE" by (simp add: length_flat len2)
    let ?q = "j div PAGE_SIZE" and ?r = "j mod PAGE_SIZE" and ?P = PAGE_SIZE
    let ?a = "s div PAGE_SIZE" and ?b = "s mod PAGE_SIZE"
    have q: "?q < length ps" by (rule div_less_cap [OF j])
    have same: "ps ! ?q = ps ! ?a \<longleftrightarrow> ?q = ?a" if "?a < length ps"
      using q that assms(2) by (simp add: nth_eq_iff_index_eq)
    have cleared: "ps ! ?q \<in> set (drop t ps) \<longleftrightarrow> t \<le> ?q" for t
    proof
      assume "ps ! ?q \<in> set (drop t ps)"
      then obtain i where "i < length ps - t" "ps ! ?q = ps ! (t + i)" by (auto simp: in_set_conv_nth)
      then show "t \<le> ?q" using q assms(2) by (simp add: nth_eq_iff_index_eq)
    qed (use q in \<open>auto simp: in_set_conv_nth intro!: exI [of _ "?q - t"]\<close>)
    have less: "j < s \<longleftrightarrow> ?q < ?a \<or> (?q = ?a \<and> ?r < ?b)"
      by (metis (no_types, lifting) PAGE_SIZE_pos div_le_mono div_mult_mod_eq le_neq_implies_less less_imp_le linorder_not_less nat_add_left_cancel_less)
    have r: "?r < ?P" by simp
    have dc: "div_ceil s ?P = (if ?b = 0 then ?a else Suc ?a)" by (simp add: div_ceil_def)
    have "m2 (ps ! ?q) ! ?r = (if j < s then mem w (ps ! ?q) ! ?r else 0)"
    proof (cases "?q = ?a \<and> ?b \<noteq> 0")
      case True
      then have "m2 (ps ! ?q) ! ?r = overwrite (m1 (ps ! ?q)) ?b (replicate (?P - ?b) 0) ! ?r"
        using q by (simp add: m2_def)
      also have "\<dots> = (if ?r < ?b then m1 (ps ! ?q) ! ?r else 0)"
        using r by (simp add: nth_overwrite len1 diff_less_mono)
      also have "m1 (ps ! ?q) = mem w (ps ! ?q)" using True cleared [of "Suc ?a"] by (simp add: m1_def dc)
      finally show ?thesis using less True by auto
    next
      case False
      then have "m2 (ps ! ?q) = m1 (ps ! ?q)" using same by (auto simp: m2_def)
      moreover have "div_ceil s ?P \<le> ?q \<longleftrightarrow> \<not> j < s" using False less by (auto simp: dc)
      ultimately show ?thesis using r by (simp add: m1_def cleared zero_page_def)
    qed
    then show "flat m2 ps ! j = (take s (flat (mem w) ps) @ replicate (length ps * PAGE_SIZE - s) 0) ! j"
      using assms(3) j by (auto simp: nth_append length_flat len nth_flat [OF len2 j] nth_flat [OF len j])
  qed
qed


lemma truncate_grow_spec:
  assumes "fa_wf f" "distinct ps" "set ps \<inter> free_frames f = {}" "truncate_grow f ps n = (f', ps', ok)"
  shows "\<exists>new. ps' = ps @ new \<and> distinct ps' \<and> set new \<subseteq> free_frames f \<and> fa_wf f' \<and>
    free_frames f' = free_frames f - set new \<and> length new \<le> n \<and> (ok \<longleftrightarrow> length new = n)"
  using assms
proof (induction n arbitrary: f ps)
  case (Suc n)
  obtain f1 x where a: "frame_alloc f = (f1, x)" by fastforce
  note spec = frame_alloc_spec [OF Suc.prems(1) a]
  show ?case
  proof (cases x)
    case None
    with a Suc.prems spec show ?thesis by auto
  next
    case (Some p)
    with spec have f1: "fa_wf f1" "p \<in> free_frames f" "free_frames f1 = free_frames f - {p}" by simp_all
    have "truncate_grow f1 (ps @ [p]) n = (f', ps', ok)" using Suc.prems(4) a Some by simp
    moreover have "distinct (ps @ [p])" "set (ps @ [p]) \<inter> free_frames f1 = {}"
      using f1(2,3) Suc.prems(2,3) by auto
    ultimately obtain new where
      new: "ps' = (ps @ [p]) @ new" "distinct ps'" "set new \<subseteq> free_frames f1" "fa_wf f'"
        "free_frames f' = free_frames f1 - set new" "length new \<le> n" "ok \<longleftrightarrow> length new = n"
      using Suc.IH [OF f1(1)] by blast
    then show ?thesis using f1 by (intro exI [of _ "p # new"]) auto
  qed
qed auto

lemma ram_truncate_within:
  assumes "phys_wf w" "file_wf w f" "s \<le> length (pages f) * PAGE_SIZE"
  shows "\<exists>m. ram_truncate w f s = ((w\<lparr>mem := m\<rparr>, f\<lparr>flen := s\<rparr>), Ok ()) \<and>
    phys_wf (w\<lparr>mem := m\<rparr>) \<and> file_wf (w\<lparr>mem := m\<rparr>) (f\<lparr>flen := s\<rparr>) \<and>
    flat m (pages f) = take s (flat (mem w) (pages f)) @ replicate (length (pages f) * PAGE_SIZE - s) 0 \<and>
    (\<forall>p. p \<notin> set (pages f) \<longrightarrow> m p = mem w p)"
proof -
  let ?P = PAGE_SIZE
  let ?m1 = "\<lambda>p. if p \<in> set (drop (div_ceil s ?P) (pages f)) then zero_page else mem w p"
  let ?q = "pages f ! (s div ?P)"
  let ?m2 = "if s mod ?P \<noteq> 0 \<and> s div ?P < length (pages f)
    then ?m1(?q := overwrite (?m1 ?q) (s mod ?P) (replicate (?P - s mod ?P) 0)) else ?m1"
  have d: "distinct (pages f)" using assms(2) by (simp add: file_wf_def)
  have "div_ceil s ?P * ?P < s + ?P" by (rule div_ceil_bounds) simp
  then have "div_ceil s ?P * ?P < Suc (length (pages f)) * ?P" using assms(3) by simp
  then have dc: "div_ceil s ?P - length (pages f) = 0" by (simp only: mult_less_cancel2) simp
  have e: "ram_truncate w f s = ((w\<lparr>mem := ?m2\<rparr>, f\<lparr>flen := s\<rparr>), Ok ())"
    unfolding ram_truncate_def Let_def dc truncate_grow.simps prod.case bool.case by simp
  have len: "length (?m1 p) = ?P" for p using assms(1) by (simp add: phys_wf_def zero_page_def)
  have "length (?m2 p) = ?P" for p
    using len [of p] by (auto simp: less_imp_le)
  then have "phys_wf (w\<lparr>mem := ?m2\<rparr>)" using assms(1) unfolding phys_wf_def by simp
  moreover have "file_wf (w\<lparr>mem := ?m2\<rparr>) (f\<lparr>flen := s\<rparr>)" using assms(2,3) by (simp add: file_wf_def)
  moreover have "\<forall>p. p \<notin> set (pages f) \<longrightarrow> ?m2 p = mem w p"
    by (auto dest: in_set_dropD)
  ultimately show ?thesis
    using e flat_truncate [OF assms(1) d assms(3)] by (intro exI [of _ ?m2] conjI) 
qed

text \<open>Truncating a ramfs file to a size its pages already hold keeps the bytes
  below that size and reads zeros above it: a file cut to \<open>a\<close> bytes and extended
  again to \<open>b\<close> bytes (within its pages) contains the first \<open>a\<close> bytes of the old
  contents followed by zeros, and no operation fails.\<close>

theorem ramfs_truncate_cut_and_extend:
  assumes "phys_wf w" "file_wf w f" "a \<le> flen f" "a \<le> b" "b \<le> length (pages f) * PAGE_SIZE"
    and "ram_truncate w f a = ((w1, f1), r1)" "ram_truncate w1 f1 b = ((w2, f2), r2)"
  shows "r1 = Ok () \<and> r2 = Ok () \<and> contents w1 f1 = take a (contents w f) \<and>
    contents w2 f2 = take a (contents w f) @ replicate (b - a) 0 \<and> phys_wf w2 \<and> file_wf w2 f2"
proof -
  let ?cap = "length (pages f) * PAGE_SIZE"
  have a: "a \<le> ?cap" using assms(4,5) by simp
  obtain m where m: "w1 = w\<lparr>mem := m\<rparr>" "f1 = f\<lparr>flen := a\<rparr>" "r1 = Ok ()" "phys_wf w1" "file_wf w1 f1"
    "flat m (pages f) = take a (flat (mem w) (pages f)) @ replicate (?cap - a) 0"
    using ram_truncate_within [OF assms(1,2) a] assms(6) by auto
  have b: "b \<le> length (pages f1) * PAGE_SIZE" using assms(5) m(2) by simp
  obtain m' where m': "w2 = w1\<lparr>mem := m'\<rparr>" "f2 = f1\<lparr>flen := b\<rparr>" "r2 = Ok ()" "phys_wf w2" "file_wf w2 f2"
    "flat m' (pages f1) = take b (flat (mem w1) (pages f1)) @ replicate (length (pages f1) * PAGE_SIZE - b) 0"
    using ram_truncate_within [OF m(4,5) b] assms(7) by auto
  have len: "length (flat (mem w) (pages f)) = ?cap" using assms(1) by (simp add: length_flat phys_wf_def)
  have "contents w1 f1 = take a (contents w f)"
    using m(1,2,6) assms(3) len a by (simp add: contents_def)
  moreover have "contents w2 f2 = take a (contents w f) @ replicate (b - a) 0"
    using m' m(1,2,6) assms(3,4) len a b by (simp add: contents_def min_absorb1 min_absorb2)
  ultimately show ?thesis using m(3) m'(3-5) by simp
qed

theorem ramfs_truncate_cut_and_extend_witness:
  "\<exists>w1 f1 w2 f2. ram_truncate two_files file_a 1 = ((w1, f1), Ok ()) \<and> ram_truncate w1 f1 3 = ((w2, f2), Ok ()) \<and>
     length (contents w2 f2) = 3"
proof -
  obtain w1 f1 r1 where e1: "ram_truncate two_files file_a 1 = ((w1, f1), r1)" by (metis prod.collapse)
  obtain w2 f2 r2 where e2: "ram_truncate w1 f1 3 = ((w2, f2), r2)" by (metis prod.collapse)
  have "(1::nat) \<le> flen file_a" "(1::nat) \<le> 3" "3 \<le> length (pages file_a) * PAGE_SIZE" "flen file_a = 4096"
    by (simp_all add: file_a_def PAGE_SIZE_def)
  with ramfs_truncate_cut_and_extend [OF two_files_wf(1,2) this(1-3) e1 e2] e1 e2
  show ?thesis using length_contents [OF two_files_wf(1,2)] by auto
qed

text \<open>A truncation that runs out of frames has already set the new length: it
  returns \<^verbatim>\<open>ENOMEM\<close>, the file is longer than its pages, and reading it past the
  last page panics (the index into the page vector is out of range).\<close>

theorem ramfs_truncate_enomem_read_panics:
  assumes "phys_wf w" "file_wf w f" "ram_truncate w f s = ((w', f'), Err e)" "0 < n"
  shows "e = ENOMEM \<and> flen f' = s \<and> length (pages f') * PAGE_SIZE < s \<and>
    ram_readat w' f' (length (pages f') * PAGE_SIZE) n = Panic"
proof -
  let ?P = PAGE_SIZE
  obtain fa' ps ok where g: "truncate_grow (alloc w) (pages f) (div_ceil s ?P - length (pages f)) = (fa', ps, ok)"
    by (metis prod_cases3)
  have ok: "\<not> ok" "pages f' = ps" "flen f' = s" "e = ENOMEM"
    using assms(3) g by (auto simp: ram_truncate_def Let_def split: bool.splits)
  obtain new where new: "ps = pages f @ new" "length new \<le> div_ceil s ?P - length (pages f)"
    "length new \<noteq> div_ceil s ?P - length (pages f)"
    using truncate_grow_spec [OF _ _ _ g] assms(1,2) ok(1) by (auto simp: phys_wf_def file_wf_def)
  have "Suc (length ps) \<le> div_ceil s ?P" using new by simp
  then have "Suc (length ps) * ?P \<le> div_ceil s ?P * ?P" by (rule mult_le_mono1)
  moreover have "div_ceil s ?P * ?P < s + ?P" by (rule div_ceil_bounds) simp
  ultimately have less: "length ps * ?P < s" by simp
  have "read_loop (mem w') ps (length ps * ?P) (min n (s - length ps * ?P)) = Panic"
    using less assms(4) by (subst read_loop.simps) (simp add: Let_def)
  with less ok show ?thesis by (simp add: ram_readat_def)
qed

theorem ramfs_truncate_enomem_read_panics_witness:
  "\<exists>w' f'. ram_truncate \<lparr>alloc = [], mem = \<lambda>_. zero_page\<rparr> (ramfile_new ''a'') 1 = ((w', f'), Err ENOMEM) \<and>
     ram_readat w' f' 0 1 = Panic"
proof -
  let ?w = "\<lparr>alloc = [], mem = \<lambda>_. zero_page\<rparr>"
  let ?f = "ramfile_new ''a''"
  have e: "ram_truncate ?w ?f 1 = ((?w, ?f\<lparr>flen := 1\<rparr>), Err ENOMEM)"
    by (simp add: ram_truncate_def ramfile_new_def div_ceil_def PAGE_SIZE_def)
  have "phys_wf ?w" "file_wf ?w ?f"
    by (simp_all add: phys_wf_def zero_page_def file_wf_def ramfile_new_def fa_wf_def)
  from ramfs_truncate_enomem_read_panics [OF this e, of 1] e show ?thesis by (auto simp: ramfile_new_def)
qed


section \<open>Directories as name maps\<close>

text \<open>
  The specification of a directory is a finite map from names to entries.  An
  entry list with distinct names represents its \<^term>\<open>map_of\<close>.
\<close>

definition dir_map :: "FileContainer list \<Rightarrow> string \<rightharpoonup> FileContainer" where
  "dir_map ch = map_of (map (\<lambda>x. (entry_name x, x)) ch)"

definition names_distinct :: "FileContainer list \<Rightarrow> bool" where
  "names_distinct ch \<longleftrightarrow> distinct (map entry_name ch)"

lemma find_dir_map: "List.find (\<lambda>x. entry_name x = n) ch = dir_map ch n"
  by (induction ch) (auto simp: dir_map_def)

lemma dir_map_None: "dir_map ch n = None \<longleftrightarrow> n \<notin> entry_name ` set ch"
  by (force simp: dir_map_def map_of_eq_None_iff image_image)

lemma dir_map_snoc: "dir_map (ch @ [x]) = [entry_name x \<mapsto> x] ++ dir_map ch"
  by (simp add: dir_map_def map_add_def)

lemma dir_map_filter:
  "names_distinct ch \<Longrightarrow>
   dir_map (filter p ch) n = (case dir_map ch n of None \<Rightarrow> None | Some x \<Rightarrow> if p x then Some x else None)"
proof (induction ch)
  case (Cons x ch)
  then have d: "names_distinct ch" "entry_name x \<notin> entry_name ` set ch" by (simp_all add: names_distinct_def)
  then have "dir_map (filter p ch) (entry_name x) = None" by (auto simp: dir_map_None)
  with Cons.IH [OF d(1)] show ?case
    by (cases "entry_name x = n") (auto simp: dir_map_def)
qed (simp add: dir_map_def)

lemma names_distinct_filter: "names_distinct ch \<Longrightarrow> names_distinct (filter p ch)"
  by (simp add: names_distinct_def distinct_map_filter)

lemma names_distinct_snoc: "names_distinct ch \<Longrightarrow> dir_map ch (entry_name x) = None \<Longrightarrow> names_distinct (ch @ [x])"
  by (auto simp: names_distinct_def dir_map_None)

lemma dir_map_name: "dir_map ch n = Some x \<Longrightarrow> entry_name x = n"
  by (auto simp: dir_map_def dest!: map_of_SomeD)

fun is_dir :: "FileContainer \<Rightarrow> bool" where
  "is_dir (CDir _ _) = True"
| "is_dir _ = False"

lemma is_named: "is_dir_named n x \<longleftrightarrow> is_dir x \<and> entry_name x = n"
  "is_file_named n x \<longleftrightarrow> \<not> is_dir x \<and> entry_name x = n"
  by (cases x; simp)+

lemma removed_nonempty:
  "length (filter (\<lambda>x. q x \<and> entry_name x = n) ch) > 0 \<longleftrightarrow> (\<exists>x \<in> set ch. q x \<and> entry_name x = n)"
  by (auto simp: filter_empty_conv)

lemma dir_map_Some: "names_distinct ch \<Longrightarrow> x \<in> set ch \<Longrightarrow> dir_map ch (entry_name x) = Some x"
  by (force simp: dir_map_def names_distinct_def comp_def intro!: map_of_is_SomeI)

lemma dir_map_in: "dir_map ch n = Some x \<Longrightarrow> x \<in> set ch"
  by (auto simp: dir_map_def dest!: map_of_SomeD)

text \<open>Removal of the entries of one name and kind, the common core of
  \<^verbatim>\<open>remove\<close> and \<^verbatim>\<open>rmdir\<close>.\<close>

lemma dir_map_removed:
  assumes "names_distinct ch"
  shows "dir_map (filter (\<lambda>x. \<not> (q x \<and> entry_name x = n)) ch) =
    (case dir_map ch n of Some x \<Rightarrow> if q x then (dir_map ch)(n := None) else dir_map ch | None \<Rightarrow> dir_map ch)"
  using dir_map_name [of ch]
  by (intro ext) (auto simp: dir_map_filter [OF assms] split: option.splits)

lemma removed_iff:
  assumes "names_distinct ch"
  shows "(\<exists>x \<in> set ch. q x \<and> entry_name x = n) \<longleftrightarrow> (\<exists>x. dir_map ch n = Some x \<and> q x)"
  using dir_map_Some [OF assms] dir_map_in dir_map_name by metis

text \<open>C25: On a directory whose names are distinct the directory operations
  implement a map from names to entries: \<^verbatim>\<open>lookup\<close> is application; \<^verbatim>\<open>mkdir\<close> and
  \<^verbatim>\<open>link\<close> fail with \<^verbatim>\<open>EEXIST\<close> on a bound name and otherwise bind it; \<^verbatim>\<open>remove\<close>
  unbinds a file or link and \<^verbatim>\<open>rmdir\<close> a directory, each failing with \<^verbatim>\<open>ENOENT\<close>
  and changing nothing when the name is unbound or of the other kind; and all of
  them keep the names distinct.\<close>

theorem ramfs_directory_is_a_map:
  assumes "names_distinct ch"
  shows "ram_lookup ch n = (case dir_map ch n of Some x \<Rightarrow> Ok (to_inode x) | None \<Rightarrow> Err ENOENT) \<and>
    (case ram_mkdir ch n i of
       Ok ch' \<Rightarrow> dir_map ch n = None \<and> dir_map ch' = (dir_map ch)(n \<mapsto> CDir n i) \<and> names_distinct ch'
     | Err e \<Rightarrow> e = EEXIST \<and> dir_map ch n \<noteq> None
     | Panic \<Rightarrow> False) \<and>
    (case ram_link ch n h of
       Ok ch' \<Rightarrow> dir_map ch n = None \<and> dir_map ch' = (dir_map ch)(n \<mapsto> CLink n h) \<and> names_distinct ch'
     | Err e \<Rightarrow> e = EEXIST \<and> dir_map ch n \<noteq> None
     | Panic \<Rightarrow> False) \<and>
    (case ram_unlink ch n of (ch', r) \<Rightarrow> names_distinct ch' \<and>
       (if \<exists>x. dir_map ch n = Some x \<and> \<not> is_dir x
        then r = Ok () \<and> dir_map ch' = (dir_map ch)(n := None)
        else r = Err ENOENT \<and> dir_map ch' = dir_map ch)) \<and>
    (case ram_rmdir ch n of (ch', r) \<Rightarrow> names_distinct ch' \<and>
       (if \<exists>x. dir_map ch n = Some x \<and> is_dir x
        then r = Ok () \<and> dir_map ch' = (dir_map ch)(n := None)
        else r = Err ENOENT \<and> dir_map ch' = dir_map ch))"
proof (intro conjI)
  show "ram_lookup ch n = (case dir_map ch n of Some x \<Rightarrow> Ok (to_inode x) | None \<Rightarrow> Err ENOENT)"
    by (simp add: ram_lookup_def find_dir_map)
  have fresh: "dir_map (ch @ [x]) = (dir_map ch)(n \<mapsto> x)" "names_distinct (ch @ [x])"
    if "dir_map ch n = None" "entry_name x = n" for x
    using that names_distinct_snoc [OF assms, of x]
    by (auto simp: dir_map_snoc map_add_def fun_eq_iff split: option.splits)
  show "case ram_mkdir ch n i of
       Ok ch' \<Rightarrow> dir_map ch n = None \<and> dir_map ch' = (dir_map ch)(n \<mapsto> CDir n i) \<and> names_distinct ch'
     | Err e \<Rightarrow> e = EEXIST \<and> dir_map ch n \<noteq> None | Panic \<Rightarrow> False"
    using fresh [of "CDir n i"] by (cases "dir_map ch n") (simp_all add: ram_mkdir_def find_dir_map)
  show "case ram_link ch n h of
       Ok ch' \<Rightarrow> dir_map ch n = None \<and> dir_map ch' = (dir_map ch)(n \<mapsto> CLink n h) \<and> names_distinct ch'
     | Err e \<Rightarrow> e = EEXIST \<and> dir_map ch n \<noteq> None | Panic \<Rightarrow> False"
    using fresh [of "CLink n h"] by (cases "dir_map ch n") (simp_all add: ram_link_def find_dir_map)
  note rem = dir_map_removed [OF assms] removed_nonempty removed_iff [OF assms]
  show "case ram_unlink ch n of (ch', r) \<Rightarrow> names_distinct ch' \<and>
       (if \<exists>x. dir_map ch n = Some x \<and> \<not> is_dir x
        then r = Ok () \<and> dir_map ch' = (dir_map ch)(n := None)
        else r = Err ENOENT \<and> dir_map ch' = dir_map ch)"
    unfolding ram_unlink_def ram_remove_def is_named prod.case rem
    using names_distinct_filter [OF assms] by (simp split: option.splits)
  show "case ram_rmdir ch n of (ch', r) \<Rightarrow> names_distinct ch' \<and>
       (if \<exists>x. dir_map ch n = Some x \<and> is_dir x
        then r = Ok () \<and> dir_map ch' = (dir_map ch)(n := None)
        else r = Err ENOENT \<and> dir_map ch' = dir_map ch)"
    unfolding ram_rmdir_def is_named prod.case rem
    using names_distinct_filter [OF assms] by (simp split: option.splits)
qed

theorem ramfs_directory_is_a_map_witness:
  "ram_lookup [CFile ''a'' 1, CDir ''d'' 2] ''d'' = Ok (HDir 2) \<and>
   (case ram_unlink [CFile ''a'' 1, CDir ''d'' 2] ''d'' of (ch', r) \<Rightarrow> r = Err ENOENT)"
proof -
  have "names_distinct [CFile ''a'' 1, CDir ''d'' 2]" by (simp add: names_distinct_def)
  from ramfs_directory_is_a_map [OF this, of "''d''" 0 "HDir 2"] show ?thesis
    by (simp add: dir_map_def split: prod.splits)
qed

text \<open>\<^verbatim>\<open>create\<close> does not look for an existing entry: creating a name that is
  already bound succeeds, appends a second entry of that name, lookups keep finding
  the old one, and removing the name afterwards removes both files at once.\<close>

theorem ramfs_create_duplicates:
  assumes "names_distinct ch" "dir_map ch n = Some x" "\<not> is_dir x"
  shows "\<exists>ch'. ram_create ch n File i = Ok ch' \<and> \<not> names_distinct ch' \<and> length ch' = Suc (length ch) \<and>
    ram_lookup ch' n = ram_lookup ch n \<and>
    (case ram_unlink ch' n of (ch'', r) \<Rightarrow> r = Ok () \<and> length ch'' + 2 = length ch' \<and> ram_lookup ch'' n = Err ENOENT)"
proof -
  let ?ch = "ch @ [CFile n i]"
  let ?q = "\<lambda>x. \<not> is_dir x \<and> entry_name x = n"
  have x: "x \<in> set ch" "entry_name x = n" using dir_map_in [OF assms(2)] dir_map_name [OF assms(2)] by simp_all
  have "length (filter ?q ch) = card {y \<in> set ch. ?q y}"
    using assms(1) distinct_card [of "filter ?q ch"] by (simp add: names_distinct_def distinct_map)
  moreover have "y = x" if "y \<in> set ch" "entry_name y = n" for y
    using dir_map_Some [OF assms(1) that(1)] that(2) assms(2) by simp
  then have "{y \<in> set ch. ?q y} = {x}" using x assms(3) by blast
  ultimately have one: "length (filter ?q ch) = 1" by simp
  have rest: "length (filter (\<lambda>x. \<not> ?q x) ch) + 1 = length ch"
    using sum_length_filter_compl [of ?q ch] one by simp
  have gone: "dir_map (filter (\<lambda>x. \<not> ?q x) ch) n = None"
    using dir_map_removed [OF assms(1), of "\<lambda>x. \<not> is_dir x" n] assms(2,3) by simp
  have "ram_create ch n File i = Ok ?ch" by (simp add: ram_create_def)
  moreover have "\<not> names_distinct ?ch" using x by (auto simp: names_distinct_def)
  moreover have "ram_lookup ?ch n = ram_lookup ch n"
    using assms(2) by (simp add: ram_lookup_def find_dir_map dir_map_snoc map_add_def)
  moreover have "ram_unlink ?ch n = (filter (\<lambda>x. \<not> ?q x) ch, Ok ())"
    by (simp add: ram_unlink_def ram_remove_def is_named)
  moreover have "ram_lookup (filter (\<lambda>x. \<not> ?q x) ch) n = Err ENOENT"
    using gone by (simp only: ram_lookup_def find_dir_map option.case)
  moreover have "length (filter (\<lambda>x. \<not> ?q x) ch) + 2 = length ?ch" using rest by simp
  ultimately show ?thesis
    by (intro exI [of _ ?ch]) auto
qed

theorem ramfs_create_duplicates_witness:
  "\<exists>ch'. ram_create [CFile ''a'' 1] ''a'' File 2 = Ok ch' \<and> length ch' = 2 \<and> ram_lookup ch' ''a'' = Ok (HFile 1)"
  using ramfs_create_duplicates [of "[CFile ''a'' 1]" "''a''" "CFile ''a'' 1" 2]
  by (simp add: names_distinct_def dir_map_def ram_create_def ram_lookup_def)


end
