(* ===== verification/Channels.thy ===== *)
theory Channels
  imports Vfs
begin

text \<open>
  Byte channels between processes: the pipe of \<^verbatim>\<open>filesystem/fs/src/pipe.rs\<close>, the
  socket pair of \<^verbatim>\<open>kernel/src/user/socket_pair.rs\<close> and the futures of
  \<^verbatim>\<open>filesystem/fs/src/lib.rs\<close> that block on them.  Both channels satisfy one
  interface, under which every interleaving of reads and writes delivers the bytes
  in the order they were accepted, none lost and none twice.
\<close>

section \<open>Pipes\<close>

definition PIPE_BUFFER_SIZE :: nat where
  "PIPE_BUFFER_SIZE = 0x10000"

text \<open>The queue both ends share and the number of live references to the sender.\<close>

record Pipe =
  queue :: "u8 list"
  senders :: nat

definition create_pipe :: Pipe where
  "create_pipe = \<lparr>queue = [], senders = 1\<rparr>"

definition pipe_writeat :: "Pipe \<Rightarrow> u8 list \<Rightarrow> Pipe \<times> nat res" where
  "pipe_writeat p buffer =
     (if buffer = [] then (p, Ok 0)
      else if length buffer \<le> 16 then (p\<lparr>queue := queue p @ buffer\<rparr>, Ok (length buffer))
      else if length (queue p) + length buffer \<le> PIPE_BUFFER_SIZE
      then (p\<lparr>queue := queue p @ buffer\<rparr>, Ok (length buffer))
      else (p, Err EWOULDBLOCK))"

definition pipe_sender_poll :: "Pipe \<Rightarrow> PollEvent \<Rightarrow> PollEvent" where
  "pipe_sender_poll p events =
     (if contains events POLLOUT \<and> length (queue p) \<le> PIPE_BUFFER_SIZE then POLLNONE OR POLLOUT else POLLNONE)"

definition pipe_stat :: "Stat \<Rightarrow> Stat" where
  "pipe_stat st = st\<lparr>st_mode := S_FIFO\<rparr>"

definition pipe_readat :: "Pipe \<Rightarrow> nat \<Rightarrow> Pipe \<times> u8 list res" where
  "pipe_readat p requested =
     (if requested = 0 then (p, Ok [])
      else let available = length (queue p) in
        if available > 0 then
          (let rlen = min available requested
           in (p\<lparr>queue := drop rlen (queue p)\<rparr>, Ok (take rlen (queue p))))
        else if senders p > 0 then (p, Err EWOULDBLOCK)
        else (p, Ok []))"

definition pipe_receiver_poll :: "Pipe \<Rightarrow> PollEvent \<Rightarrow> PollEvent" where
  "pipe_receiver_poll p events =
     (let queue_len = length (queue p);
          sender_alive = senders p > 0;
          res1 = (if contains events POLLIN then
                    if queue_len > 0 then POLLNONE OR POLLIN
                    else if \<not> sender_alive then POLLNONE OR POLLERR else POLLNONE
                  else POLLNONE)
      in if contains events POLLERR \<and> queue_len = 0 \<and> \<not> sender_alive then res1 OR POLLERR else res1)"

text \<open>Cloning and dropping references to the sending end.\<close>

definition pipe_clone_sender :: "Pipe \<Rightarrow> Pipe" where
  "pipe_clone_sender p = p\<lparr>senders := Suc (senders p)\<rparr>"

definition pipe_drop_sender :: "Pipe \<Rightarrow> Pipe" where
  "pipe_drop_sender p = p\<lparr>senders := senders p - 1\<rparr>"

definition pipe_sender_inode :: "('i, Pipe) inode" where
  "pipe_sender_inode = inode_default
     \<lparr>i_writeat := \<lambda>p _ d. pipe_writeat p d,
      i_poll := \<lambda>p e. (p, Ok (pipe_sender_poll p e)),
      i_stat := \<lambda>p st. Ok (pipe_stat st)\<rparr>"

definition pipe_receiver_inode :: "('i, Pipe) inode" where
  "pipe_receiver_inode = inode_default
     \<lparr>i_readat := \<lambda>p _ n. pipe_readat p n,
      i_poll := \<lambda>p e. (p, Ok (pipe_receiver_poll p e)),
      i_stat := \<lambda>p st. Ok (pipe_stat st)\<rparr>"

section \<open>Socket pairs\<close>

type_synonym SocketPair = "u8 list"

definition create_socket_pair :: SocketPair where
  "create_socket_pair = []"

definition socket_pair_writeat :: "SocketPair \<Rightarrow> u8 list \<Rightarrow> SocketPair \<times> nat res" where
  "socket_pair_writeat q buffer =
     (if length q > 0x50000 then (q, Err EWOULDBLOCK) else (q @ buffer, Ok (length buffer)))"

definition socket_pair_readat :: "SocketPair \<Rightarrow> nat \<Rightarrow> SocketPair \<times> u8 list res" where
  "socket_pair_readat q n =
     (let rlen = min (length q) n
      in (drop rlen q, if rlen = 0 then Err EWOULDBLOCK else Ok (take rlen q)))"

definition socket_pair_poll :: "SocketPair \<Rightarrow> PollEvent \<Rightarrow> PollEvent" where
  "socket_pair_poll q events =
     (let res1 = (if contains events POLLOUT \<and> length q \<le> 0x50000 then POLLNONE OR POLLOUT else POLLNONE)
      in if contains events POLLIN \<and> length q > 0 then res1 OR POLLIN else res1)"

definition socket_pair_inode :: "('i, SocketPair) inode" where
  "socket_pair_inode = inode_default
     \<lparr>i_readat := \<lambda>q _ n. socket_pair_readat q n,
      i_writeat := \<lambda>q _ d. socket_pair_writeat q d,
      i_poll := \<lambda>q e. (q, Ok (socket_pair_poll q e))\<rparr>"

section \<open>Blocking reads and writes\<close>

text \<open>
  One poll of \<^verbatim>\<open>WaitBlockingRead\<close> and \<^verbatim>\<open>WaitBlockingWrite\<close>: \<^verbatim>\<open>EWOULDBLOCK\<close> keeps the
  future pending with its retry counter raised, every other outcome completes it.
\<close>

definition wait_poll :: "'s \<times> 'a res \<Rightarrow> nat \<Rightarrow> 's \<times> nat \<times> 'a res Poll" where
  "wait_poll r retries =
     (case r of
        (s, Err EWOULDBLOCK) \<Rightarrow> (s, retries + 1, Pending)
      | (s, x) \<Rightarrow> (s, retries, Ready x))"

definition wait_blocking_read :: "('i, 's) inode \<Rightarrow> nat \<Rightarrow> usize \<Rightarrow> 's \<Rightarrow> nat \<Rightarrow> 's \<times> nat \<times> u8 list res Poll" where
  "wait_blocking_read ops n off s retries = wait_poll (i_readat ops s off n) retries"

definition wait_blocking_write :: "('i, 's) inode \<Rightarrow> u8 list \<Rightarrow> usize \<Rightarrow> 's \<Rightarrow> nat \<Rightarrow> 's \<times> nat \<times> nat res Poll" where
  "wait_blocking_write ops d off s retries = wait_poll (i_writeat ops s off d) retries"

section \<open>The channel interface\<close>

inductive channel_run ::
  "('q \<Rightarrow> 'b list \<Rightarrow> 'q \<times> nat res) \<Rightarrow> ('q \<Rightarrow> nat \<Rightarrow> 'q \<times> 'b list res) \<Rightarrow> 'q \<Rightarrow> 'q \<Rightarrow> 'b list \<Rightarrow> 'b list \<Rightarrow> bool"
  for push :: "'q \<Rightarrow> 'b list \<Rightarrow> 'q \<times> nat res" and pull :: "'q \<Rightarrow> nat \<Rightarrow> 'q \<times> 'b list res" and q0 :: 'q
where
  start: "channel_run push pull q0 q0 [] []"
| sent: "channel_run push pull q0 q sent recv \<Longrightarrow> push q d = (q', Ok n) \<Longrightarrow>
    channel_run push pull q0 q' (sent @ take n d) recv"
| received: "channel_run push pull q0 q sent recv \<Longrightarrow> pull q k = (q', Ok d) \<Longrightarrow>
    channel_run push pull q0 q' sent (recv @ d)"
| refused_write: "channel_run push pull q0 q sent recv \<Longrightarrow> push q d = (q', Err e) \<Longrightarrow>
    channel_run push pull q0 q' sent recv"
| refused_read: "channel_run push pull q0 q sent recv \<Longrightarrow> pull q k = (q', Err e) \<Longrightarrow>
    channel_run push pull q0 q' sent recv"

text \<open>\<open>n\<close> reads of \<open>k\<close> bytes each, and what they return together.\<close>

fun reads :: "('q \<Rightarrow> nat \<Rightarrow> 'q \<times> 'b list res) \<Rightarrow> nat \<Rightarrow> nat \<Rightarrow> 'q \<Rightarrow> 'q \<times> 'b list" where
  "reads pull k 0 q = (q, [])"
| "reads pull k (Suc n) q =
     (case pull q k of
        (q', Ok d) \<Rightarrow> (case reads pull k n q' of (q'', r) \<Rightarrow> (q'', d @ r))
      | (q', Err _) \<Rightarrow> reads pull k n q'
      | (q', Panic) \<Rightarrow> (q, []))"

locale byte_channel =
  fixes push :: "'q \<Rightarrow> 'b list \<Rightarrow> 'q \<times> nat res"
    and pull :: "'q \<Rightarrow> nat \<Rightarrow> 'q \<times> 'b list res"
    and pending :: "'q \<Rightarrow> 'b list"
  assumes push_Ok: "push q d = (q', Ok n) \<Longrightarrow> n = length d \<and> pending q' = pending q @ d"
    and push_Err: "push q d = (q', Err e) \<Longrightarrow> q' = q"
    and push_no_panic: "snd (push q d) \<noteq> Panic"
    and pull_Ok: "pull q k = (q', Ok d) \<Longrightarrow> pending q = d @ pending q' \<and> length d \<le> k"
    and pull_Err: "pull q k = (q', Err e) \<Longrightarrow> q' = q"
    and pull_progress: "pending q \<noteq> [] \<Longrightarrow> 0 < k \<Longrightarrow> \<exists>q' d. pull q k = (q', Ok d) \<and> d \<noteq> []"
begin

lemma run_conserves:
  "channel_run push pull q0 q sent recv \<Longrightarrow> pending q0 @ sent = recv @ pending q"
proof (induction rule: channel_run.induct)
  case (sent q sent recv d q' n)
  with push_Ok [OF sent(2)] show ?case by (metis append_assoc order_refl take_all)
next
  case (received q sent recv k q' d)
  with pull_Ok [OF received(2)] show ?case by simp
qed (auto dest: push_Err pull_Err)

lemma run_prefix:
  assumes "channel_run push pull q0 q sent recv" "pending q0 = []"
  shows "take (length recv) sent = recv"
  using run_conserves [OF assms(1)] assms(2) by simp

lemma reads_drain:
  assumes "0 < k" "length (pending q) \<le> n"
  shows "\<exists>q'. reads pull k n q = (q', pending q) \<and> pending q' = []"
  using assms(2)
proof (induction n arbitrary: q)
  case (Suc n)
  show ?case
  proof (cases "pull q k")
    case (Pair q1 r)
    show ?thesis
    proof (cases r)
      case (Ok d)
      then have c: "pending q = d @ pending q1" using pull_Ok Pair by blast
      have "d \<noteq> []" if "pending q \<noteq> []" using pull_progress [OF that assms(1)] Pair Ok by simp
      then have "length (pending q1) \<le> n" using c Suc.prems by (cases "pending q = []"; cases d) auto
      with Suc.IH obtain q' where "reads pull k n q1 = (q', pending q1)" "pending q' = []" by blast
      with Pair Ok c show ?thesis by simp
    next
      case (Err e)
      then have "pending q = []" "q1 = q" using Pair pull_progress [OF _ assms(1), of q] pull_Err by fastforce+
      with Suc.IH [of q] Pair Err show ?thesis by simp
    next
      case Panic
      then have "pending q = []" using Pair pull_progress [OF _ assms(1), of q] by fastforce
      with Pair Panic show ?thesis by simp
    qed
  qed
qed simp

end

interpretation pipe: byte_channel pipe_writeat pipe_readat queue
  by unfold_locales (auto simp: pipe_writeat_def pipe_readat_def Let_def split: if_splits)

interpretation socket_pair: byte_channel socket_pair_writeat socket_pair_readat "\<lambda>q. q"
  by unfold_locales (auto simp: socket_pair_writeat_def socket_pair_readat_def Let_def split: if_splits)

section \<open>Properties\<close>

text \<open>C10: A pipe is a lossless queue: whatever the interleaving of writes and reads
  from creation on (refused operations included), the accepted bytes are the bytes
  received followed by the bytes still queued, in order; and a reader that then asks
  for \<open>k > 0\<close> bytes at a time, as many times as there are queued bytes, gets exactly
  those bytes and leaves the pipe empty.\<close>

theorem pipe_delivers_in_order:
  assumes "channel_run pipe_writeat pipe_readat create_pipe p sent recv" "0 < k"
  shows "sent = recv @ queue p \<and>
    (\<exists>p'. reads pipe_readat k (length (queue p)) p = (p', queue p) \<and> queue p' = [])"
  using pipe.run_conserves [OF assms(1)] pipe.reads_drain [OF assms(2) order_refl, of p]
  by (simp add: create_pipe_def)

theorem pipe_delivers_in_order_witness:
  "\<exists>p. channel_run pipe_writeat pipe_readat create_pipe p [1, 2, 3] [1, 2] \<and> [1, 2, 3] = [1, 2] @ queue p"
proof -
  let ?p1 = "\<lparr>queue = [1, 2, 3], senders = 1\<rparr>"
  let ?p2 = "\<lparr>queue = [3], senders = 1\<rparr>"
  let ?run = "channel_run pipe_writeat pipe_readat create_pipe"
  have w: "pipe_writeat create_pipe [1, 2, 3] = (?p1, Ok 3)"
    by (simp add: pipe_writeat_def create_pipe_def)
  have r: "pipe_readat ?p1 2 = (?p2, Ok [1, 2])"
    by (simp add: pipe_readat_def numeral_eq_Suc)
  have s0: "?run create_pipe [] []" by (rule channel_run.start)
  have s1: "?run ?p1 [1, 2, 3] []" using channel_run.sent [where d = "[1, 2, 3]", OF s0 w] by simp
  have s2: "?run ?p2 [1, 2, 3] [1, 2]" using channel_run.received [OF s1 r] by simp
  show ?thesis
    by (rule exI [of _ ?p2], rule conjI, rule s2, rule pipe_delivers_in_order [OF s2 zero_less_one, THEN conjunct1])
qed

text \<open>The receiving end of a pipe is consistent: \<^verbatim>\<open>poll\<close> for \<^verbatim>\<open>POLLIN\<close> reports an
  event exactly when a read of at least one byte would not block; such a read then
  returns the next bytes, or, when the queue is empty and every sender is gone, the
  end of file, and the last sender's drop is what turns blocking into end of file.\<close>

theorem pipe_poll_agrees_with_read:
  assumes "0 < n"
  shows "(pipe_receiver_poll p POLLIN \<noteq> POLLNONE \<longleftrightarrow> snd (pipe_readat p n) \<noteq> Err EWOULDBLOCK) \<and>
    (snd (pipe_readat p n) = Ok [] \<longleftrightarrow> queue p = [] \<and> senders p = 0) \<and>
    (queue p = [] \<and> senders p = 1 \<longrightarrow> snd (pipe_readat p n) = Err EWOULDBLOCK \<and>
       snd (pipe_readat (pipe_drop_sender p) n) = Ok [] \<and>
       snd (pipe_readat (pipe_drop_sender (pipe_clone_sender p)) n) = Err EWOULDBLOCK)"
  using assms
  by (auto simp: pipe_receiver_poll_def pipe_readat_def pipe_drop_sender_def pipe_clone_sender_def poll_defs Let_def
      contains_def)

theorem pipe_poll_agrees_with_read_witness:
  "pipe_receiver_poll create_pipe POLLIN = POLLNONE \<and>
   snd (pipe_readat (pipe_drop_sender create_pipe) 1) = Ok []"
  using pipe_poll_agrees_with_read [of 1 create_pipe]
  by (auto simp: create_pipe_def pipe_readat_def)

text \<open>A blocking write of more than the pipe's buffer size never completes:
  in every state of the pipe, an empty one included, the future stays pending and
  nothing is written, however many times it is polled.\<close>

theorem pipe_oversized_write_never_completes:
  assumes "PIPE_BUFFER_SIZE < length d"
  shows "wait_blocking_write pipe_sender_inode d off p retries = (p, retries + 1, Pending)"
  using assms by (auto simp: wait_blocking_write_def pipe_sender_inode_def pipe_writeat_def wait_poll_def PIPE_BUFFER_SIZE_def)

theorem pipe_oversized_write_never_completes_witness:
  "wait_blocking_write pipe_sender_inode (replicate 0x10001 0) 0 create_pipe 0 = (create_pipe, 1, Pending)"
proof -
  have "PIPE_BUFFER_SIZE < length (replicate 0x10001 (0::u8))"
    unfolding length_replicate PIPE_BUFFER_SIZE_def by linarith
  from pipe_oversized_write_never_completes [OF this, of 0 create_pipe 0] show ?thesis by (simp only: add_0)
qed

text \<open>Writes of at most sixteen bytes are never refused, so the buffer limit
  bounds nothing: \<open>k\<close> writes of the same sixteen-byte block to a new pipe queue
  \<open>16 * k\<close> bytes.\<close>

fun repeat_write :: "nat \<Rightarrow> u8 list \<Rightarrow> Pipe \<Rightarrow> Pipe" where
  "repeat_write 0 d p = p"
| "repeat_write (Suc k) d p = repeat_write k d (fst (pipe_writeat p d))"

lemma repeat_write_queue:
  "length d = 16 \<Longrightarrow> length (queue (repeat_write k d p)) = length (queue p) + 16 * k"
  by (induction k arbitrary: p) (auto simp: pipe_writeat_def)

text \<open>The two ends of a socket pair share one queue: an end that writes reads its own
  bytes back, and the peer then finds the queue empty.\<close>

lemma socket_pair_echoes:
  "d \<noteq> [] \<Longrightarrow> length d \<le> n \<Longrightarrow>
   socket_pair_readat (fst (socket_pair_writeat create_socket_pair d)) n = ([], Ok d)"
  by (simp add: socket_pair_writeat_def create_socket_pair_def socket_pair_readat_def)

end
