(* ===== verification/Files.thy ===== *)
theory Files
  imports Paths RamFs Channels
begin

text \<open>
  Open files, \<^verbatim>\<open>filesystem/fs/src/file.rs\<close>: path resolution through the mount table,
  the file offset, directory listing and blocking I/O.  \<open>node\<close> is the dispatch from
  inode references to their operations.
\<close>

section \<open>Opening\<close>

record 'i FileObj =
  inner :: 'i
  path_buf :: PathBuf
  foff :: usize
  fflags :: OpenFlags

type_synonym ('i, 's) dispatch = "'i \<Rightarrow> ('i, 's) inode"

fun walk :: "('i, 's) dispatch \<Rightarrow> 's \<Rightarrow> 'i \<Rightarrow> string list \<Rightarrow> 'i res" where
  "walk node s i [] = Ok i"
| "walk node s i (name # names) = rbind (i_lookup (node i) s name) (\<lambda>j. walk node s j names)"

definition create_type :: "OpenFlags \<Rightarrow> FileType" where
  "create_type flags = (if contains flags O_DIRECTORY then Directory else File)"

definition open_last :: "('i, 's) dispatch \<Rightarrow> 's \<Rightarrow> 'i \<Rightarrow> string \<Rightarrow> OpenFlags \<Rightarrow> 's \<times> 'i res" where
  "open_last node s d name flags =
     (case (if contains flags O_CREAT then i_create (node d) s name (create_type flags) else (s, Ok ())) of
        (s1, Ok _) \<Rightarrow> (s1, i_lookup (node d) s1 name)
      | (s1, Err e) \<Rightarrow> (s1, Err e)
      | (s1, Panic) \<Rightarrow> (s1, Panic))"

definition open_node :: "('i, 's) dispatch \<Rightarrow> 'i mounts \<Rightarrow> 's \<Rightarrow> PathBuf \<Rightarrow> OpenFlags \<Rightarrow> 's \<times> 'i res" where
  "open_node node ms s path flags =
     (case get_mounted ms path of
        Ok (root, p) \<Rightarrow>
          if levels p > 0 then
            (case walk node s root (path_dir p) of
               Ok d \<Rightarrow> open_last node s d (filename p) flags
             | Err e \<Rightarrow> (s, Err e)
             | Panic \<Rightarrow> (s, Panic))
          else (s, Ok root)
      | Err e \<Rightarrow> (s, Err e)
      | Panic \<Rightarrow> (s, Panic))"

definition file_open :: "('i, 's) dispatch \<Rightarrow> 'i mounts \<Rightarrow> 's \<Rightarrow> PathBuf \<Rightarrow> OpenFlags \<Rightarrow> 's \<times> 'i FileObj res" where
  "file_open node ms s path flags =
     (case open_node node ms s path flags of
        (s', r) \<Rightarrow> (s', rmap (\<lambda>i. \<lparr>inner = i, path_buf = path, foff = 0, fflags = flags\<rparr>) r))"

definition new_dev :: "'i \<Rightarrow> 'i FileObj" where
  "new_dev i = \<lparr>inner = i, path_buf = path_new, foff = 0, fflags = O_RDWR\<rparr>"

definition remove_self :: "('i, 's) dispatch \<Rightarrow> 'i mounts \<Rightarrow> 's \<Rightarrow> 'i FileObj \<Rightarrow> 's \<times> unit res" where
  "remove_self node ms s f =
     (case file_open node ms s (path_dir (path_buf f)) O_DIRECTORY of
        (s1, Ok d) \<Rightarrow> i_remove (node (inner d)) s1 (filename (path_buf f))
      | (s1, Err e) \<Rightarrow> (s1, Err e)
      | (s1, Panic) \<Rightarrow> (s1, Panic))"

definition check_writeable :: "'i FileObj \<Rightarrow> unit res" where
  "check_writeable f = (if contains (fflags f) O_RDWR \<or> contains (fflags f) O_WRONLY then Ok () else Err EPERM)"

definition file_size :: "('i, 's) dispatch \<Rightarrow> 's \<Rightarrow> 'i FileObj \<Rightarrow> usize res" where
  "file_size node s f = rmap st_size (i_stat (node (inner f)) s stat_default)"

definition file_type :: "('i, 's) dispatch \<Rightarrow> 's \<Rightarrow> 'i FileObj \<Rightarrow> FileType res" where
  "file_type node s f = rbind (i_stat (node (inner f)) s stat_default) (\<lambda>st. file_type_from (st_mode st))"

definition file_stat :: "('i, 's) dispatch \<Rightarrow> 's \<Rightarrow> 'i FileObj \<Rightarrow> Stat \<Rightarrow> Stat res" where
  "file_stat node s f st = rmap (\<lambda>st'. st'\<lparr>st_dev := 0\<rparr>) (i_stat (node (inner f)) s st)"

section \<open>Directory listing\<close>

record Dirent =
  d_ino :: u64
  d_off :: nat
  d_reclen :: "16 word"
  d_type :: u8
  d_name :: string

text \<open>\<^verbatim>\<open>size_of::<Dirent64>()\<close>: two eight-byte fields, a two-byte and a one-byte one,
  rounded up to the alignment of eight.\<close>

definition DIRENT64_SIZE :: nat where
  "DIRENT64_SIZE = 24"

definition MAX_ENTRIES :: nat where
  "MAX_ENTRIES = 50"

definition dirent_len :: "DirEntry \<Rightarrow> nat" where
  "dirent_len x = DIRENT64_SIZE + length (de_filename x) + 1"

definition mk_dirent :: "DirEntry \<Rightarrow> Dirent" where
  "mk_dirent x = \<lparr>d_ino = 0, d_off = dirent_len x, d_reclen = of_nat (dirent_len x), d_type = 0, d_name = de_filename x\<rparr>"

fun getdents_loop :: "nat \<Rightarrow> (nat \<times> DirEntry) list \<Rightarrow> nat \<Rightarrow> nat \<Rightarrow> nat \<Rightarrow> Dirent list \<times> nat \<times> nat" where
  "getdents_loop len [] processed ptr finished = ([], ptr, finished)"
| "getdents_loop len ((i, x) # xs) processed ptr finished =
     (if processed + 1 > MAX_ENTRIES then ([], ptr, finished)
      else if len - ptr < dirent_len x then ([], ptr, finished)
      else case getdents_loop len xs (processed + 1) (ptr + dirent_len x) (i + 1) of
             (out, p, f) \<Rightarrow> (mk_dirent x # out, p, f))"

definition getdents :: "('i, 's) dispatch \<Rightarrow> 's \<Rightarrow> 'i FileObj \<Rightarrow> nat \<Rightarrow> 'i FileObj \<times> (Dirent list \<times> nat) res" where
  "getdents node s f len =
     (case i_read_dir (node (inner f)) s of
        Ok entries \<Rightarrow>
          (case getdents_loop len (drop (foff f) (enumerate 0 entries)) 0 0 0 of
             (out, ptr, finished) \<Rightarrow> (f\<lparr>foff := finished\<rparr>, Ok (out, ptr)))
      | Err _ \<Rightarrow> (f, Ok ([], 0))
      | Panic \<Rightarrow> (f, Panic))"

section \<open>Reading, writing and seeking\<close>

definition file_readat :: "('i, 's) dispatch \<Rightarrow> 's \<Rightarrow> 'i FileObj \<Rightarrow> usize \<Rightarrow> nat \<Rightarrow> 's \<times> u8 list res" where
  "file_readat node s f off n = i_readat (node (inner f)) s off n"

definition file_writeat :: "('i, 's) dispatch \<Rightarrow> 's \<Rightarrow> 'i FileObj \<Rightarrow> usize \<Rightarrow> u8 list \<Rightarrow> 's \<times> nat res" where
  "file_writeat node s f off buffer =
     (case check_writeable f of
        Ok _ \<Rightarrow> if length buffer = 0 then (s, Ok 0) else i_writeat (node (inner f)) s off buffer
      | Err e \<Rightarrow> (s, Err e)
      | Panic \<Rightarrow> (s, Panic))"

text \<open>\<^verbatim>\<open>map(|x| { *self.offset.lock() += x; x })\<close>\<close>

definition advance :: "'i FileObj \<Rightarrow> nat res \<Rightarrow> 'i FileObj" where
  "advance f r = (case r of Ok n \<Rightarrow> f\<lparr>foff := uadd (foff f) n\<rparr> | _ \<Rightarrow> f)"

definition file_read :: "('i, 's) dispatch \<Rightarrow> 's \<Rightarrow> 'i FileObj \<Rightarrow> nat \<Rightarrow> ('s \<times> 'i FileObj) \<times> u8 list res" where
  "file_read node s f n =
     (case i_readat (node (inner f)) s (foff f) n of
        (s', r) \<Rightarrow> ((s', advance f (rmap length r)), r))"

definition file_write :: "('i, 's) dispatch \<Rightarrow> 's \<Rightarrow> 'i FileObj \<Rightarrow> u8 list \<Rightarrow> ('s \<times> 'i FileObj) \<times> nat res" where
  "file_write node s f buffer =
     (case check_writeable f of
        Ok _ \<Rightarrow>
          if length buffer = 0 then ((s, f), Ok 0)
          else (case i_writeat (node (inner f)) s (foff f) buffer of (s', r) \<Rightarrow> ((s', advance f r), r))
      | Err e \<Rightarrow> ((s, f), Err e)
      | Panic \<Rightarrow> ((s, f), Panic))"

text \<open>
  One poll of the \<^verbatim>\<open>async\<close> bodies.  \<open>off\<close> is the offset captured when the future was
  created; the offset the file has at completion is the one that is advanced.
\<close>

definition finish :: "'i FileObj \<Rightarrow> ('a \<Rightarrow> nat) \<Rightarrow> 's \<times> nat \<times> 'a res Poll \<Rightarrow> ('s \<times> 'i FileObj) \<times> nat \<times> 'a res Poll" where
  "finish f sz r =
     (case r of
        (s, k, Pending) \<Rightarrow> ((s, f), k, Pending)
      | (s, k, Ready x) \<Rightarrow> ((s, advance f (rmap sz x)), k, Ready x))"

definition async_read :: "('i, 's) dispatch \<Rightarrow> usize \<Rightarrow> 's \<Rightarrow> 'i FileObj \<Rightarrow> nat \<Rightarrow> nat \<Rightarrow>
    ('s \<times> 'i FileObj) \<times> nat \<times> u8 list res Poll" where
  "async_read node off s f n retries =
     finish f length
       (if contains (fflags f) O_NONBLOCK
        then (case i_readat (node (inner f)) s off n of (s', r) \<Rightarrow> (s', retries, Ready r))
        else wait_blocking_read (node (inner f)) n off s retries)"

definition async_write :: "('i, 's) dispatch \<Rightarrow> usize \<Rightarrow> 's \<Rightarrow> 'i FileObj \<Rightarrow> u8 list \<Rightarrow> nat \<Rightarrow>
    ('s \<times> 'i FileObj) \<times> nat \<times> nat res Poll" where
  "async_write node off s f buffer retries =
     (if length buffer = 0 then ((s, f), retries, Ready (Ok 0))
      else finish f (\<lambda>n. n) (wait_blocking_write (node (inner f)) buffer off s retries))"

text \<open>The casts between \<^verbatim>\<open>usize\<close> and \<^verbatim>\<open>isize\<close>, and \<^verbatim>\<open>isize\<close> addition.\<close>

definition as_isize :: "usize \<Rightarrow> int" where
  "as_isize n = (if n < 2 ^ 63 then int n else int n - 2 ^ 64)"

definition isize_add :: "int \<Rightarrow> int \<Rightarrow> int" where
  "isize_add a b = (a + b + 2 ^ 63) mod 2 ^ 64 - 2 ^ 63"

definition seek_target :: "usize \<Rightarrow> Stat \<Rightarrow> SeekFrom \<Rightarrow> int" where
  "seek_target off st from =
     (case from of
        SET n \<Rightarrow> as_isize n
      | CURRENT d \<Rightarrow> isize_add (as_isize off) d
      | END d \<Rightarrow> isize_add (as_isize (st_size st)) d)"

definition file_seek :: "('i, 's) dispatch \<Rightarrow> 's \<Rightarrow> 'i FileObj \<Rightarrow> SeekFrom \<Rightarrow> 'i FileObj \<times> usize res" where
  "file_seek node s f from =
     (case i_stat (node (inner f)) s stat_default of
        Ok st \<Rightarrow>
          (let new_off = seek_target (foff f) st from;
               new_off = (if new_off < 0 then 0 else new_off)
           in (f\<lparr>foff := nat new_off\<rparr>, Ok (nat new_off)))
      | Err e \<Rightarrow> (f, Err e)
      | Panic \<Rightarrow> (f, Panic))"

section \<open>Files over regular inodes\<close>

text \<open>
  An inode is regular when its operations are those of a random access file whose
  reads do not change the state and whose \<^verbatim>\<open>stat\<close> reports the length.
\<close>

locale regular_inode =
  random_access_file "\<lambda>s off n. snd (i_readat ops s off n)" "i_writeat ops" content inv room
  for ops :: "('i, 's) inode" and content :: "'s \<Rightarrow> u8 list" and inv :: "'s \<Rightarrow> bool"
    and room :: "'s \<Rightarrow> nat \<Rightarrow> nat \<Rightarrow> bool" +
  assumes read_pure: "fst (i_readat ops s off n) = s"
    and stat_size: "inv s \<Longrightarrow> \<exists>st. i_stat ops s stat_default = Ok st \<and> st_size st = length (content s)"
    and room_usize: "room s off n \<Longrightarrow> off + n < USIZE"
begin

lemma read_file:
  assumes "node (inner f) = ops" "inv s"
  shows "file_read node s f n =
    ((s, advance f (Ok (min n (length (content s) - foff f)))), Ok (take n (drop (foff f) (content s))))"
  using rd_content [OF assms(2), of "foff f" n] read_pure [of s "foff f" n] assms(1)
  by (auto simp: file_read_def min.commute split: prod.splits)

lemma write_file:
  assumes "node (inner f) = ops" "inv s" "room s (foff f) (length d)" "d \<noteq> []" "check_writeable f = Ok ()"
  shows "\<exists>s'. i_writeat ops s (foff f) d = (s', Ok (length d)) \<and> inv s' \<and>
    file_write node s f d = ((s', f\<lparr>foff := foff f + length d\<rparr>), Ok (length d))"
proof -
  obtain s' r where w: "i_writeat ops s (foff f) d = (s', r)" by fastforce
  with wr_result [OF assms(2,3) w] have "r = Ok (length d)" "inv s'" by simp_all
  then show ?thesis
    using w assms(1,4,5) room_usize [OF assms(3)] by (simp add: file_write_def advance_def uadd_def)
qed

lemma seek_set:
  assumes "node (inner f) = ops" "inv s" "off < 2 ^ 63"
  shows "file_seek node s f (SET off) = (f\<lparr>foff := off\<rparr>, Ok off)"
proof -
  obtain st where "i_stat ops s stat_default = Ok st" using stat_size [OF assms(2)] by blast
  then show ?thesis using assms by (simp add: file_seek_def seek_target_def as_isize_def)
qed

lemma write_seek_read:
  assumes "node (inner f) = ops" "inv s" "room s (foff f) (length d)" "d \<noteq> []" "check_writeable f = Ok ()"
    and "foff f < 2 ^ 63"
    and "file_write node s f d = ((s1, f1), r1)" "file_seek node s1 f1 (SET (foff f)) = (f2, r2)"
    and "file_read node s1 f2 (length d) = ((s3, f3), r3)"
  shows "r1 = Ok (length d) \<and> r2 = Ok (foff f) \<and> r3 = Ok d \<and> s3 = s1 \<and> foff f3 = foff f + length d \<and> f3 = f1"
proof -
  obtain s' where s': "i_writeat ops s (foff f) d = (s', Ok (length d))" "inv s'"
    "file_write node s f d = ((s', f\<lparr>foff := foff f + length d\<rparr>), Ok (length d))"
    using write_file [where node = node and f = f, OF assms(1-5)] by blast
  with assms(7) have e1: "s1 = s'" "f1 = f\<lparr>foff := foff f + length d\<rparr>" "r1 = Ok (length d)" by simp_all
  have e2: "f2 = f\<lparr>foff := foff f\<rparr>" "r2 = Ok (foff f)"
    using seek_set [of node f1 s1 "foff f"] assms(1,6,8) e1 s'(2) by auto
  have rd: "take (length d) (drop (foff f) (content s')) = d"
    using read_own_write [OF assms(2,3) s'(1)] rd_content [OF s'(2)] by simp
  then have "length d \<le> length (content s') - foff f" by (metis length_drop length_take min.cobounded1 min.orderE)
  then show ?thesis
    using read_file [of node f2 s' "length d"] assms(1,9) e1 e2 rd s'(2) room_usize [OF assms(3)]
    by (auto simp: advance_def uadd_def)
qed

end

lemma ram_file_stat_size: "st_size (ram_file_stat f st) = flen f"
  by (simp add: ram_file_stat_def)

interpretation ram_regular: regular_inode "ram_file_inode i"
  "\<lambda>s. contents (rs_phys s) (rs_files s i)" "\<lambda>s. ram_wf (rs_phys s, rs_files s i)"
  "\<lambda>s. has_room (rs_phys s) (rs_files s i)" for i
proof (unfold_locales, goal_cases)
  case (1 s off n)
  then show ?case using ramfile.rd_content [of "(rs_phys s, rs_files s i)" off n] by (simp add: ram_file_inode_def)
next
  case (2 s off d s' r)
  then show ?case
    using ramfile.wr_result [of "(rs_phys s, rs_files s i)" off d]
    by (auto simp: ram_file_inode_def lift_file_def split: prod.splits)
next
  case (3 s off d s' r)
  then show ?case
    using ramfile.wr_length [of "(rs_phys s, rs_files s i)" off d]
    by (auto simp: ram_file_inode_def lift_file_def split: prod.splits)
next
  case (4 s off d s' r j)
  then show ?case
    using ramfile.wr_inside [of "(rs_phys s, rs_files s i)" off d _ _ j]
    by (auto simp: ram_file_inode_def lift_file_def split: prod.splits)
next
  case (5 s off d s' r j)
  then show ?case
    using ramfile.wr_outside [of "(rs_phys s, rs_files s i)" off d _ _ j]
    by (auto simp: ram_file_inode_def lift_file_def split: prod.splits)
next
  case (6 s off n)
  show ?case by (simp add: ram_file_inode_def)
next
  case (7 s)
  then show ?case by (auto simp: ram_file_inode_def ram_file_stat_size ram_wf_def length_contents)
next
  case (8 s off n)
  then show ?case by (simp add: has_room_def)
qed

section \<open>Properties\<close>

text \<open>C27: An open ramfs file behaves as a byte stream with a position: writing a
  non-empty buffer (with room for it and write access) stores all of it and moves
  the offset past it; seeking back to the old offset and reading the same length
  returns exactly the buffer, leaves the state unchanged and ends at the offset the
  write had reached.\<close>

theorem file_write_seek_read:
  assumes "inner f = HFile i" "ram_wf (rs_phys s, rs_files s i)"
    and "has_room (rs_phys s) (rs_files s i) (foff f) (length d)" "d \<noteq> []"
    and "contains (fflags f) O_RDWR \<or> contains (fflags f) O_WRONLY" "foff f < 2 ^ 63"
    and "file_write (ram_inode addr) s f d = ((s1, f1), r1)"
    and "file_seek (ram_inode addr) s1 f1 (SET (foff f)) = (f2, r2)"
    and "file_read (ram_inode addr) s1 f2 (length d) = ((s3, f3), r3)"
  shows "r1 = Ok (length d) \<and> r2 = Ok (foff f) \<and> r3 = Ok d \<and> s3 = s1 \<and>
    foff f3 = foff f + length d \<and> f3 = f1"
proof -
  have n: "ram_inode addr (inner f) = ram_file_inode i" using assms(1) by simp
  have c: "check_writeable f = Ok ()" using assms(5) by (auto simp: check_writeable_def)
  show ?thesis
    by (rule ram_regular.write_seek_read [where node = "ram_inode addr" and f = f, OF n assms(2-4) c assms(6-9)])
qed

text \<open>Sizes that fit \<^verbatim>\<open>isize\<close> make its arithmetic exact.\<close>

lemma isize_add_exact: "- (2 ^ 63) \<le> a + b \<Longrightarrow> a + b < 2 ^ 63 \<Longrightarrow> isize_add a b = a + b"
  by (simp add: isize_add_def)

text \<open>\<^verbatim>\<open>lseek\<close> on an inode whose \<^verbatim>\<open>stat\<close> succeeds moves to the base (zero, the
  current offset or the file size) plus the displacement, or to zero when that is
  negative; it returns the new offset and never fails, as long as the sum fits an
  \<^verbatim>\<open>isize\<close>.\<close>

theorem seek_clamps_at_zero:
  assumes "i_stat (node (inner f)) s stat_default = Ok st" "foff f < 2 ^ 63" "st_size st < 2 ^ 63" "n < 2 ^ 63"
    and "- (2 ^ 63) \<le> d" "int (foff f) + d < 2 ^ 63" "int (st_size st) + d < 2 ^ 63"
  shows "file_seek node s f (SET n) = (f\<lparr>foff := n\<rparr>, Ok n) \<and>
    file_seek node s f (CURRENT d) =
      (f\<lparr>foff := nat (max 0 (int (foff f) + d))\<rparr>, Ok (nat (max 0 (int (foff f) + d)))) \<and>
    file_seek node s f (END d) =
      (f\<lparr>foff := nat (max 0 (int (st_size st) + d))\<rparr>, Ok (nat (max 0 (int (st_size st) + d))))"
  using assms by (simp add: file_seek_def seek_target_def as_isize_def isize_add_exact Let_def max_def)

lemma getdents_loop_spec:
  assumes "len \<ge> ptr"
  shows "\<exists>k \<le> length xs. getdents_loop len xs processed ptr fin =
      (map (\<lambda>(i, x). mk_dirent x) (take k xs), ptr + sum_list (map (\<lambda>(i, x). dirent_len x) (take k xs)),
       if k = 0 then fin else Suc (fst (xs ! (k - 1)))) \<and>
    (xs \<noteq> [] \<and> processed < MAX_ENTRIES \<and> dirent_len (snd (hd xs)) \<le> len - ptr \<longrightarrow> 0 < k)"
  using assms
proof (induction len xs processed ptr fin rule: getdents_loop.induct)
  case (2 len i x xs processed ptr finished)
  show ?case
  proof (cases "processed + 1 > MAX_ENTRIES \<or> len - ptr < dirent_len x")
    case True
    then show ?thesis by (intro exI [of _ 0]) auto
  next
    case False
    then have go: "\<not> processed + 1 > MAX_ENTRIES" "\<not> len - ptr < dirent_len x" by simp_all
    moreover have "ptr + dirent_len x \<le> len" using go(2) "2.prems" by simp
    ultimately obtain k where k: "k \<le> length xs"
      "getdents_loop len xs (processed + 1) (ptr + dirent_len x) (i + 1) =
        (map (\<lambda>(i, x). mk_dirent x) (take k xs),
         ptr + dirent_len x + sum_list (map (\<lambda>(i, x). dirent_len x) (take k xs)),
         if k = 0 then i + 1 else Suc (fst (xs ! (k - 1))))"
      using "2.IH" by blast
    then show ?thesis using go by (intro exI [of _ "Suc k"]) auto
  qed
qed simp

text \<open>One call lists a run of entries from the offset on, at least one when the next one fits.\<close>

lemma getdents_spec:
  assumes "i_read_dir (node (inner f)) s = Ok es" "foff f \<le> length es"
    and "\<forall>e \<in> set es. dirent_len e \<le> len"
  shows "\<exists>k. foff f + k \<le> length es \<and> (k = 0 \<longleftrightarrow> foff f = length es) \<and>
    getdents node s f len =
      (f\<lparr>foff := if k = 0 then 0 else foff f + k\<rparr>,
       Ok (map mk_dirent (take k (drop (foff f) es)), sum_list (map dirent_len (take k (drop (foff f) es)))))"
proof -
  let ?xs = "drop (foff f) (enumerate 0 es)"
  obtain k where k: "k \<le> length ?xs" "getdents_loop len ?xs 0 0 0 =
      (map (\<lambda>(i, x). mk_dirent x) (take k ?xs), 0 + sum_list (map (\<lambda>(i, x). dirent_len x) (take k ?xs)),
       if k = 0 then 0 else Suc (fst (?xs ! (k - 1))))"
    "?xs \<noteq> [] \<and> 0 < MAX_ENTRIES \<and> dirent_len (snd (hd ?xs)) \<le> len - 0 \<longrightarrow> 0 < k"
    using getdents_loop_spec [of 0 len ?xs 0 0] by blast
  have snds: "map g (take k ?xs) = map (g \<circ> Pair 0) (take k (drop (foff f) es))"
    if "\<And>i x. g (i, x) = g (0, x)" for g :: "nat \<times> DirEntry \<Rightarrow> 'z"
  proof -
    have "map g ys = map (g \<circ> Pair 0) (map snd ys)" for ys :: "(nat \<times> DirEntry) list"
      using that by (induction ys) auto
    then show ?thesis by (simp add: take_map [symmetric] drop_map [symmetric] del: map_map)
  qed
  have "Suc (fst (?xs ! (k - 1))) = foff f + k" if "k \<noteq> 0"
    using that k(1) by (simp add: nth_enumerate_eq)
  moreover have "k = 0 \<longleftrightarrow> foff f = length es"
  proof
    assume "k = 0"
    show "foff f = length es"
    proof (rule ccontr)
      assume "foff f \<noteq> length es"
      with assms(2) have l: "foff f < length es" by simp
      then have "hd ?xs = (foff f, es ! foff f)" by (simp add: hd_drop_conv_nth nth_enumerate_eq)
      then have "0 < k" using k(3) assms(3) l by (simp add: MAX_ENTRIES_def)
      with \<open>k = 0\<close> show False by simp
    qed
  qed (use k(1) in simp)
  ultimately show ?thesis
    using k(1,2) assms(1,2) snds [of "\<lambda>(i, x). mk_dirent x"] snds [of "\<lambda>(i, x). dirent_len x"]
    by (intro exI [of _ k]) (auto simp: getdents_def comp_def)
qed

text \<open>A user program lists a directory by calling \<^verbatim>\<open>getdents64\<close> until it returns zero.\<close>

fun list_dir :: "nat \<Rightarrow> ('i, 's) dispatch \<Rightarrow> 's \<Rightarrow> 'i FileObj \<Rightarrow> nat \<Rightarrow> Dirent list option" where
  "list_dir 0 node s f len = None"
| "list_dir (Suc fuel) node s f len =
     (case getdents node s f len of
        (f', Ok (out, n)) \<Rightarrow> if n = 0 then Some [] else map_option ((@) out) (list_dir fuel node s f' len)
      | _ \<Rightarrow> None)"

lemma list_dir_spec:
  assumes "i_read_dir (node (inner f)) s = Ok es" "foff f \<le> length es"
    and "\<forall>e \<in> set es. dirent_len e \<le> len" "length es - foff f < fuel"
  shows "list_dir fuel node s f len = Some (map mk_dirent (drop (foff f) es))"
  using assms
proof (induction fuel arbitrary: f)
  case (Suc fuel)
  obtain k where k: "foff f + k \<le> length es" "k = 0 \<longleftrightarrow> foff f = length es"
    "getdents node s f len =
      (f\<lparr>foff := if k = 0 then 0 else foff f + k\<rparr>,
       Ok (map mk_dirent (take k (drop (foff f) es)), sum_list (map dirent_len (take k (drop (foff f) es)))))"
    using getdents_spec [where node = node and f = f, OF Suc.prems(1-3)] by blast
  show ?case
  proof (cases "k = 0")
    case True
    with k show ?thesis by simp
  next
    case False
    let ?f = "f\<lparr>foff := foff f + k\<rparr>"
    have "take k (drop (foff f) es) \<noteq> []" using False k(1) by auto
    then have "(sum_list (map dirent_len (take k (drop (foff f) es))) = 0) = False"
      by (auto simp: dirent_len_def neq_Nil_conv)
    moreover have "list_dir fuel node s ?f len = Some (map mk_dirent (drop (foff ?f) es))"
      by (rule Suc.IH) (use Suc.prems k(1) False in auto)
    moreover have "map mk_dirent (take k (drop (foff f) es)) @ map mk_dirent (drop (foff ?f) es) =
        map mk_dirent (drop (foff f) es)"
      by (simp add: map_append [symmetric] drop_drop [symmetric] add.commute [of "foff f"] del: map_append drop_drop)
    ultimately show ?thesis
      using False k(3) by (simp only: list_dir.simps prod.case res.case if_False option.map)
  qed
qed simp

text \<open>C28: Listing a directory with \<^verbatim>\<open>getdents64\<close> until it returns zero bytes ends
  after at most one call per entry and one more, and returns every entry exactly
  once and in order, whatever the buffer length, as long as each single record fits
  in the buffer.\<close>

theorem getdents_lists_every_entry_once:
  assumes "i_read_dir (node (inner f)) s = Ok es" "foff f = 0" "\<forall>e \<in> set es. dirent_len e \<le> len"
  shows "\<exists>out. list_dir (Suc (length es)) node s f len = Some out \<and> map d_name out = map de_filename es"
  using list_dir_spec [where node = node and f = f, OF assms(1) _ assms(3), of "Suc (length es)"] assms(2)
  by (simp add: mk_dirent_def comp_def del: list_dir.simps)

definition demo_world :: RamState where
  "demo_world = \<lparr>rs_phys = two_files, rs_files = (\<lambda>_. file_b)(1 := file_a), rs_dirs = (\<lambda>_. [CFile ''a'' 1, CFile ''b'' 2]),
     rs_next = 3\<rparr>"

definition demo_file :: "ram_handle FileObj" where
  "demo_file = \<lparr>inner = HFile 1, path_buf = [''a''], foff = 4095, fflags = O_RDWR\<rparr>"

definition demo_dir :: "ram_handle FileObj" where
  "demo_dir = \<lparr>inner = HDir 0, path_buf = [], foff = 0, fflags = O_RDONLY\<rparr>"

theorem file_write_seek_read_witness:
  "\<exists>s1 f1. file_write (ram_inode (\<lambda>_. 0)) demo_world demo_file [7, 8] = ((s1, f1), Ok 2) \<and>
     snd (file_read (ram_inode (\<lambda>_. 0)) s1 (fst (file_seek (ram_inode (\<lambda>_. 0)) s1 f1 (SET 4095))) 2) = Ok [7, 8]"
proof -
  let ?n = "ram_inode (\<lambda>_. 0)"
  obtain s1 f1 r1 where w: "file_write ?n demo_world demo_file [7, 8] = ((s1, f1), r1)" by (metis prod.collapse)
  obtain f2 r2 where k: "file_seek ?n s1 f1 (SET (foff demo_file)) = (f2, r2)" by fastforce
  have two: "length [7::u8, 8] = 2" by simp
  obtain s3 f3 r3 where r: "file_read ?n s1 f2 (length [7::u8, 8]) = ((s3, f3), r3)" by (metis prod.collapse)
  have i: "inner demo_file = HFile 1" "ram_wf (rs_phys demo_world, rs_files demo_world 1)"
    "has_room (rs_phys demo_world) (rs_files demo_world 1) (foff demo_file) 2" "[7::u8, 8] \<noteq> []"
    "contains (fflags demo_file) O_RDWR \<or> contains (fflags demo_file) O_WRONLY" "foff demo_file < 2 ^ 63"
    using two_files_wf by (simp_all add: demo_file_def demo_world_def ram_wf_def)
  from file_write_seek_read [OF i(1,2) i(3) [folded two] i(4-6) w k r] show ?thesis
    using w k r by (auto simp: demo_file_def numeral_2_eq_2)
qed

theorem seek_clamps_at_zero_witness:
  "snd (file_seek (ram_inode (\<lambda>_. 0)) demo_world demo_file (CURRENT (-5000))) = Ok 0 \<and>
   snd (file_seek (ram_inode (\<lambda>_. 0)) demo_world demo_file (END (-6))) = Ok 4090"
proof -
  let ?st = "ram_file_stat file_a stat_default"
  have "i_stat (ram_inode (\<lambda>_. 0) (inner demo_file)) demo_world stat_default = Ok ?st"
    by (simp add: demo_file_def demo_world_def ram_file_inode_def)
  note sk = seek_clamps_at_zero [where node = "ram_inode (\<lambda>_. 0)", OF this]
  have "st_size ?st = 4096" by (simp add: ram_file_stat_size file_a_def)
  with sk [of 0 "-5000"] sk [of 0 "-6"] show ?thesis by (simp add: demo_file_def)
qed

theorem getdents_lists_every_entry_once_witness:
  "\<exists>out. list_dir 3 (ram_inode (\<lambda>_. 0)) demo_world demo_dir 26 = Some out \<and> map d_name out = [''a'', ''b'']"
proof -
  let ?es = "ram_read_dir (\<lambda>j. flen (rs_files demo_world j)) (rs_dirs demo_world 0)"
  have es: "map de_filename ?es = [''a'', ''b'']" "length ?es = 2" "\<forall>e \<in> set ?es. dirent_len e \<le> 26"
    by (simp_all add: ram_read_dir_def demo_world_def dirent_len_def DIRENT64_SIZE_def)
  have "i_read_dir (ram_inode (\<lambda>_. 0) (inner demo_dir)) demo_world = Ok ?es" "foff demo_dir = 0"
    by (simp_all add: demo_dir_def ram_dir_inode_def)
  from getdents_lists_every_entry_once [where node = "ram_inode (\<lambda>_. 0)", OF this es(3)] es(1,2)
  show ?thesis by (simp del: list_dir.simps add: eval_nat_numeral)
qed

text \<open>\<^verbatim>\<open>async_write\<close>, which serves \<^verbatim>\<open>write(2)\<close>, does not check the access mode: a file
  opened read only is written.\<close>

lemma async_write_ignores_mode:
  assumes "fflags f = O_RDONLY" "d \<noteq> []" "i_writeat (node (inner f)) s (foff f) d = (s', Ok n)"
  shows "snd (file_write node s f d) = Err EPERM"
    "async_write node (foff f) s f d k = ((s', advance f (Ok n)), k, Ready (Ok n))"
  using assms
  by (simp_all add: file_write_def check_writeable_def contains_def open_flags_defs async_write_def finish_def
      wait_blocking_write_def wait_poll_def)

text \<open>A buffer too small for the next record reads as the end of the directory, and the
  listing starts over.\<close>

lemma getdents_small_buffer:
  assumes "i_read_dir (node (inner f)) s = Ok es" "foff f < length es" "len < dirent_len (es ! foff f)"
  shows "getdents node s f len = (f\<lparr>foff := 0\<rparr>, Ok ([], 0))"
proof -
  have "drop (foff f) (enumerate 0 es) = (foff f, es ! foff f) # drop (Suc (foff f)) (enumerate 0 es)"
    using assms(2) by (simp add: Cons_nth_drop_Suc [symmetric] nth_enumerate_eq)
  with assms show ?thesis by (simp add: getdents_def)
qed

end
