(* ===== verification/FdTable.thy ===== *)
theory FdTable
  imports Files
begin

text \<open>
  File descriptors: the table of \<^verbatim>\<open>kernel/src/tasks/filetable.rs\<close>, its accessors in
  \<^verbatim>\<open>kernel/src/tasks/task.rs\<close> and the system calls of \<^verbatim>\<open>kernel/src/syscall/fd.rs\<close>
  that work through it, with \<^verbatim>\<open>prlimit64\<close> of \<^verbatim>\<open>kernel/src/syscall/sys.rs\<close>.
  Open files (\<^verbatim>\<open>Arc<File>\<close>) are shared: the table holds indices into the list of
  open files.  User pointers are taken to be valid; a buffer argument is its contents.
\<close>

section \<open>The table\<close>

definition FILE_MAX :: nat where
  "FILE_MAX = 255"

definition AT_CWD :: int where
  "AT_CWD = -100"

record ('i, 's) Proc =
  fs :: 's
  mounts :: "'i mounts"
  ofiles :: "'i FileObj list"
  fd_table :: "nat option list"
  rlimits :: "nat list"
  curr_dir :: nat
  umask :: nat

text \<open>\<open>tty\<close> is the open terminal that the first three descriptors refer to.\<close>

definition file_table_new :: "nat \<Rightarrow> nat option list" where
  "file_table_new tty = replicate 3 (Some tty) @ replicate (FILE_MAX - 3) None"

definition rlimits_new :: "nat list" where
  "rlimits_new = (replicate 8 0)[7 := FILE_MAX, 4 := USIZE - 1]"

definition get_fd :: "('i, 's) Proc \<Rightarrow> nat \<Rightarrow> nat option res" where
  "get_fd st index = (if index \<ge> rlimits st ! 7 then Ok None else index_res (fd_table st) index)"

definition set_fd :: "('i, 's) Proc \<Rightarrow> nat \<Rightarrow> nat \<Rightarrow> ('i, 's) Proc res" where
  "set_fd st index h =
     (if index \<ge> rlimits st ! 7 then Ok st
      else if index < length (fd_table st) then Ok (st\<lparr>fd_table := (fd_table st)[index := Some h]\<rparr>)
      else Panic)"

definition clear_fd :: "('i, 's) Proc \<Rightarrow> nat \<Rightarrow> ('i, 's) Proc" where
  "clear_fd st index =
     (if index \<ge> length (fd_table st) then st else st\<lparr>fd_table := (fd_table st)[index := None]\<rparr>)"

definition find_free :: "nat option list \<Rightarrow> nat \<Rightarrow> nat option" where
  "find_free t limit = map_option fst (List.find (\<lambda>(i, x). x = None \<and> i < limit) (enumerate 0 t))"

definition alloc_fd :: "('i, 's) Proc \<Rightarrow> ('i, 's) Proc \<times> nat option" where
  "alloc_fd st =
     (case find_free (fd_table st) (rlimits st ! 7) of
        None \<Rightarrow>
          if length (fd_table st) < rlimits st ! 7
          then (st\<lparr>fd_table := fd_table st @ [None]\<rparr>, Some (length (fd_table st)))
          else (st, None)
      | Some i \<Rightarrow> (st, Some i))"

definition fd_resolve :: "('i, 's) Proc \<Rightarrow> int \<Rightarrow> string \<Rightarrow> PathBuf res" where
  "fd_resolve st fd name =
     (if (case name of c # _ \<Rightarrow> c = SLASH | [] \<Rightarrow> False) then Ok (path_from name)
      else if fd = AT_CWD then Ok (path_join (path_buf (ofiles st ! curr_dir st)) name)
      else if 0 \<le> fd \<and> nat fd < length (fd_table st) then
        (case fd_table st ! nat fd of
           Some h \<Rightarrow> Ok (path_join (path_buf (ofiles st ! h)) name)
         | None \<Rightarrow> Err EBADF)
      else Err EBADF)"

definition fd_open :: "('i, 's) dispatch \<Rightarrow> ('i, 's) Proc \<Rightarrow> int \<Rightarrow> string \<Rightarrow> OpenFlags \<Rightarrow>
    ('i, 's) Proc \<times> 'i FileObj res" where
  "fd_open node st fd name flags =
     (case fd_resolve st fd name of
        Ok path \<Rightarrow> (case file_open node (mounts st) (fs st) path flags of (s', r) \<Rightarrow> (st\<lparr>fs := s'\<rparr>, r))
      | Err e \<Rightarrow> (st, Err e)
      | Panic \<Rightarrow> (st, Panic))"

section \<open>System calls on descriptors\<close>

text \<open>\<^verbatim>\<open>get_fd(fd).ok_or(e)?\<close> followed by the rest of a handler.\<close>

definition with_fd :: "('i, 's) Proc \<Rightarrow> nat \<Rightarrow> errno \<Rightarrow> (nat \<Rightarrow> ('i, 's) Proc \<times> 'a res) \<Rightarrow> ('i, 's) Proc \<times> 'a res" where
  "with_fd st fd e k =
     (case get_fd st fd of
        Ok (Some h) \<Rightarrow> k h
      | Ok None \<Rightarrow> (st, Err e)
      | Err e' \<Rightarrow> (st, Err e')
      | Panic \<Rightarrow> (st, Panic))"

text \<open>\<^verbatim>\<open>?\<close> on a call that returns the state and a result.\<close>

definition andthen :: "('p \<times> 'a res) \<Rightarrow> ('p \<Rightarrow> 'a \<Rightarrow> 'p \<times> 'b res) \<Rightarrow> 'p \<times> 'b res" where
  "andthen r k =
     (case r of
        (st, Ok x) \<Rightarrow> k st x
      | (st, Err e) \<Rightarrow> (st, Err e)
      | (st, Panic) \<Rightarrow> (st, Panic))"

definition set_file :: "nat \<Rightarrow> 'i FileObj \<Rightarrow> ('i, 's) Proc \<Rightarrow> ('i, 's) Proc" where
  "set_file h f st = st\<lparr>ofiles := (ofiles st)[h := f]\<rparr>"

text \<open>Run an operation on the open file \<open>h\<close> and store the file system and the file back.\<close>

definition on_file :: "nat \<Rightarrow> ('i, 's) Proc \<Rightarrow> ('s \<times> 'i FileObj) \<times> 'a res \<Rightarrow> ('i, 's) Proc \<times> 'a res" where
  "on_file h st r = (case r of ((s, f), x) \<Rightarrow> (set_file h f (st\<lparr>fs := s\<rparr>), x))"

text \<open>Put a new open file into the table: \<^verbatim>\<open>alloc_fd().ok_or(e)?\<close> and \<^verbatim>\<open>set_fd\<close>.\<close>

definition install :: "('i, 's) Proc \<Rightarrow> 'i FileObj \<Rightarrow> errno \<Rightarrow> ('i, 's) Proc \<times> nat res" where
  "install st f e =
     (case alloc_fd st of
        (st1, None) \<Rightarrow> (st1, Err e)
      | (st1, Some fd) \<Rightarrow>
          (case set_fd (st1\<lparr>ofiles := ofiles st1 @ [f]\<rparr>) fd (length (ofiles st1)) of
             Ok st2 \<Rightarrow> (st2, Ok fd)
           | _ \<Rightarrow> (st1, Panic)))"

definition sys_dup3 :: "('i, 's) Proc \<Rightarrow> nat \<Rightarrow> nat \<Rightarrow> ('i, 's) Proc \<times> nat res" where
  "sys_dup3 st fd_src fd_dst =
     with_fd st fd_src EBADF (\<lambda>h.
       case set_fd st fd_dst h of Ok st' \<Rightarrow> (st', Ok fd_dst) | _ \<Rightarrow> (st, Panic))"

definition sys_dup :: "('i, 's) Proc \<Rightarrow> nat \<Rightarrow> ('i, 's) Proc \<times> nat res" where
  "sys_dup st fd =
     (case alloc_fd st of
        (st1, None) \<Rightarrow> (st1, Err EMFILE)
      | (st1, Some fd_dst) \<Rightarrow> sys_dup3 st1 fd fd_dst)"

text \<open>The first poll of \<^verbatim>\<open>read\<close> and \<^verbatim>\<open>write\<close>; the retry counter starts at zero.\<close>

definition sys_read :: "('i, 's) dispatch \<Rightarrow> ('i, 's) Proc \<Rightarrow> nat \<Rightarrow> nat \<Rightarrow> ('i, 's) Proc \<times> u8 list res Poll" where
  "sys_read node st fd count =
     (case get_fd st fd of
        Ok (Some h) \<Rightarrow>
          (case async_read node (foff (ofiles st ! h)) (fs st) (ofiles st ! h) count 0 of
             ((s, f), _, r) \<Rightarrow> (set_file h f (st\<lparr>fs := s\<rparr>), r))
      | Ok None \<Rightarrow> (st, Ready (Err EBADF))
      | _ \<Rightarrow> (st, Ready Panic))"

definition sys_write :: "('i, 's) dispatch \<Rightarrow> ('i, 's) Proc \<Rightarrow> nat \<Rightarrow> u8 list \<Rightarrow> ('i, 's) Proc \<times> nat res Poll" where
  "sys_write node st fd buffer =
     (case get_fd st fd of
        Ok (Some h) \<Rightarrow>
          (case async_write node (foff (ofiles st ! h)) (fs st) (ofiles st ! h) buffer 0 of
             ((s, f), _, r) \<Rightarrow> (set_file h f (st\<lparr>fs := s\<rparr>), r))
      | Ok None \<Rightarrow> (st, Ready (Err EBADF))
      | _ \<Rightarrow> (st, Ready Panic))"

fun readv_loop :: "('i, 's) dispatch \<Rightarrow> nat \<Rightarrow> ('i, 's) Proc \<Rightarrow> nat list \<Rightarrow> ('i, 's) Proc \<times> u8 list list res" where
  "readv_loop node h st [] = (st, Ok [])"
| "readv_loop node h st (n # ns) =
     andthen (on_file h st (file_read node (fs st) (ofiles st ! h) n)) (\<lambda>st1 d.
       andthen (readv_loop node h st1 ns) (\<lambda>st2 ds. (st2, Ok (d # ds))))"

definition sys_readv :: "('i, 's) dispatch \<Rightarrow> ('i, 's) Proc \<Rightarrow> nat \<Rightarrow> nat list \<Rightarrow> ('i, 's) Proc \<times> u8 list list res" where
  "sys_readv node st fd iov = with_fd st fd EBADF (\<lambda>h. readv_loop node h st iov)"

fun writev_loop :: "('i, 's) dispatch \<Rightarrow> nat \<Rightarrow> ('i, 's) Proc \<Rightarrow> u8 list list \<Rightarrow> nat \<Rightarrow> ('i, 's) Proc \<times> nat res" where
  "writev_loop node h st [] wsize = (st, Ok wsize)"
| "writev_loop node h st (b # bs) wsize =
     andthen (on_file h st (file_write node (fs st) (ofiles st ! h) b)) (\<lambda>st1 n.
       writev_loop node h st1 bs (uadd wsize n))"

definition sys_writev :: "('i, 's) dispatch \<Rightarrow> ('i, 's) Proc \<Rightarrow> nat \<Rightarrow> u8 list list \<Rightarrow> ('i, 's) Proc \<times> nat res" where
  "sys_writev node st fd iov = with_fd st fd EBADF (\<lambda>h. writev_loop node h st iov 0)"

definition sys_close :: "('i, 's) Proc \<Rightarrow> nat \<Rightarrow> ('i, 's) Proc \<times> nat res" where
  "sys_close st fd = (clear_fd st fd, Ok 0)"

definition sys_mkdir_at :: "('i, 's) dispatch \<Rightarrow> ('i, 's) Proc \<Rightarrow> int \<Rightarrow> string \<Rightarrow> ('i, 's) Proc \<times> nat res" where
  "sys_mkdir_at node st dir_fd path =
     andthen (fd_open node st dir_fd path (O_DIRECTORY OR O_CREAT)) (\<lambda>st1 _. (st1, Ok 0))"

text \<open>\<^verbatim>\<open>OpenFlags::from_bits_truncate\<close> keeps the bits of the declared flags.\<close>

definition open_flags_truncate :: "u64 \<Rightarrow> OpenFlags" where
  "open_flags_truncate w = w AND 0x7FFFC3"

definition sys_unlinkat :: "('i, 's) dispatch \<Rightarrow> ('i, 's) Proc \<Rightarrow> int \<Rightarrow> string \<Rightarrow> u64 \<Rightarrow> ('i, 's) Proc \<times> nat res" where
  "sys_unlinkat node st dir_fd path flags =
     andthen (fd_open node st dir_fd path (open_flags_truncate flags)) (\<lambda>st1 f.
       case remove_self node (mounts st1) (fs st1) f of
         (s, r) \<Rightarrow> (st1\<lparr>fs := s\<rparr>, rmap (\<lambda>_. 0) r))"

definition sys_openat :: "('i, 's) dispatch \<Rightarrow> ('i, 's) Proc \<Rightarrow> int \<Rightarrow> string \<Rightarrow> u64 \<Rightarrow> ('i, 's) Proc \<times> nat res" where
  "sys_openat node st dir_fd name flags =
     andthen (fd_open node st dir_fd name (open_flags_truncate flags)) (\<lambda>st1 f. install st1 f EMFILE)"

definition sys_faccess_at :: "('i, 's) dispatch \<Rightarrow> ('i, 's) Proc \<Rightarrow> int \<Rightarrow> string \<Rightarrow> u64 \<Rightarrow> ('i, 's) Proc \<times> nat res" where
  "sys_faccess_at node st dir_fd name flags =
     andthen (fd_open node st dir_fd name (open_flags_truncate flags)) (\<lambda>st1 _. (st1, Ok 0))"

text \<open>The results of \<^verbatim>\<open>fstat\<close> and \<^verbatim>\<open>fstatat\<close> are the record written to the user buffer.\<close>

definition sys_fstat :: "('i, 's) dispatch \<Rightarrow> ('i, 's) Proc \<Rightarrow> nat \<Rightarrow> ('i, 's) Proc \<times> Stat res" where
  "sys_fstat node st fd =
     with_fd st fd EBADF (\<lambda>h. (st, file_stat node (fs st) (ofiles st ! h) stat_default))"

definition OWNER_MASK :: StatMode where
  "OWNER_MASK = 0x1C0"

definition sys_fstatat :: "('i, 's) dispatch \<Rightarrow> ('i, 's) Proc \<Rightarrow> int \<Rightarrow> string \<Rightarrow> Stat \<Rightarrow> ('i, 's) Proc \<times> Stat res" where
  "sys_fstatat node st dir_fd path st0 =
     andthen (fd_open node st dir_fd path O_RDONLY) (\<lambda>st1 f.
       (st1, rmap (\<lambda>x. x\<lparr>st_mode := st_mode x OR OWNER_MASK\<rparr>) (file_stat node (fs st1) f st0)))"

text \<open>Both ends of a pair of devices (pipe or socket pair) get descriptors, the reading end first.\<close>

definition sys_pipe2 :: "('i, 's) Proc \<Rightarrow> 'i \<Rightarrow> 'i \<Rightarrow> ('i, 's) Proc \<times> (nat \<times> nat) res" where
  "sys_pipe2 st rx tx =
     andthen (install st (new_dev rx) ENFILE) (\<lambda>st1 rx_fd.
       andthen (install st1 (new_dev tx) ENFILE) (\<lambda>st2 tx_fd. (st2, Ok (rx_fd, tx_fd))))"

definition sys_socket_pair :: "('i, 's) Proc \<Rightarrow> 'i \<Rightarrow> ('i, 's) Proc \<times> (nat \<times> nat) res" where
  "sys_socket_pair st sock =
     andthen (install st (new_dev sock) ENFILE) (\<lambda>st1 rx_fd.
       andthen (install st1 (new_dev sock) ENFILE) (\<lambda>st2 tx_fd. (st2, Ok (rx_fd, tx_fd))))"

definition sys_pread :: "('i, 's) dispatch \<Rightarrow> ('i, 's) Proc \<Rightarrow> nat \<Rightarrow> nat \<Rightarrow> usize \<Rightarrow> ('i, 's) Proc \<times> u8 list res" where
  "sys_pread node st fd n off =
     with_fd st fd EBADF (\<lambda>h.
       case file_readat node (fs st) (ofiles st ! h) off n of (s, r) \<Rightarrow> (st\<lparr>fs := s\<rparr>, r))"

definition sys_pwrite :: "('i, 's) dispatch \<Rightarrow> ('i, 's) Proc \<Rightarrow> nat \<Rightarrow> u8 list \<Rightarrow> usize \<Rightarrow> ('i, 's) Proc \<times> nat res" where
  "sys_pwrite node st fd buffer off =
     with_fd st fd EBADF (\<lambda>h.
       case file_writeat node (fs st) (ofiles st ! h) off buffer of (s, r) \<Rightarrow> (st\<lparr>fs := s\<rparr>, r))"

section \<open>Listing, seeking and control\<close>

text \<open>\<^verbatim>\<open>elapsed\<close> is the time between the two clock reads of the handler; the result is
  the listing and its length in bytes.\<close>

definition sys_getdents64 :: "('i, 's) dispatch \<Rightarrow> ('i, 's) Proc \<Rightarrow> nat \<Rightarrow> nat \<Rightarrow> nat \<Rightarrow>
    ('i, 's) Proc \<times> (Dirent list \<times> nat) res" where
  "sys_getdents64 node st fd len elapsed =
     (case get_fd st fd of
        Ok (Some h) \<Rightarrow>
          if elapsed > 5000000000 then (st, Ok ([], 0))
          else (case getdents node (fs st) (ofiles st ! h) len of
                  (f, Ok r) \<Rightarrow> (set_file h f st, Ok r)
                | (f, Err _) \<Rightarrow> (set_file h f st, Ok ([], 0))
                | (f, Panic) \<Rightarrow> (st, Panic))
      | _ \<Rightarrow> (st, Panic))"

definition sys_lseek :: "('i, 's) dispatch \<Rightarrow> ('i, 's) Proc \<Rightarrow> nat \<Rightarrow> usize \<Rightarrow> nat \<Rightarrow> ('i, 's) Proc \<times> usize res" where
  "sys_lseek node st fd off whence =
     (case (if whence = 0 then Some (SET off)
            else if whence = 1 then Some (CURRENT (as_isize off))
            else if whence = 2 then Some (END (as_isize off))
            else None) of
        None \<Rightarrow> (st, Err EINVAL)
      | Some from \<Rightarrow>
          with_fd st fd EBADF (\<lambda>h.
            case file_seek node (fs st) (ofiles st ! h) from of (f, r) \<Rightarrow> (set_file h f st, r)))"

definition sys_ioctl :: "('i, 's) dispatch \<Rightarrow> ('i, 's) Proc \<Rightarrow> nat \<Rightarrow> usize \<Rightarrow> usize \<Rightarrow> ('i, 's) Proc \<times> usize res" where
  "sys_ioctl node st fd request arg =
     with_fd st fd EINVAL (\<lambda>h.
       case i_ioctl (node (inner (ofiles st ! h))) (fs st) request arg of
         (s, r) \<Rightarrow> (st\<lparr>fs := s\<rparr>, case r of Err _ \<Rightarrow> Err ENOTTY | x \<Rightarrow> x))"

datatype FcntlCmd = DUPFD | GETFD | SETFD | GETFL | SETFL | GETLK | SETLK | SETLKW | DUPFDCLOEXEC

definition fcntl_cmd :: "nat \<Rightarrow> FcntlCmd option" where
  "fcntl_cmd n =
     (if n = 0 then Some DUPFD else if n = 1 then Some GETFD else if n = 2 then Some SETFD
      else if n = 3 then Some GETFL else if n = 4 then Some SETFL else if n = 5 then Some GETLK
      else if n = 6 then Some SETLK else if n = 7 then Some SETLKW
      else if n = 0x406 then Some DUPFDCLOEXEC else None)"

definition sys_fcntl :: "('i, 's) Proc \<Rightarrow> nat \<Rightarrow> nat \<Rightarrow> u64 \<Rightarrow> ('i, 's) Proc \<times> nat res" where
  "sys_fcntl st fd cmd arg =
     (case fcntl_cmd cmd of
        None \<Rightarrow> (st, Err EINVAL)
      | Some c \<Rightarrow>
          with_fd st fd EBADF (\<lambda>h.
            case c of
              DUPFD \<Rightarrow> sys_dup st fd
            | DUPFDCLOEXEC \<Rightarrow> sys_dup st fd
            | GETFD \<Rightarrow> (st, Ok 1)
            | GETFL \<Rightarrow> (st, Ok (unat (fflags (ofiles st ! h))))
            | SETFL \<Rightarrow>
                (case set_fd (set_file h ((ofiles st ! h)\<lparr>fflags := open_flags_truncate arg\<rparr>) st) fd h of
                   Ok st' \<Rightarrow> (st', Ok 0) | _ \<Rightarrow> (st, Panic))
            | _ \<Rightarrow> (st, Ok 0)))"

text \<open>\<open>times\<close> is the user's pair, if its pointer is valid; \<open>now\<close> is \<^verbatim>\<open>current_timespec()\<close>
  and \<open>path\<close> the path argument, if its pointer is valid.\<close>

definition utime_of :: "TimeSpec \<Rightarrow> TimeSpec \<Rightarrow> TimeSpec" where
  "utime_of now t = (if nsec t = UTIME_NOW then now else t)"

definition sys_utimensat :: "('i, 's) dispatch \<Rightarrow> ('i, 's) Proc \<Rightarrow> TimeSpec \<Rightarrow> int \<Rightarrow> string option \<Rightarrow>
    (TimeSpec \<times> TimeSpec) option \<Rightarrow> ('i, 's) Proc \<times> nat res" where
  "sys_utimensat node st now dir_fd path tms =
     (let (a, m) = (case tms of None \<Rightarrow> (now, now) | Some (t0, t1) \<Rightarrow> (utime_of now t0, utime_of now t1)) in
      case path of
        None \<Rightarrow>
          with_fd st (nat (dir_fd mod 2 ^ 64)) EBADF (\<lambda>h.
            case i_utimes (node (inner (ofiles st ! h))) (fs st) a m of (s, r) \<Rightarrow> (st\<lparr>fs := s\<rparr>, rmap (\<lambda>_. 0) r))
      | Some p \<Rightarrow>
          if p = ''/dev/null/invalid'' then (st, Ok 0)
          else andthen (fd_open node st dir_fd p O_RDONLY) (\<lambda>st1 f.
                 case i_utimes (node (inner f)) (fs st1) a m of (s, r) \<Rightarrow> (st1\<lparr>fs := s\<rparr>, rmap (\<lambda>_. 0) r)))"

definition sys_readlinkat :: "('i, 's) dispatch \<Rightarrow> ('i, 's) Proc \<Rightarrow> int \<Rightarrow> string \<Rightarrow> nat \<Rightarrow> ('i, 's) Proc \<times> string res" where
  "sys_readlinkat node st dir_fd name buffer_size =
     andthen (fd_open node st dir_fd name O_RDONLY) (\<lambda>st1 f.
       andthen (st1, file_type node (fs st1) f) (\<lambda>st2 ftype.
         if ftype \<noteq> Link then (st2, Err EINVAL)
         else (case file_open node (mounts st2) (fs st2) (path_from name) O_RDONLY of
                 (s, r) \<Rightarrow> andthen (st2\<lparr>fs := s\<rparr>, r) (\<lambda>st3 g.
                   (st3, rmap (take buffer_size) (i_resolve_link (node (inner g)) (fs st3)))))))"

section \<open>Copying\<close>

text \<open>A zeroed buffer of \<open>n\<close> bytes after a read put \<open>d\<close> at its start.\<close>

definition filled :: "nat \<Rightarrow> u8 list \<Rightarrow> u8 list" where
  "filled n d = d @ replicate (n - length d) 0"

definition sys_sendfile :: "('i, 's) dispatch \<Rightarrow> ('i, 's) Proc \<Rightarrow> nat \<Rightarrow> nat \<Rightarrow> usize \<Rightarrow> nat \<Rightarrow> ('i, 's) Proc \<times> nat res" where
  "sys_sendfile node st out_fd in_fd off count =
     with_fd st out_fd EINVAL (\<lambda>ho. with_fd st in_fd EINVAL (\<lambda>hi.
       andthen (if off \<noteq> 0 then (st, Ok off)
                else case file_seek node (fs st) (ofiles st ! hi) (CURRENT 0) of (f, r) \<Rightarrow> (set_file hi f st, r))
         (\<lambda>st1 curr_off.
           andthen (st1, file_size node (fs st1) (ofiles st1 ! hi)) (\<lambda>st2 sz.
             let rlen = min (usub sz curr_off) count in
             andthen (if off = 0 then on_file hi st2 (file_read node (fs st2) (ofiles st2 ! hi) rlen)
                      else case file_readat node (fs st2) (ofiles st2 ! hi) off rlen of (s, r) \<Rightarrow> (st2\<lparr>fs := s\<rparr>, r))
               (\<lambda>st3 d.
                 case (if off = 0 then set_fd st3 in_fd hi else Ok st3) of
                   Ok st4 \<Rightarrow> on_file ho st4 (file_write node (fs st4) (ofiles st4 ! ho) (filled rlen d))
                 | _ \<Rightarrow> (st3, Panic))))))"

text \<open>The offsets are the values behind the user pointers, when these are valid, and are
  returned as the handler leaves them.\<close>

definition sys_copy_file_range :: "('i, 's) dispatch \<Rightarrow> ('i, 's) Proc \<Rightarrow> nat \<Rightarrow> usize option \<Rightarrow> nat \<Rightarrow> usize option \<Rightarrow>
    nat \<Rightarrow> nat \<Rightarrow> ('i, 's) Proc \<times> (nat \<times> usize option \<times> usize option) res" where
  "sys_copy_file_range node st fd_in off_in fd_out off_out n flags =
     (if flags \<noteq> 0 then (st, Panic)
      else with_fd st fd_in EBADF (\<lambda>hi. with_fd st fd_out EBADF (\<lambda>ho.
        andthen (case off_in of
                   Some o_in \<Rightarrow> (case file_readat node (fs st) (ofiles st ! hi) o_in n of
                      (s, r) \<Rightarrow> (st\<lparr>fs := s\<rparr>, rmap (\<lambda>d. (d, Some (uadd o_in (length d)))) r))
                 | None \<Rightarrow> (case on_file hi st (file_read node (fs st) (ofiles st ! hi) n) of
                      (st', r) \<Rightarrow> (st', rmap (\<lambda>d. (d, None)) r)))
          (\<lambda>st1 (d, off_in').
             if length d = 0 then (st1, Ok (0, off_in', off_out))
             else case off_out of
                Some o_out \<Rightarrow> (case file_writeat node (fs st1) (ofiles st1 ! ho) o_out d of
                   (s, r) \<Rightarrow> (st1\<lparr>fs := s\<rparr>, rmap (\<lambda>k. (length d, off_in', Some (uadd o_out k))) r))
              | None \<Rightarrow> (case on_file ho st1 (file_write node (fs st1) (ofiles st1 ! ho) d) of
                   (st', r) \<Rightarrow> (st', rmap (\<lambda>_. (length d, off_in', None)) r))))))"

definition sys_renameat2 :: "('i, 's) dispatch \<Rightarrow> ('i, 's) Proc \<Rightarrow> int \<Rightarrow> string \<Rightarrow> int \<Rightarrow> string \<Rightarrow> u64 \<Rightarrow>
    ('i, 's) Proc \<times> nat res" where
  "sys_renameat2 node st olddir_fd oldpath newdir_fd newpath flags =
     (let fl = open_flags_truncate flags in
      andthen (fd_open node st olddir_fd oldpath fl) (\<lambda>st1 old_file.
        andthen (st1, file_type node (fs st1) old_file) (\<lambda>st1 ty.
          if ty = File then
            andthen (fd_open node st1 newdir_fd newpath (O_CREAT OR fl)) (\<lambda>st2 new_file.
              andthen (st2, file_size node (fs st2) old_file) (\<lambda>st2 sz.
                case file_read node (fs st2) old_file sz of
                  ((s3, _), r3) \<Rightarrow> andthen (st2\<lparr>fs := s3\<rparr>, r3) (\<lambda>st3 d.
                    case file_write node (fs st3) new_file (filled sz d) of
                      ((s4, _), r4) \<Rightarrow> andthen (st3\<lparr>fs := s4\<rparr>, r4) (\<lambda>st4 _.
                        case i_truncate (node (inner new_file)) (fs st4) sz of
                          (s5, r5) \<Rightarrow> (st4\<lparr>fs := s5\<rparr>, rmap (\<lambda>_. 0) r5)))))
          else if ty = Directory then
            andthen (fd_open node st1 newdir_fd newpath (O_CREAT OR O_DIRECTORY OR fl)) (\<lambda>st2 _. (st2, Ok 0))
          else (st1, Panic))))"

section \<open>Truncation, links and limits\<close>

definition sys_ftruncate :: "('i, 's) dispatch \<Rightarrow> ('i, 's) Proc \<Rightarrow> usize \<Rightarrow> usize \<Rightarrow> ('i, 's) Proc \<times> nat res" where
  "sys_ftruncate node st fd n =
     (if fd = USIZE - 1 then (st, Err EPERM)
      else with_fd st fd EINVAL (\<lambda>h.
        case i_truncate (node (inner (ofiles st ! h))) (fs st) n of (s, r) \<Rightarrow> (st\<lparr>fs := s\<rparr>, rmap (\<lambda>_. 0) r)))"

definition sys_truncate :: "('i, 's) dispatch \<Rightarrow> ('i, 's) Proc \<Rightarrow> string \<Rightarrow> usize \<Rightarrow> ('i, 's) Proc \<times> nat res" where
  "sys_truncate node st pathname n =
     (case file_open node (mounts st) (fs st) (path_from pathname) O_WRONLY of
        (s, r) \<Rightarrow> andthen (st\<lparr>fs := s\<rparr>, r) (\<lambda>st1 f.
          case i_truncate (node (inner f)) (fs st1) n of (s', r') \<Rightarrow> (st1\<lparr>fs := s'\<rparr>, rmap (\<lambda>_. 0) r')))"

definition sys_symlinkat :: "('i, 's) dispatch \<Rightarrow> ('i, 's) Proc \<Rightarrow> string \<Rightarrow> int \<Rightarrow> string \<Rightarrow> ('i, 's) Proc \<times> nat res" where
  "sys_symlinkat node st target newdir_fd linkpath =
     andthen (st, fd_resolve st newdir_fd linkpath) (\<lambda>st p.
       case file_open node (mounts st) (fs st) (path_dir p) O_DIRECTORY of
         (s, r) \<Rightarrow> andthen (st\<lparr>fs := s\<rparr>, r) (\<lambda>st1 d.
           case i_symlink (node (inner d)) (fs st1) (filename p) target of
             (s', r') \<Rightarrow> (st1\<lparr>fs := s'\<rparr>, rmap (\<lambda>_. 0) r')))"

definition sys_linkat :: "('i, 's) dispatch \<Rightarrow> ('i, 's) Proc \<Rightarrow> int \<Rightarrow> string \<Rightarrow> ('i, 's) Proc \<times> nat res" where
  "sys_linkat node st olddirfd oldpath =
     andthen (fd_open node st olddirfd oldpath O_RDONLY) (\<lambda>st1 _. (st1, Ok 0))"

definition sys_umask :: "('i, 's) Proc \<Rightarrow> nat \<Rightarrow> ('i, 's) Proc \<times> nat res" where
  "sys_umask st m = (st\<lparr>umask := m AND 0x1FF\<rparr>, Ok (umask st))"

definition sys_flock :: "('i, 's) Proc \<Rightarrow> nat \<Rightarrow> u64 \<Rightarrow> ('i, 's) Proc \<times> nat res" where
  "sys_flock st fd operation =
     with_fd st fd EBADF (\<lambda>_.
       let base_op = operation AND NOT 4 in
       if base_op = 1 \<or> base_op = 2 \<or> base_op = 8 then (st, Ok 0) else (st, Err EINVAL))"

text \<open>The limit the caller passes, if any; the result is the old limit it is given, if it asked.\<close>

definition sys_prlimit64 :: "('i, 's) Proc \<Rightarrow> nat \<Rightarrow> nat option \<Rightarrow> bool \<Rightarrow> ('i, 's) Proc \<times> nat option" where
  "sys_prlimit64 st resource new_limit want_old =
     (if resource = 3 \<or> resource = 4 \<or> resource = 7 then
        let lim = (case new_limit of Some n \<Rightarrow> (rlimits st)[resource := n] | None \<Rightarrow> rlimits st)
        in (st\<lparr>rlimits := lim\<rparr>, if want_old then Some (lim ! resource) else None)
      else (st, None))"

section \<open>The table invariant\<close>

definition fd_wf :: "('i, 's) Proc \<Rightarrow> bool" where
  "fd_wf st \<longleftrightarrow> length (rlimits st) = 8 \<and> rlimits st ! 7 \<le> length (fd_table st) \<and>
     (\<forall>h. Some h \<in> set (fd_table st) \<longrightarrow> h < length (ofiles st))"

lemma find_free_None: "find_free t limit = None \<longleftrightarrow> (\<forall>i < length t. i < limit \<longrightarrow> t ! i \<noteq> None)"
  by (auto simp: find_free_def find_None_iff in_set_enumerate_eq)

lemma find_free_Some:
  "find_free t limit = Some i \<Longrightarrow> i < length t \<and> i < limit \<and> t ! i = None \<and> (\<forall>j < i. t ! j \<noteq> None)"
proof -
  assume "find_free t limit = Some i"
  then obtain k where k: "k < length t" "t ! k = None \<and> k < limit" "i = k"
    "\<forall>j < k. \<not> (t ! j = None \<and> j < limit)"
    by (auto simp: find_free_def find_Some_iff nth_enumerate_eq)
  then show ?thesis by auto
qed

lemma fd_wf_get: "fd_wf st \<Longrightarrow> get_fd st fd = (if fd < rlimits st ! 7 then Ok (fd_table st ! fd) else Ok None)"
  by (auto simp: fd_wf_def get_fd_def index_res_def)

lemma fd_wf_alloc:
  assumes "fd_wf st" "alloc_fd st = (st', r)"
  shows "st' = st" "\<And>i. r = Some i \<Longrightarrow> i < rlimits st ! 7 \<and> fd_table st ! i = None \<and> (\<forall>j < i. fd_table st ! j \<noteq> None)"
    "r = None \<Longrightarrow> \<forall>j < rlimits st ! 7. fd_table st ! j \<noteq> None"
  using assms find_free_Some [of "fd_table st" "rlimits st ! 7"]
  by (auto simp: alloc_fd_def fd_wf_def find_free_None split: option.splits if_splits)

lemma fd_wf_set:
  assumes "fd_wf st" "h < length (ofiles st)"
  shows "\<exists>st'. set_fd st fd h = Ok st' \<and> fd_wf st' \<and> ofiles st' = ofiles st \<and>
    (\<forall>j. get_fd st' j = (if j = fd \<and> fd < rlimits st ! 7 then Ok (Some h) else get_fd st j))"
proof (cases "fd < rlimits st ! 7")
  case True
  let ?st = "st\<lparr>fd_table := (fd_table st)[fd := Some h]\<rparr>"
  have wf: "fd_wf ?st" using assms by (auto simp: fd_wf_def dest!: subsetD [OF set_update_subset_insert])
  have "set_fd st fd h = Ok ?st" using True assms(1) by (auto simp: set_fd_def fd_wf_def)
  with wf True assms(1) show ?thesis by (auto simp: fd_wf_get nth_list_update fd_wf_def)
qed (use assms(1) in \<open>auto simp: set_fd_def\<close>)

lemma fd_wf_clear: "fd_wf st \<Longrightarrow> fd_wf (clear_fd st fd)"
  by (auto simp: fd_wf_def clear_fd_def dest!: subsetD [OF set_update_subset_insert])

lemma fd_open_table:
  "fd_open node st fd name flags = (st', r) \<Longrightarrow> \<exists>s. st' = st\<lparr>fs := s\<rparr>"
  by (auto simp: fd_open_def split: res.splits prod.splits intro: exI [of _ "fs st"])

lemma fd_wf_fs: "fd_wf (st\<lparr>fs := s\<rparr>) = fd_wf st" "get_fd (st\<lparr>fs := s\<rparr>) = get_fd st"
  by (auto simp: fd_wf_def get_fd_def)

lemma fd_wf_push: "fd_wf st \<Longrightarrow> fd_wf (st\<lparr>ofiles := ofiles st @ [f]\<rparr>)"
  by (force simp: fd_wf_def)

lemma install_spec:
  assumes "fd_wf st"
  shows "(\<exists>fd st'. install st f e = (st', Ok fd) \<and> fd < rlimits st ! 7 \<and> get_fd st fd = Ok None \<and>
      (\<forall>j < fd. get_fd st j \<noteq> Ok None) \<and>
      (\<exists>h. get_fd st' fd = Ok (Some h) \<and> ofiles st' ! h = f) \<and>
      (\<forall>j. j \<noteq> fd \<longrightarrow> get_fd st' j = get_fd st j) \<and> fd_wf st' \<and> ofiles st' = ofiles st @ [f]) \<or>
    install st f e = (st, Err e) \<and> (\<forall>j < rlimits st ! 7. get_fd st j \<noteq> Ok None)"
proof (cases "alloc_fd st")
  case (Pair st1 r)
  note a = fd_wf_alloc [OF assms Pair]
  show ?thesis
  proof (cases r)
    case None
    then show ?thesis using a Pair by (simp add: install_def fd_wf_get [OF assms])
  next
    case (Some fd)
    let ?st = "st\<lparr>ofiles := ofiles st @ [f]\<rparr>"
    have wf: "fd_wf ?st" using fd_wf_push [OF assms] .
    have lt: "length (ofiles st) < length (ofiles ?st)" by simp
    obtain st' where st': "set_fd ?st fd (length (ofiles st)) = Ok st'" "fd_wf st'" "ofiles st' = ofiles ?st"
      "\<forall>j. get_fd st' j = (if j = fd \<and> fd < rlimits ?st ! 7 then Ok (Some (length (ofiles st))) else get_fd ?st j)"
      using fd_wf_set [OF wf lt, of fd] by blast
    have g: "get_fd ?st j = get_fd st j" for j by (simp add: get_fd_def)
    have "fd < rlimits st ! 7" "fd_table st ! fd = None" "\<forall>j < fd. fd_table st ! j \<noteq> None"
      using a(2) [OF Some] by blast+
    then show ?thesis
      using st' Some Pair a(1) g by (intro disjI1) (auto simp: install_def fd_wf_get [OF assms] nth_append)
  qed
qed

section \<open>Properties\<close>

text \<open>C12: \<^verbatim>\<open>openat\<close> returns the lowest free descriptor below the limit: when the path
  opens, either the new descriptor refers to exactly the opened file, every smaller
  descriptor was in use and every other descriptor is unchanged, or all descriptors
  below the limit are in use and the call fails with \<^verbatim>\<open>EMFILE\<close> leaving the table as it
  was; when the path does not open its error is returned and the table is unchanged.
  The table invariant is kept and no case panics unless opening does.\<close>

theorem openat_lowest_descriptor:
  assumes "fd_wf st" "fd_open node st dirfd name (open_flags_truncate flags) = (st1, r1)"
    and "sys_openat node st dirfd name flags = (st2, r2)"
  shows "fd_wf st2 \<and>
    (case r1 of
       Ok f \<Rightarrow>
         (case r2 of
            Ok fd \<Rightarrow> fd < rlimits st ! 7 \<and> get_fd st fd = Ok None \<and> (\<forall>j < fd. get_fd st j \<noteq> Ok None) \<and>
              (\<exists>h. get_fd st2 fd = Ok (Some h) \<and> ofiles st2 ! h = f) \<and>
              (\<forall>j. j \<noteq> fd \<longrightarrow> get_fd st2 j = get_fd st j)
          | Err e \<Rightarrow> e = EMFILE \<and> st2 = st1 \<and> (\<forall>j < rlimits st ! 7. get_fd st j \<noteq> Ok None)
          | Panic \<Rightarrow> False)
     | Err e \<Rightarrow> r2 = Err e \<and> st2 = st1 \<and> get_fd st2 = get_fd st
     | Panic \<Rightarrow> r2 = Panic)"
proof -
  obtain s where st1: "st1 = st\<lparr>fs := s\<rparr>" using fd_open_table [OF assms(2)] by blast
  have wf: "fd_wf st1" and g: "get_fd st1 = get_fd st" and l: "rlimits st1 = rlimits st"
    using assms(1) st1 by (simp_all add: fd_wf_fs)
  show ?thesis
  proof (cases r1)
    case (Ok f)
    then have i: "install st1 f EMFILE = (st2, r2)" using assms(2,3) by (simp add: sys_openat_def andthen_def)
    from install_spec [OF wf, of f EMFILE] i Ok g l wf show ?thesis
      by (elim disjE exE conjE) auto
  qed (use assms(2,3) wf g in \<open>auto simp: sys_openat_def andthen_def\<close>)
qed

text \<open>A duplicated descriptor is the lowest free one and refers to the same open
  file, so both share one offset: reading through either moves the offset seen through
  both, and closing one leaves the other open.\<close>

theorem dup_shares_the_open_file:
  assumes "fd_wf st" "get_fd st fd = Ok (Some h)" "sys_dup st fd = (st', Ok fd')"
  shows "fd' \<noteq> fd \<and> fd_wf st' \<and> get_fd st fd' = Ok None \<and> (\<forall>j < fd'. get_fd st j \<noteq> Ok None) \<and>
    get_fd st' fd' = Ok (Some h) \<and> get_fd st' fd = Ok (Some h) \<and>
    get_fd (fst (sys_close st' fd)) fd' = Ok (Some h) \<and>
    fst (sys_read node st' fd' n) = fst (sys_read node st' fd n)"
proof -
  obtain st1 r where a: "alloc_fd st = (st1, r)" by fastforce
  have r: "r = Some fd'" and d: "sys_dup3 st1 fd fd' = (st', Ok fd')"
    using assms(3) a by (auto simp: sys_dup_def sys_dup3_def with_fd_def split: option.splits res.splits)
  note al = fd_wf_alloc [OF assms(1) a]
  have fresh: "fd' < rlimits st ! 7" "fd_table st ! fd' = None" "\<forall>j < fd'. fd_table st ! j \<noteq> None"
    using al(2) [OF r] by blast+
  have h: "fd < rlimits st ! 7" "fd_table st ! fd = Some h"
    using assms(2) by (auto simp: fd_wf_get [OF assms(1)] split: if_splits)
  have "h < length (ofiles st)"
    using h assms(1) by (auto simp: fd_wf_def) (metis nth_mem order.strict_trans2)
  then obtain st2 where st2: "set_fd st fd' h = Ok st2" "fd_wf st2"
    "\<forall>j. get_fd st2 j = (if j = fd' \<and> fd' < rlimits st ! 7 then Ok (Some h) else get_fd st j)"
    using fd_wf_set [OF assms(1), of h fd'] by blast
  then have st': "st' = st2" using d al(1) assms(2) by (simp add: sys_dup3_def with_fd_def)
  have neq: "fd' \<noteq> fd" using fresh(2) h(2) by auto
  have g: "get_fd st' fd' = Ok (Some h)" "get_fd st' fd = Ok (Some h)"
    using st2(3) st' fresh(1) neq assms(2) by auto
  have "get_fd (clear_fd st' fd) fd' = get_fd st' fd'"
    using neq by (auto simp: get_fd_def clear_fd_def index_res_def)
  then show ?thesis
    using neq st2(2) st' g fresh assms(1) by (simp add: fd_wf_get sys_close_def sys_read_def)
qed

lemma uadd_foff: "foff f + n < USIZE \<Longrightarrow> foff (advance f (Ok n)) = foff f + n"
  by (simp add: advance_def uadd_def)

lemma inner_advance [simp]: "inner (advance f r) = inner f"
  by (simp add: advance_def split: res.splits)

lemma readv_loop_regular:
  assumes "inner (ofiles st ! h) = HFile i" "ram_wf (rs_phys (fs st), rs_files (fs st) i)" "h < length (ofiles st)"
    and "foff (ofiles st ! h) + sum_list ns < USIZE"
  shows "\<exists>st' ds. readv_loop (ram_inode addr) h st ns = (st', Ok ds) \<and> fs st' = fs st \<and>
    concat ds = take (sum_list ns) (drop (foff (ofiles st ! h)) (contents (rs_phys (fs st)) (rs_files (fs st) i))) \<and>
    foff (ofiles st' ! h) = foff (ofiles st ! h) + length (concat ds)"
  using assms
proof (induction ns arbitrary: st)
  case (Cons n ns)
  let ?c = "contents (rs_phys (fs st)) (rs_files (fs st) i)"
  let ?f = "ofiles st ! h"
  let ?d = "take n (drop (foff ?f) ?c)"
  let ?k = "length ?d"
  have "?k \<le> n" by simp
  then have small: "foff ?f + ?k + sum_list ns < USIZE" using Cons.prems(4) by simp
  let ?f1 = "advance ?f (Ok ?k)"
  let ?st = "set_file h ?f1 (st\<lparr>fs := fs st\<rparr>)"
  have rd: "file_read (ram_inode addr) (fs st) ?f n = ((fs st, ?f1), Ok ?d)"
    using ram_regular.read_file [where node = "ram_inode addr" and f = ?f and i = i, OF _ Cons.prems(2)] Cons.prems(1)
    by (simp add: min.commute)
  have f1: "ofiles ?st ! h = ?f1" "foff ?f1 = foff ?f + ?k" "inner ?f1 = HFile i"
    using Cons.prems(1,3) small by (simp_all add: set_file_def uadd_foff)
  obtain st' ds where ih: "readv_loop (ram_inode addr) h ?st ns = (st', Ok ds)" "fs st' = fs ?st"
    "concat ds = take (sum_list ns) (drop (foff ?f + ?k) ?c)" "foff (ofiles st' ! h) = foff ?f + ?k + length (concat ds)"
    using Cons.IH [of ?st] Cons.prems(2,3) f1 small by (auto simp: set_file_def)
  have "take (sum_list (n # ns)) (drop (foff ?f) ?c) = ?d @ take (sum_list ns) (drop (foff ?f + ?k) ?c)"
    by (cases "n \<le> length ?c - foff ?f") (simp_all add: take_add add.commute)
  then show ?case
    using ih rd by (auto simp: on_file_def andthen_def set_file_def)
qed simp

text \<open>\<^verbatim>\<open>readv\<close> on a regular file scatters one contiguous read: over a well-formed
  ramfs file the buffers, put together, are the bytes from the offset on, as many as
  the buffers hold or the file has left, and the offset moves past exactly them.\<close>

theorem readv_scatters_one_read:
  assumes "fd_wf st" "get_fd st fd = Ok (Some h)" "inner (ofiles st ! h) = HFile i"
    and "ram_wf (rs_phys (fs st), rs_files (fs st) i)" "foff (ofiles st ! h) + sum_list iov < USIZE"
  shows "\<exists>st' ds. sys_readv (ram_inode addr) st fd iov = (st', Ok ds) \<and> fs st' = fs st \<and>
    concat ds = take (sum_list iov) (drop (foff (ofiles st ! h)) (contents (rs_phys (fs st)) (rs_files (fs st) i))) \<and>
    foff (ofiles st' ! h) = foff (ofiles st ! h) + length (concat ds)"
proof -
  have "h < length (ofiles st)"
    using assms(1,2) by (auto simp: fd_wf_get fd_wf_def split: if_splits) (metis nth_mem order.strict_trans2)
  from readv_loop_regular [where addr = addr, OF assms(3,4) this assms(5)] show ?thesis
    using assms(2) by (simp add: sys_readv_def with_fd_def)
qed

text \<open>Raising the descriptor limit past the table breaks it: after \<^verbatim>\<open>prlimit64\<close>
  sets \<^verbatim>\<open>RLIMIT_NOFILE\<close> to \<open>n\<close>, looking up any descriptor between the length of the
  table and \<open>n\<close> indexes out of range, and the first \<^verbatim>\<open>read\<close> on it panics.\<close>

theorem raised_limit_makes_read_panic:
  assumes "fd_wf st" "length (fd_table st) \<le> fd" "fd < n" "sys_prlimit64 st 7 (Some n) w = (st', r)"
  shows "get_fd st fd = Ok None \<and> get_fd st' fd = Panic \<and> snd (sys_read node st' fd k) = Ready Panic"
  using assms by (auto simp: sys_prlimit64_def fd_wf_def get_fd_def index_res_def sys_read_def Let_def)

text \<open>\<^verbatim>\<open>renameat2\<close> without flags never renames a regular file: it creates the new
  name and then fails, because the destination is opened without write access.\<close>

theorem rename_regular_file_never_succeeds:
  assumes "fd_open node st olddir old 0 = (st1, Ok f)" "file_type node (fs st1) f = Ok File"
  shows "\<not> is_ok (snd (sys_renameat2 node st olddir old newdir new 0))"
proof -
  have t: "open_flags_truncate 0 = 0" by (simp add: open_flags_truncate_def)
  have ro: "snd (file_write node s g d) = Err EPERM" if "fflags g = O_CREAT OR 0" for s g d
    using that by (simp add: file_write_def check_writeable_def contains_def open_flags_defs)
  have fl: "fflags g = O_CREAT OR 0" if "fd_open node st1 newdir new (O_CREAT OR 0) = (st2, Ok g)" for st2 g
    using that by (auto simp: fd_open_def file_open_def rmap_eq_Ok split: res.splits prod.splits)
  show ?thesis
  proof (cases "fd_open node st1 newdir new (O_CREAT OR 0)")
    case (Pair st2 r2)
    show ?thesis
    proof (cases r2)
      case (Ok g)
      then show ?thesis
        using assms Pair ro [OF fl]
        by (auto simp: sys_renameat2_def t andthen_def Let_def split: res.splits prod.splits) (metis res.distinct(1) snd_conv)+
    qed (use assms Pair in \<open>simp_all add: sys_renameat2_def t andthen_def\<close>)
  qed
qed

definition demo_proc :: "(ram_handle, RamState) Proc" where
  "demo_proc = \<lparr>fs = demo_world, mounts = [([], HDir 0)], ofiles = [demo_dir, demo_file],
     fd_table = [Some 0, None, Some 1], rlimits = (replicate 8 0)[7 := 3], curr_dir = 0, umask = 0\<rparr>"

lemma demo_proc_wf: "fd_wf demo_proc"
  by (auto simp: fd_wf_def demo_proc_def)

lemma demo_proc_open:
  "fd_open (ram_inode (\<lambda>_. 0)) demo_proc AT_CWD ''a'' 0 =
     (demo_proc, Ok \<lparr>inner = HFile 1, path_buf = [''a''], foff = 0, fflags = 0\<rparr>)"
  by (simp add: fd_open_def fd_resolve_def demo_proc_def AT_CWD_def SLASH_def path_join_def push_component_def
      demo_dir_def file_open_def open_node_def get_mounted_def starts_with_def trim_start_def levels_def path_dir_def
      open_last_def filename_def ram_dir_inode_def ram_lookup_def demo_world_def contains_def O_CREAT_def)

theorem openat_lowest_descriptor_witness:
  "\<exists>st2. sys_openat (ram_inode (\<lambda>_. 0)) demo_proc AT_CWD ''a'' 0 = (st2, Ok 1) \<and>
     (\<exists>h. get_fd st2 1 = Ok (Some h) \<and> inner (ofiles st2 ! h) = HFile 1)"
proof -
  have o: "fd_open (ram_inode (\<lambda>_. 0)) demo_proc AT_CWD ''a'' (open_flags_truncate 0) =
      (demo_proc, Ok \<lparr>inner = HFile 1, path_buf = [''a''], foff = 0, fflags = 0\<rparr>)"
    using demo_proc_open by (simp add: open_flags_truncate_def)
  obtain st2 r2 where s: "sys_openat (ram_inode (\<lambda>_. 0)) demo_proc AT_CWD ''a'' 0 = (st2, r2)" by fastforce
  moreover have "r2 = Ok 1"
    using s o by (auto simp: sys_openat_def andthen_def install_def alloc_fd_def find_free_def demo_proc_def set_fd_def)
  ultimately show ?thesis
    using openat_lowest_descriptor [OF demo_proc_wf o s] by auto
qed

theorem dup_shares_the_open_file_witness:
  "\<exists>st'. sys_dup demo_proc 2 = (st', Ok 1) \<and> get_fd st' 1 = get_fd st' 2"
proof -
  have g: "get_fd demo_proc 2 = Ok (Some 1)" by (simp add: get_fd_def demo_proc_def index_res_def)
  have "snd (sys_dup demo_proc 2) = Ok 1"
    by (simp add: sys_dup_def alloc_fd_def find_free_def demo_proc_def sys_dup3_def with_fd_def get_fd_def index_res_def
        set_fd_def)
  then obtain st' where d: "sys_dup demo_proc 2 = (st', Ok 1)" by (metis prod.collapse)
  with dup_shares_the_open_file [OF demo_proc_wf g d] show ?thesis by simp
qed

theorem readv_scatters_one_read_witness:
  "\<exists>st' ds. sys_readv (ram_inode (\<lambda>_. 0)) demo_proc 2 [1, 5] = (st', Ok ds) \<and> length (concat ds) = 1"
proof -
  have g: "get_fd demo_proc 2 = Ok (Some 1)" by (simp add: get_fd_def demo_proc_def index_res_def)
  have i: "inner (ofiles demo_proc ! 1) = HFile 1" "ram_wf (rs_phys (fs demo_proc), rs_files (fs demo_proc) 1)"
    "foff (ofiles demo_proc ! 1) + sum_list [1, 5] < USIZE"
    using two_files_wf by (simp_all add: demo_proc_def demo_file_def demo_world_def ram_wf_def USIZE_def)
  have "length (contents (rs_phys (fs demo_proc)) (rs_files (fs demo_proc) 1)) = 4096" "foff (ofiles demo_proc ! 1) = 4095"
    using length_contents [OF two_files_wf(1,2)] by (simp_all add: demo_proc_def demo_world_def file_a_def demo_file_def)
  with readv_scatters_one_read [where addr = "\<lambda>_. 0", OF demo_proc_wf g i] show ?thesis by auto
qed

theorem raised_limit_makes_read_panic_witness:
  "snd (sys_read (ram_inode (\<lambda>_. 0)) (fst (sys_prlimit64 demo_proc 7 (Some 10) False)) 3 1) = Ready Panic"
proof -
  have "length (fd_table demo_proc) \<le> 3" by (simp add: demo_proc_def)
  from raised_limit_makes_read_panic [OF demo_proc_wf this, of 10 False "fst (sys_prlimit64 demo_proc 7 (Some 10) False)"
      "snd (sys_prlimit64 demo_proc 7 (Some 10) False)" "ram_inode (\<lambda>_. 0)" 1]
  show ?thesis by simp
qed

theorem rename_regular_file_never_succeeds_witness:
  "\<not> is_ok (snd (sys_renameat2 (ram_inode (\<lambda>_. 0)) demo_proc AT_CWD ''a'' AT_CWD ''c'' 0))"
proof (rule rename_regular_file_never_succeeds [OF demo_proc_open])
  show "file_type (ram_inode (\<lambda>_. 0)) (fs demo_proc) \<lparr>inner = HFile 1, path_buf = [''a''], foff = 0, fflags = 0\<rparr> = Ok File"
    by (simp add: file_type_def ram_file_inode_def ram_file_stat_def file_type_from_values)
qed

end
