(* ===== verification/Ordered_Map.thy ===== *)
theory Ordered_Map
  imports Kernel_Prelude "HOL-Library.Multiset"
begin

text \<open>
  \<^verbatim>\<open>BTreeMap\<close> of the standard library, which the kernel uses for its futex table and
  its tables of shared memory, semaphores and message queues: an association list in
  increasing order of the keys.  Clients rely on the locale \<open>key_store\<close>.
\<close>

fun bm_insert :: "nat \<Rightarrow> 'v \<Rightarrow> (nat \<times> 'v) list \<Rightarrow> (nat \<times> 'v) list" where
  "bm_insert k v [] = [(k, v)]"
| "bm_insert k v ((k', v') # m) =
     (if k < k' then (k, v) # (k', v') # m
      else if k = k' then (k, v) # m
      else (k', v') # bm_insert k v m)"

definition bm_get :: "(nat \<times> 'v) list \<Rightarrow> nat \<Rightarrow> 'v option" where
  "bm_get m k = map_of m k"

definition bm_remove :: "nat \<Rightarrow> (nat \<times> 'v) list \<Rightarrow> (nat \<times> 'v) list" where
  "bm_remove k m = filter (\<lambda>(k', _). k' \<noteq> k) m"

text \<open>\<^verbatim>\<open>keys().cloned().max()\<close>\<close>

definition bm_max_key :: "(nat \<times> 'v) list \<Rightarrow> nat option" where
  "bm_max_key m = (if m = [] then None else Some (fold max (map fst m) 0))"

definition bm_wf :: "(nat \<times> 'v) list \<Rightarrow> bool" where
  "bm_wf m \<longleftrightarrow> sorted_wrt (<) (map fst m)"

lemma bm_wf_Nil [simp]: "bm_wf []"
  by (simp add: bm_wf_def)

lemma bm_keys_insert: "fst ` set (bm_insert k v m) = insert k (fst ` set m)"
  by (induction k v m rule: bm_insert.induct) auto

lemma bm_wf_insert: "bm_wf m \<Longrightarrow> bm_wf (bm_insert k v m)"
proof (induction m)
  case (Cons x m)
  obtain k' v' where x: "x = (k', v')" by fastforce
  have m: "bm_wf m" "\<forall>y \<in> fst ` set m. k' < y" using Cons.prems by (auto simp: bm_wf_def x)
  show ?case
  proof (cases "k' < k")
    case True
    have "\<forall>y \<in> fst ` set (bm_insert k v m). k' < y" using m(2) True by (simp add: bm_keys_insert)
    with Cons.IH [OF m(1)] True show ?thesis by (auto simp: bm_wf_def x)
  qed (use Cons.prems m in \<open>auto simp: bm_wf_def x\<close>)
qed (simp add: bm_wf_def)

lemma bm_get_insert: "bm_wf m \<Longrightarrow> bm_get (bm_insert k v m) k' = (if k' = k then Some v else bm_get m k')"
proof (induction m)
  case (Cons x m)
  then show ?case by (cases x) (auto simp: bm_get_def bm_wf_def)
qed (simp add: bm_get_def)

lemma bm_wf_remove: "bm_wf m \<Longrightarrow> bm_wf (bm_remove k m)"
  by (induction m) (auto simp: bm_wf_def bm_remove_def)

lemma bm_get_remove: "bm_get (bm_remove k m) k' = (if k' = k then None else bm_get m k')"
  by (induction m) (auto simp: bm_get_def bm_remove_def)

lemma fold_max_init: "b \<le> fold max xs (b::nat)"
  by (induction xs arbitrary: b) (auto intro: order.trans [OF max.cobounded2])

lemma fold_max_ge: "x \<in> set xs \<Longrightarrow> x \<le> fold max xs (b::nat)"
  by (induction xs arbitrary: b) (auto intro: order.trans [OF max.cobounded1 fold_max_init])

lemma bm_max_key_None: "bm_max_key m = None \<longleftrightarrow> m = []"
  by (simp add: bm_max_key_def)

lemma bm_max_key_bound: "bm_max_key m = Some k \<Longrightarrow> bm_get m k' \<noteq> None \<Longrightarrow> k' \<le> k"
  by (auto simp: bm_max_key_def bm_get_def split: if_splits intro!: fold_max_ge dest!: map_of_SomeD) force

section \<open>The contract of a store\<close>

locale key_store =
  fixes get :: "'m \<Rightarrow> nat \<Rightarrow> 'v option"
    and put :: "nat \<Rightarrow> 'v \<Rightarrow> 'm \<Rightarrow> 'm"
    and del :: "nat \<Rightarrow> 'm \<Rightarrow> 'm"
    and top :: "'m \<Rightarrow> nat option"
    and inv :: "'m \<Rightarrow> bool"
  assumes inv_put: "inv m \<Longrightarrow> inv (put k v m)"
    and inv_del: "inv m \<Longrightarrow> inv (del k m)"
    and get_put: "inv m \<Longrightarrow> get (put k v m) k' = (if k' = k then Some v else get m k')"
    and get_del: "inv m \<Longrightarrow> get (del k m) k' = (if k' = k then None else get m k')"
    and top_bound: "inv m \<Longrightarrow> get m k \<noteq> None \<Longrightarrow> \<exists>t. top m = Some t \<and> k \<le> t"
begin

text \<open>A key chosen past the largest one in use, as the private keys of the IPC tables are, is free.\<close>

lemma fresh_key: "inv m \<Longrightarrow> get m (Suc (case top m of Some t \<Rightarrow> t | None \<Rightarrow> b)) = None"
  using top_bound [of m "Suc (case top m of Some t \<Rightarrow> t | None \<Rightarrow> b)"]
  by (cases "top m"; cases "get m (Suc (case top m of Some t \<Rightarrow> t | None \<Rightarrow> b))") auto

lemma put_overwrites: "inv m \<Longrightarrow> get (put k v (put k w m)) = get (put k v m)"
  by (auto simp: get_put inv_put fun_eq_iff)

lemma put_commutes: "inv m \<Longrightarrow> k \<noteq> l \<Longrightarrow> get (put k v (put l w m)) = get (put l w (put k v m))"
  by (auto simp: get_put inv_put fun_eq_iff)

end

interpretation bm: key_store bm_get bm_insert bm_remove bm_max_key bm_wf
proof (unfold_locales, goal_cases)
  case (5 m k)
  then show ?case using bm_max_key_bound [of m] by (cases "bm_max_key m") (auto simp: bm_max_key_None bm_get_def)
qed (auto simp: bm_wf_insert bm_wf_remove bm_get_insert bm_get_remove)

section \<open>Values\<close>

lemma bm_values_insert_new:
  "bm_get m k = None \<Longrightarrow> mset (map snd (bm_insert k v m)) = add_mset v (mset (map snd m))"
  by (induction m) (auto simp: bm_get_def split: if_splits)

lemma bm_values_insert_old:
  "bm_wf m \<Longrightarrow> bm_get m k = Some w \<Longrightarrow> add_mset w (mset (map snd (bm_insert k v m))) = add_mset v (mset (map snd m))"
proof (induction m)
  case (Cons x m)
  obtain k' v' where x: "x = (k', v')" by fastforce
  have wf: "bm_wf m" "\<forall>y \<in> set m. k' < fst y" using Cons.prems(1) by (auto simp: bm_wf_def x)
  have in_m: "k \<in> fst ` set m" if "k \<noteq> k'"
    using Cons.prems(2) that by (force simp: bm_get_def x dest: map_of_SomeD)
  show ?case
  proof (cases "k = k'")
    case True
    with Cons.prems(2) x show ?thesis by (simp add: bm_get_def)
  next
    case False
    then have "k' < k" using in_m wf(2) by auto
    with Cons.IH [OF wf(1)] Cons.prems(2) False x show ?thesis by (simp add: bm_get_def add_mset_commute)
  qed
qed (simp add: bm_get_def)

end
