(* ===== verification/Byte_Order.thy ===== *)
theory Byte_Order
  imports Kernel_Prelude
begin

text \<open>
  The byte representation of integers in user memory: \<^verbatim>\<open>to_le_bytes\<close> and
  \<^verbatim>\<open>from_le_bytes\<close> of the standard library.
\<close>

fun le_bytes :: "nat \<Rightarrow> nat \<Rightarrow> u8 list" where
  "le_bytes 0 n = []"
| "le_bytes (Suc k) n = of_nat n # le_bytes k (n div 256)"

fun le_nat :: "u8 list \<Rightarrow> nat" where
  "le_nat [] = 0"
| "le_nat (b # bs) = unat b + 256 * le_nat bs"

definition i64_to_le :: "int \<Rightarrow> u8 list" where
  "i64_to_le i = le_bytes 8 (nat (i mod 2 ^ 64))"

definition i64_from_le :: "u8 list \<Rightarrow> int" where
  "i64_from_le bs = (if le_nat bs < 2 ^ 63 then int (le_nat bs) else int (le_nat bs) - 2 ^ 64)"

lemma length_le_bytes [simp]: "length (le_bytes k n) = k"
  by (induction k arbitrary: n) auto

lemma le_nat_le_bytes: "le_nat (le_bytes k n) = n mod 256 ^ k"
proof (induction k arbitrary: n)
  case (Suc k)
  have "unat (of_nat n :: u8) = n mod 256" by (simp add: unat_of_nat take_bit_eq_mod)
  then show ?case by (simp add: Suc.IH mod_mult2_eq)
qed simp

lemma le_nat_bound: "le_nat bs < 256 ^ length bs"
proof (induction bs)
  case (Cons b bs)
  have "unat b < 256" using unsigned_less [of b] by simp
  with Cons show ?case by simp
qed simp

lemma of_nat_eq_mod: "(n::nat) mod 256 = m mod 256 \<Longrightarrow> (of_nat n :: u8) = of_nat m"
  by (rule word_unat_eq_iff [THEN iffD2]) (simp add: unat_of_nat take_bit_eq_mod)

lemma le_bytes_le_nat: "length bs = k \<Longrightarrow> le_bytes k (le_nat bs) = bs"
proof (induction bs arbitrary: k)
  case (Cons b bs)
  have b: "unat b < 256" using unsigned_less [of b] by simp
  have "(of_nat (unat b + 256 * le_nat bs) :: u8) = of_nat (unat b)"
    by (rule of_nat_eq_mod) simp
  also have "\<dots> = b" by simp
  finally have "(of_nat (unat b + 256 * le_nat bs) :: u8) = b" .
  moreover have "(unat b + 256 * le_nat bs) div 256 = le_nat bs" using b by simp
  ultimately show ?case using Cons by (cases k) auto
qed simp

text \<open>Writing and reading back a 64-bit signed integer is the identity on its range.\<close>

lemma i64_round_trip: "- (2 ^ 63) \<le> i \<Longrightarrow> i < 2 ^ 63 \<Longrightarrow> i64_from_le (i64_to_le i) = i"
proof -
  assume r: "- (2 ^ 63) \<le> i" "i < 2 ^ 63"
  have "le_nat (i64_to_le i) = nat (i mod 2 ^ 64)"
    by (simp add: i64_to_le_def le_nat_le_bytes nat_mod_as_int)
  moreover have "i mod 2 ^ 64 = (if 0 \<le> i then i else i + 2 ^ 64)"
    using r by (auto intro!: int_mod_pos_eq [where q = "-1"])
  ultimately show ?thesis using r by (auto simp: i64_from_le_def)
qed

end
