(* ===== verification/Memory.thy ===== *)
theory Memory
  imports Frame
begin

text \<open>
  The address space of a user process: the memory areas of
  \<^verbatim>\<open>kernel/src/tasks/memset.rs\<close>, the allocation and mapping functions of
  \<^verbatim>\<open>kernel/src/tasks/task.rs\<close> and the memory system calls of
  \<^verbatim>\<open>kernel/src/syscall/mm.rs\<close>.  The page table is its leaf mapping from page
  addresses to frames; trackers own frames, and the operations report which
  trackers they drop, which pages they unmap and which pages they write back to a
  mapped file.
\<close>

section \<open>Memory areas\<close>

datatype MemType = CodeSection | Stack | Mmap | Shared | ShareFile

record MapTrack =
  vaddr :: usize
  tracker :: usize
  rwx :: nat

record MemArea =
  mtype :: MemType
  mtrackers :: "MapTrack list"
  area_file :: "nat option"
  offset :: usize
  start :: usize
  len :: usize

type_synonym page_table = "usize \<rightharpoonup> usize"

definition in_range :: "nat \<Rightarrow> nat \<Rightarrow> nat \<Rightarrow> bool" where
  "in_range s e x \<longleftrightarrow> s \<le> x \<and> x < e"

definition area_overlapping :: "MemArea \<Rightarrow> usize \<Rightarrow> usize \<Rightarrow> bool" where
  "area_overlapping a s e =
     (let self_end = start a + len a
      in \<not> ((s \<le> start a \<and> e \<le> start a) \<or> (s \<ge> self_end \<and> e \<ge> self_end)))"

definition area_contains :: "MemArea \<Rightarrow> usize \<Rightarrow> bool" where
  "area_contains a addr \<longleftrightarrow> start a \<le> addr \<and> addr < start a + len a"

text \<open>A page written back: the offset in the mapped file and the frame.\<close>

definition write_page :: "MemArea \<Rightarrow> MapTrack \<Rightarrow> usize \<times> usize" where
  "write_page a t = (usub (uadd (vaddr t) (offset a)) (start a), tracker t)"

definition write_back :: "MemArea \<Rightarrow> usize \<Rightarrow> usize \<Rightarrow> (usize \<times> usize) list" where
  "write_back a s e =
     (case area_file a of
        Some _ \<Rightarrow> map (write_page a) (filter (\<lambda>x. in_range s e (vaddr x)) (mtrackers a))
      | None \<Rightarrow> [])"

text \<open>What a subtraction does besides changing the area.\<close>

record sub_effect =
  unmapped :: "usize list"
  dropped :: "MapTrack list"
  written :: "(usize \<times> usize) list"

definition no_effect :: sub_effect where
  "no_effect = \<lparr>unmapped = [], dropped = [], written = []\<rparr>"

definition join_effect :: "sub_effect \<Rightarrow> sub_effect \<Rightarrow> sub_effect" where
  "join_effect x y = \<lparr>unmapped = unmapped x @ unmapped y, dropped = dropped x @ dropped y,
     written = written x @ written y\<rparr>"

definition area_sub :: "MemArea \<Rightarrow> usize \<Rightarrow> usize \<Rightarrow> MemArea \<times> MemArea option \<times> sub_effect" where
  "area_sub a s e =
     (if \<not> area_overlapping a s e then (a, None, no_effect)
      else let re = start a + len a in
        if in_range (start a) re s \<and> in_range (start a) re e then
          let a1 = a\<lparr>len := s - start a\<rparr>;
              wr = write_back a1 s e;
              kept = filter (\<lambda>x. \<not> in_range e re (vaddr x)) (mtrackers a);
              moved = filter (\<lambda>x. in_range e re (vaddr x)) kept
          in (a1\<lparr>mtrackers := filter (\<lambda>x. \<not> in_range e re (vaddr x)) kept\<rparr>,
              Some \<lparr>mtype = mtype a, mtrackers = moved, area_file = area_file a, offset = e - start a,
                    start = e, len = re - e\<rparr>,
              \<lparr>unmapped = [], dropped = filter (\<lambda>x. in_range e re (vaddr x)) (mtrackers a), written = wr\<rparr>)
        else if in_range s e (start a) \<and> in_range s e re then
          (a\<lparr>len := 0, mtrackers := []\<rparr>, None,
           \<lparr>unmapped = map vaddr (mtrackers a), dropped = mtrackers a,
            written = write_back (a\<lparr>len := 0\<rparr>) s e\<rparr>)
        else
          let a1 = (if in_range (start a) re s then a\<lparr>len := s - start a\<rparr>
                    else if in_range s e (start a) then a\<lparr>len := re - e, start := e\<rparr>
                    else a);
              wr = write_back a1 s e;
              stays = (\<lambda>x. in_range (start a1) (start a1 + len a1) (vaddr x));
              gone = filter (\<lambda>x. \<not> stays x) (mtrackers a)
          in (a1\<lparr>mtrackers := filter stays (mtrackers a)\<rparr>, None,
              \<lparr>unmapped = map vaddr gone, dropped = gone, written = wr\<rparr>))"

section \<open>Memory sets\<close>

definition memset_overlapping :: "MemArea list \<Rightarrow> usize \<Rightarrow> usize \<Rightarrow> bool" where
  "memset_overlapping ms s e \<longleftrightarrow> List.find (\<lambda>x. area_overlapping x s e) ms \<noteq> None"

text \<open>
  The pass of \<^verbatim>\<open>retain_mut\<close>: every area is reduced, the ones that become empty are
  dropped together with the trackers they still hold, and the split-off areas are
  collected in order.
\<close>

fun sub_pass :: "MemArea list \<Rightarrow> usize \<Rightarrow> usize \<Rightarrow> MemArea list \<times> MemArea list \<times> sub_effect" where
  "sub_pass [] s e = ([], [], no_effect)"
| "sub_pass (a # as) s e =
     (case area_sub a s e of (a', new, eff) \<Rightarrow>
      case sub_pass as s e of (as', news, effs) \<Rightarrow>
        ((if len a' \<noteq> 0 then a' # as' else as'),
         (case new of Some n \<Rightarrow> n # news | None \<Rightarrow> news),
         join_effect (if len a' \<noteq> 0 then eff else eff\<lparr>dropped := dropped eff @ mtrackers a'\<rparr>) effs))"

definition unmap_pages :: "page_table \<Rightarrow> usize list \<Rightarrow> page_table" where
  "unmap_pages pt vs = (\<lambda>v. if v \<in> set vs then None else pt v)"

definition sub_area :: "MemArea list \<Rightarrow> page_table \<Rightarrow> usize \<Rightarrow> usize \<Rightarrow> MemArea list \<times> page_table \<times> sub_effect" where
  "sub_area ms pt s e =
     (case sub_pass ms s e of (kept, news, eff) \<Rightarrow> (kept @ news, unmap_pages pt (unmapped eff), eff))"

section \<open>The memory of a process\<close>

record MemState =
  fa :: FrameAllocator
  pt :: page_table
  memset :: "MemArea list"
  heap :: usize
  shms :: "(usize \<times> usize) list"

text \<open>\<^verbatim>\<open>UserTask::map\<close> asserts that both addresses are page aligned.\<close>

fun map_pages :: "page_table \<Rightarrow> MapTrack list \<Rightarrow> page_table res" where
  "map_pages p [] = Ok p"
| "map_pages p (t # ts) =
     (if tracker t mod PAGE_SIZE \<noteq> 0 \<or> vaddr t mod PAGE_SIZE \<noteq> 0 then Panic
      else map_pages (p(vaddr t \<mapsto> tracker t)) ts)"

definition make_trackers :: "usize \<Rightarrow> usize list \<Rightarrow> MapTrack list" where
  "make_trackers va frames =
     map (\<lambda>(i, f). \<lparr>vaddr = (if va = 0 then va else va + i * PAGE_SIZE), tracker = f, rwx = 0\<rparr>)
       (enumerate 0 frames)"

text \<open>The stack area every process has exactly one of.\<close>

definition stack_area :: "MapTrack list \<Rightarrow> MemArea" where
  "stack_area ts = \<lparr>mtype = Stack, mtrackers = ts, area_file = None, offset = 0,
     start = 0x70000000, len = 0x10000000\<rparr>"

fun extend_first_stack :: "MemArea list \<Rightarrow> MapTrack list \<Rightarrow> MemArea list option" where
  "extend_first_stack [] ts = None"
| "extend_first_stack (a # as) ts =
     (if mtype a = Stack then Some (a\<lparr>mtrackers := mtrackers a @ ts\<rparr> # as)
      else map_option (Cons a) (extend_first_stack as ts))"

definition map_frames ::
  "MemState \<Rightarrow> usize \<Rightarrow> MemType \<Rightarrow> nat \<Rightarrow> nat option \<Rightarrow> usize \<Rightarrow> usize \<Rightarrow> usize \<Rightarrow>
   (MemState \<times> usize option) res" where
  "map_frames st va mt count f off s l =
     (if count = 0 then Panic
      else rbind (frame_alloc_much (fa st) count) (\<lambda>(fa', r).
        case r of
          None \<Rightarrow> Ok (st\<lparr>fa := fa'\<rparr>, None)
        | Some frames \<Rightarrow>
            let ts = make_trackers va frames in
            rbind (if va \<noteq> 0 then map_pages (pt st) ts else Ok (pt st)) (\<lambda>pt'.
              let ms' = (if mt = Stack then
                           (case extend_first_stack (memset st) ts of
                              Some ms \<Rightarrow> ms
                            | None \<Rightarrow> memset st @ [stack_area ts])
                         else memset st @ [\<lparr>mtype = mt, mtrackers = ts, area_file = f, offset = off, start = s, len = l\<rparr>])
              in Ok (st\<lparr>fa := fa', pt := pt', memset := ms'\<rparr>, Some (hd frames)))))"

text \<open>
  The segmented fallback of \<^verbatim>\<open>frame_alloc\<close>: segments of half the remaining pages, at
  least one and at most sixteen, until all are allocated or one segment fails.
\<close>

definition segment_size :: "nat \<Rightarrow> nat" where
  "segment_size remaining = min (max (remaining div 2) 1) 16"

function alloc_segments ::
  "FrameAllocator \<Rightarrow> nat \<Rightarrow> usize \<Rightarrow> MapTrack list \<Rightarrow> (FrameAllocator \<times> MapTrack list \<times> bool) res" where
  "alloc_segments f remaining va acc =
     (if remaining = 0 then Ok (f, acc, True)
      else rbind (frame_alloc_much f (segment_size remaining)) (\<lambda>(f', r).
        case r of
          None \<Rightarrow> Ok (f', acc, False)
        | Some frames \<Rightarrow>
            alloc_segments f' (remaining - segment_size remaining)
              (if va = 0 then va else va + segment_size remaining * PAGE_SIZE)
              (acc @ make_trackers va frames)))"
  by pat_completeness auto
termination
  by (relation "measure (\<lambda>(f, n, va, acc). n)") (auto simp: segment_size_def)

declare alloc_segments.simps [simp del]

text \<open>Dropping trackers that are not shared gives their frames back.\<close>

fun drop_frames :: "FrameAllocator \<Rightarrow> usize list \<Rightarrow> FrameAllocator res" where
  "drop_frames f [] = Ok f"
| "drop_frames f (p # ps) = rbind (frame_dealloc f p) (\<lambda>f'. drop_frames f' ps)"

definition push_mmap_area :: "MemState \<Rightarrow> usize \<Rightarrow> MemType \<Rightarrow> nat \<Rightarrow> FrameAllocator \<Rightarrow> MapTrack list \<Rightarrow>
   (MemState \<times> usize option) res" where
  "push_mmap_area st va mt count fa' ts =
     rbind (if va \<noteq> 0 then map_pages (pt st) ts else Ok (pt st)) (\<lambda>pt'.
       Ok (st\<lparr>fa := fa', pt := pt', memset := memset st @
             [\<lparr>mtype = mt, mtrackers = ts, area_file = None, offset = 0, start = va, len = count * PAGE_SIZE\<rparr>]\<rparr>,
           Some (tracker (hd ts))))"

definition task_frame_alloc :: "MemState \<Rightarrow> usize \<Rightarrow> MemType \<Rightarrow> nat \<Rightarrow> (MemState \<times> usize option) res" where
  "task_frame_alloc st va mt count =
     (if mt = Mmap \<and> count > 1 then
        rbind (frame_alloc_much (fa st) count) (\<lambda>(fa', r).
          case r of
            Some frames \<Rightarrow> push_mmap_area st va mt count fa' (make_trackers va frames)
          | None \<Rightarrow>
              rbind (alloc_segments fa' count va []) (\<lambda>(fa'', ts, ok).
                if ok then push_mmap_area st va mt count fa'' ts
                else rmap (\<lambda>f. (st\<lparr>fa := f\<rparr>, None)) (drop_frames fa'' (map tracker ts))))
      else map_frames st va mt count None 0 va (count * PAGE_SIZE))"

fun sbrk_pages :: "MemState \<Rightarrow> nat list \<Rightarrow> MemState res" where
  "sbrk_pages st [] = Ok st"
| "sbrk_pages st (i # is) =
     rbind (task_frame_alloc st (i * PAGE_SIZE) Mmap 1) (\<lambda>(st', _). sbrk_pages st' is)"

definition sbrk :: "MemState \<Rightarrow> usize \<Rightarrow> (MemState \<times> usize) res" where
  "sbrk st addr =
     (let curr_page = div_ceil (heap st) PAGE_SIZE;
          after_page = div_ceil addr PAGE_SIZE
      in rmap (\<lambda>st'. (st'\<lparr>heap := addr\<rparr>, addr)) (sbrk_pages st [curr_page..<after_page]))"

definition get_last_free_addr :: "MemState \<Rightarrow> usize" where
  "get_last_free_addr st =
     (let map_last = foldl (\<lambda>acc x. max acc (start x + len x)) 0 (filter (\<lambda>x. mtype x \<noteq> Stack) (memset st));
          shm_last = foldl (\<lambda>acc (s, sz). max (s + sz) acc) 0 (shms st)
      in max map_last shm_last)"

section \<open>System calls\<close>

definition MAP_AREA_START :: nat where
  "MAP_AREA_START = 0x200000000"

definition sys_brk :: "MemState \<Rightarrow> usize \<Rightarrow> (MemState \<times> usize) res" where
  "sys_brk st addr = (if addr = 0 then Ok (st, heap st) else sbrk st addr)"

record MapFlags =
  MAP_SHARED :: bool
  MAP_FIXED :: bool
  MAP_ANONYMOUS :: bool

definition map_flags :: "32 word \<Rightarrow> MapFlags" where
  "map_flags w = \<lparr>MAP_SHARED = bit w 0, MAP_FIXED = bit w 4, MAP_ANONYMOUS = bit w 5\<rparr>"

definition choose_addr :: "MemState \<Rightarrow> usize \<Rightarrow> usize" where
  "choose_addr st s =
     (let addr = get_last_free_addr st
      in if s = 0 then (if addr \<ge> MAP_AREA_START then addr else MAP_AREA_START) else s)"

text \<open>
  \<^verbatim>\<open>sys_mmap\<close> on the architectures without the extra address check.  The open file
  of the descriptor (\<open>None\<close> for none) and the result of reading its contents into
  the new mapping are arguments.
\<close>

definition mmap_place :: "MemState \<Rightarrow> usize \<Rightarrow> nat \<Rightarrow> MapFlags \<Rightarrow> MemState res" where
  "mmap_place st addr l fl =
     (if memset_overlapping (memset st) addr (uadd addr l) then
        if MAP_FIXED fl then
          (case sub_area (memset st) (pt st) addr (uadd addr l) of
             (ms', pt', _) \<Rightarrow> Ok (st\<lparr>memset := ms', pt := pt'\<rparr>))
        else Err EINVAL
      else Ok st)"

definition mmap_install :: "MemState \<Rightarrow> usize \<Rightarrow> nat \<Rightarrow> MapFlags \<Rightarrow> nat option \<Rightarrow> usize \<Rightarrow> MemState res" where
  "mmap_install st addr l fl f off =
     (if MAP_SHARED fl then
        (case f of
           Some g \<Rightarrow>
             rbind (map_frames st addr ShareFile ((l + PAGE_SIZE - 1) div PAGE_SIZE) (Some g) off addr l) (\<lambda>(st', r).
               case r of Some _ \<Rightarrow> Ok st' | None \<Rightarrow> Err EFAULT)
         | None \<Rightarrow>
             rbind (task_frame_alloc st addr Shared (div_ceil l PAGE_SIZE)) (\<lambda>(st', r).
               case r of
                 None \<Rightarrow> Err EFAULT
               | Some base \<Rightarrow>
                   rmap (\<lambda>p. st'\<lparr>pt := p\<rparr>)
                     (map_pages (pt st') (map (\<lambda>i. \<lparr>vaddr = addr + i * PAGE_SIZE, tracker = base + i * PAGE_SIZE, rwx = 0\<rparr>)
                       [0..<(l + PAGE_SIZE - 1) div PAGE_SIZE]))))
      else
        (case f of
           Some _ \<Rightarrow>
             rbind (task_frame_alloc st addr Mmap (div_ceil l PAGE_SIZE)) (\<lambda>(st', r).
               case r of Some _ \<Rightarrow> Ok st' | None \<Rightarrow> Err EFAULT)
         | None \<Rightarrow> Ok (st\<lparr>memset := memset st @
             [\<lparr>mtype = Mmap, mtrackers = [], area_file = None, offset = 0, start = addr, len = l\<rparr>]\<rparr>)))"

definition sys_mmap ::
  "MemState \<Rightarrow> usize \<Rightarrow> nat \<Rightarrow> MapFlags \<Rightarrow> usize \<Rightarrow> nat option \<Rightarrow> errno option \<Rightarrow> usize \<Rightarrow> MemState \<times> usize res" where
  "sys_mmap st s len0 fl fd opened read_err off =
     (let l = alignup len0 PAGE_SIZE;
          f = (if fd = USIZE - 1 \<or> MAP_ANONYMOUS fl then None else opened);
          addr = choose_addr st s
      in if l = 0 then (st, Ok addr)
         else case mmap_place st addr l fl of
             Panic \<Rightarrow> (st, Panic)
           | Err e \<Rightarrow> (st, Err e)
           | Ok st1 \<Rightarrow>
               (case mmap_install st1 addr l fl f off of
                  Panic \<Rightarrow> (st1, Panic)
                | Err e \<Rightarrow> (st1, Err e)
                | Ok st2 \<Rightarrow>
                    (case (if f = None then None else read_err) of
                       Some e \<Rightarrow>
                         (case sub_area (memset st2) (pt st2) addr (uadd addr l) of
                            (ms', pt', _) \<Rightarrow> (st2\<lparr>memset := ms', pt := pt'\<rparr>, Err e))
                     | None \<Rightarrow> (st2, Ok addr))))"

definition sys_munmap :: "MemState \<Rightarrow> usize \<Rightarrow> nat \<Rightarrow> MemState \<times> sub_effect" where
  "sys_munmap st s l =
     (case sub_area (memset st) (pt st) s (uadd s l) of
        (ms', pt', eff) \<Rightarrow> (st\<lparr>memset := ms', pt := pt'\<rparr>, eff))"

section \<open>The robust list\<close>

record robust_list =
  robust_list_head :: usize
  robust_list_len :: usize

definition ROBUST_LIST_HEAD_SIZE :: nat where
  "ROBUST_LIST_HEAD_SIZE = 24"

definition user_addr_ok :: "(usize \<Rightarrow> bool) \<Rightarrow> usize \<Rightarrow> bool" where
  "user_addr_ok translate addr \<longleftrightarrow> addr < 0x8000000000000000 \<and> translate addr"

definition sys_set_robust_list :: "(usize \<Rightarrow> bool) \<Rightarrow> robust_list \<Rightarrow> usize \<Rightarrow> nat \<Rightarrow> robust_list \<times> nat res" where
  "sys_set_robust_list translate t head l =
     (if l \<noteq> ROBUST_LIST_HEAD_SIZE then (t, Err EINVAL)
      else if head \<noteq> 0 \<and> \<not> user_addr_ok translate head then (t, Err EFAULT)
      else (t\<lparr>robust_list_head := head, robust_list_len := l\<rparr>, Ok 0))"

text \<open>The values written through the two pointers, and the result; the first write is not undone.\<close>

definition sys_get_robust_list ::
  "(usize \<Rightarrow> bool) \<Rightarrow> robust_list \<Rightarrow> usize \<Rightarrow> usize \<Rightarrow> (usize option \<times> usize option) \<times> nat res" where
  "sys_get_robust_list translate t head_ptr len_ptr =
     (if head_ptr \<noteq> 0 \<and> \<not> user_addr_ok translate head_ptr then ((None, None), Err EFAULT)
      else let h = (if head_ptr = 0 then None else Some 0) in
        if len_ptr \<noteq> 0 \<and> \<not> user_addr_ok translate len_ptr then ((h, None), Err EFAULT)
        else ((h, if len_ptr = 0 then None else Some 0), Ok 0))"

section \<open>Which addresses the areas cover\<close>

text \<open>The number of areas that contain an address; areas are disjoint when it is at most one.\<close>

definition cover :: "MemArea list \<Rightarrow> usize \<Rightarrow> nat" where
  "cover ms v = length (filter (\<lambda>a. area_contains a v) ms)"

lemma cover_simps [simp]:
  "cover [] v = 0"
  "cover (a # ms) v = (if area_contains a v then 1 else 0) + cover ms v"
  "cover (ms @ ms') v = cover ms v + cover ms' v"
  by (simp_all add: cover_def)

lemma not_overlapping:
  "\<not> area_overlapping a s e \<Longrightarrow> s < e \<Longrightarrow> area_contains a v \<Longrightarrow> \<not> in_range s e v"
  by (auto simp: area_overlapping_def area_contains_def in_range_def Let_def)

lemma area_sub_cover:
  assumes "area_sub a s e = (a', new, eff)" "s < e"
  shows "cover [a'] v + (case new of Some n \<Rightarrow> cover [n] v | None \<Rightarrow> 0) =
    (if in_range s e v then 0 else cover [a] v)"
proof (cases "area_overlapping a s e")
  case False
  then show ?thesis
    using assms not_overlapping [OF False assms(2)] by (auto simp: area_sub_def)
next
  case True
  let ?re = "start a + len a"
  consider (split) "in_range (start a) ?re s" "in_range (start a) ?re e"
    | (all) "\<not> (in_range (start a) ?re s \<and> in_range (start a) ?re e)" "in_range s e (start a)" "in_range s e ?re"
    | (tail) "in_range (start a) ?re s" "?re \<le> e"
    | (head) "\<not> in_range (start a) ?re s" "in_range s e (start a)" "e \<le> ?re"
    using True assms(2) by (force simp: area_overlapping_def in_range_def Let_def)
  then show ?thesis
  proof cases
    case split
    with True assms show ?thesis
      by (auto simp: area_sub_def area_contains_def in_range_def Let_def)
  next
    case all
    with True assms show ?thesis
      by (auto simp: area_sub_def area_contains_def in_range_def Let_def split: if_splits)
  next
    case tail
    with True assms show ?thesis
      by (auto simp: area_sub_def area_contains_def in_range_def Let_def split: if_splits)
  next
    case head
    with True assms show ?thesis
      by (auto simp: area_sub_def area_contains_def in_range_def Let_def split: if_splits)
  qed
qed

lemma cover_len_0: "len a = 0 \<Longrightarrow> cover [a] v = 0"
  by (simp add: area_contains_def)

lemma sub_pass_cover:
  assumes "sub_pass ms s e = (kept, news, eff)" "s < e"
  shows "cover kept v + cover news v = (if in_range s e v then 0 else cover ms v)"
  using assms(1)
proof (induction ms arbitrary: kept news eff)
  case (Cons a ms)
  obtain a' new eff1 where a: "area_sub a s e = (a', new, eff1)" by (metis prod_cases3)
  obtain kept1 news1 eff2 where p: "sub_pass ms s e = (kept1, news1, eff2)" by (metis prod_cases3)
  have k: "kept = (if len a' \<noteq> 0 then a' # kept1 else kept1)"
    "news = (case new of Some n \<Rightarrow> n # news1 | None \<Rightarrow> news1)"
    using Cons.prems by (auto simp: a p)
  have "cover kept v = cover [a'] v + cover kept1 v"
    by (simp add: k(1) area_contains_def)
  moreover have "cover news v = (case new of Some n \<Rightarrow> cover [n] v | None \<Rightarrow> 0) + cover news1 v"
    by (simp add: k(2) split: option.splits)
  ultimately show ?case
    using Cons.IH [OF p] area_sub_cover [OF a assms(2), of v] by (auto split: if_splits)
qed simp

lemma sub_area_cover:
  "sub_area ms p s e = (ms', p', eff) \<Longrightarrow> s < e \<Longrightarrow> cover ms' v = (if in_range s e v then 0 else cover ms v)"
  using sub_pass_cover [of ms s e] by (auto simp: sub_area_def split: prod.splits)

section \<open>Trackers and the page table\<close>

text \<open>
  Every tracker lies in the range of its area and the page table maps its page to
  its frame.
\<close>

definition memset_wf :: "page_table \<Rightarrow> MemArea list \<Rightarrow> bool" where
  "memset_wf p ms \<longleftrightarrow> (\<forall>a \<in> set ms. \<forall>t \<in> set (mtrackers a).
     area_contains a (vaddr t) \<and> p (vaddr t) = Some (tracker t))"

definition splits :: "MemArea \<Rightarrow> usize \<Rightarrow> usize \<Rightarrow> bool" where
  "splits a s e \<longleftrightarrow> in_range (start a) (start a + len a) s \<and> in_range (start a) (start a + len a) e"

lemma area_sub_nosplit:
  assumes "area_sub a s e = (a', new, eff)" "s < e" "\<not> splits a s e"
    "\<forall>t \<in> set (mtrackers a). area_contains a (vaddr t)"
  shows "new = None \<and> mtrackers a' = filter (\<lambda>t. \<not> in_range s e (vaddr t)) (mtrackers a) \<and>
    dropped eff = filter (\<lambda>t. in_range s e (vaddr t)) (mtrackers a) \<and> unmapped eff = map vaddr (dropped eff)"
proof (cases "area_overlapping a s e")
  case False
  have "\<not> in_range s e (vaddr t)" if "t \<in> set (mtrackers a)" for t
    using that assms(4) not_overlapping [OF False assms(2)] by blast
  then have "filter (\<lambda>t. \<not> in_range s e (vaddr t)) (mtrackers a) = mtrackers a"
    "filter (\<lambda>t. in_range s e (vaddr t)) (mtrackers a) = []"
    by (auto simp: filter_id_conv filter_empty_conv)
  with False assms(1) show ?thesis by (auto simp: area_sub_def no_effect_def)
next
  case True
  let ?re = "start a + len a"
  consider (all) "in_range s e (start a)" "in_range s e ?re"
    | (tail) "in_range (start a) ?re s" "?re \<le> e" "\<not> (in_range s e (start a) \<and> in_range s e ?re)"
    | (head) "\<not> in_range (start a) ?re s" "in_range s e (start a)" "e \<le> ?re"
    using True assms(2,3) by (force simp: area_overlapping_def splits_def in_range_def Let_def)
  then show ?thesis
  proof cases
    case all
    then have "\<forall>t \<in> set (mtrackers a). in_range s e (vaddr t)"
      using assms(4) by (auto simp: area_contains_def in_range_def)
    with True all assms show ?thesis
      by (auto simp: area_sub_def splits_def Let_def filter_id_conv filter_empty_conv)
  next
    case tail
    then have eq: "\<forall>t \<in> set (mtrackers a). in_range (start a) s (vaddr t) \<longleftrightarrow> \<not> in_range s e (vaddr t)"
      using assms(4) by (auto simp: area_contains_def in_range_def)
    have "start a + (s - start a) = s" using tail(1) by (simp add: in_range_def)
    with True tail assms eq show ?thesis
      by (auto simp: area_sub_def splits_def Let_def cong: filter_cong)
  next
    case head
    then have eq: "\<forall>t \<in> set (mtrackers a). in_range e ?re (vaddr t) \<longleftrightarrow> \<not> in_range s e (vaddr t)"
      using assms(4) by (auto simp: area_contains_def in_range_def)
    have "e + (?re - e) = ?re" "\<not> in_range s e ?re" using head(3) by (simp_all add: in_range_def)
    with True head assms eq show ?thesis
      by (auto simp: area_sub_def splits_def Let_def cong: filter_cong)
  qed
qed

definition trackers :: "MemArea list \<Rightarrow> MapTrack list" where
  "trackers ms = concat (map mtrackers ms)"

lemma sub_pass_nosplit:
  assumes "sub_pass ms s e = (kept, news, eff)" "s < e" "\<forall>a \<in> set ms. \<not> splits a s e"
    "\<forall>a \<in> set ms. \<forall>t \<in> set (mtrackers a). area_contains a (vaddr t)"
  shows "news = [] \<and> trackers kept = filter (\<lambda>t. \<not> in_range s e (vaddr t)) (trackers ms) \<and>
    dropped eff = filter (\<lambda>t. in_range s e (vaddr t)) (trackers ms) \<and> unmapped eff = map vaddr (dropped eff) \<and>
    (\<forall>a \<in> set kept. \<forall>t \<in> set (mtrackers a). area_contains a (vaddr t))"
  using assms(1,3,4)
proof (induction ms arbitrary: kept news eff)
  case (Cons a ms)
  obtain a' new eff1 where a: "area_sub a s e = (a', new, eff1)" by (metis prod_cases3)
  obtain kept1 news1 eff2 where p: "sub_pass ms s e = (kept1, news1, eff2)" by (metis prod_cases3)
  have n: "new = None" "mtrackers a' = filter (\<lambda>t. \<not> in_range s e (vaddr t)) (mtrackers a)"
    "dropped eff1 = filter (\<lambda>t. in_range s e (vaddr t)) (mtrackers a)" "unmapped eff1 = map vaddr (dropped eff1)"
    using area_sub_nosplit [OF a assms(2)] Cons.prems(2,3) by auto
  have in_a': "area_contains a' (vaddr t)" if "t \<in> set (mtrackers a')" for t
    using that n(2) area_sub_cover [OF a assms(2), of "vaddr t"] Cons.prems(3) by (auto simp: n(1) split: if_splits)
  have empty: "mtrackers a' = []" if "len a' = 0"
    using in_a' [of "hd (mtrackers a')"] that by (cases "mtrackers a'") (auto simp: area_contains_def)
  have IH: "news1 = [] \<and> trackers kept1 = filter (\<lambda>t. \<not> in_range s e (vaddr t)) (trackers ms) \<and>
    dropped eff2 = filter (\<lambda>t. in_range s e (vaddr t)) (trackers ms) \<and> unmapped eff2 = map vaddr (dropped eff2) \<and>
    (\<forall>a \<in> set kept1. \<forall>t \<in> set (mtrackers a). area_contains a (vaddr t))"
    using Cons.IH [OF p] Cons.prems(2,3) by simp
  have "kept = (if len a' \<noteq> 0 then a' # kept1 else kept1)" "news = []"
    "eff = join_effect (if len a' \<noteq> 0 then eff1 else eff1\<lparr>dropped := dropped eff1 @ mtrackers a'\<rparr>) eff2"
    using Cons.prems(1) IH by (auto simp: a p n(1))
  with IH n empty in_a' show ?case by (auto simp: trackers_def join_effect_def)
qed (simp add: trackers_def no_effect_def)

lemma memset_wf_iff:
  "memset_wf p ms \<longleftrightarrow> (\<forall>a \<in> set ms. \<forall>t \<in> set (mtrackers a). area_contains a (vaddr t)) \<and>
    (\<forall>t \<in> set (trackers ms). p (vaddr t) = Some (tracker t))"
  by (auto simp: memset_wf_def trackers_def)

section \<open>Allocating and mapping frames\<close>

lemma frames_aligned: "fa_wf f \<Longrightarrow> p \<in> free_frames f \<Longrightarrow> PAGE_SIZE dvd p"
  using page_addr_range(3) free_pages_sub by (fastforce simp: free_frames_def fa_wf_def)

lemma make_trackers_simps [simp]:
  "map tracker (make_trackers va frames) = frames"
  "length (make_trackers va frames) = length frames"
  by (simp_all add: make_trackers_def comp_def case_prod_unfold)

lemma make_trackers_vaddr:
  "va \<noteq> 0 \<Longrightarrow> map vaddr (make_trackers va frames) = map (\<lambda>i. va + i * PAGE_SIZE) [0..<length frames]"
  by (auto simp: make_trackers_def comp_def case_prod_unfold enumerate_eq_zip intro!: nth_equalityI)

lemma map_pages_Ok:
  assumes "\<forall>t \<in> set ts. PAGE_SIZE dvd tracker t \<and> PAGE_SIZE dvd vaddr t" "distinct (map vaddr ts)"
  shows "\<exists>p'. map_pages p ts = Ok p' \<and> (\<forall>t \<in> set ts. p' (vaddr t) = Some (tracker t)) \<and>
    (\<forall>v. v \<notin> vaddr ` set ts \<longrightarrow> p' v = p v)"
  using assms
proof (induction ts arbitrary: p)
  case (Cons t ts)
  have "\<exists>p'. map_pages (p(vaddr t \<mapsto> tracker t)) ts = Ok p' \<and>
    (\<forall>t \<in> set ts. p' (vaddr t) = Some (tracker t)) \<and>
    (\<forall>v. v \<notin> vaddr ` set ts \<longrightarrow> p' v = (p(vaddr t \<mapsto> tracker t)) v)"
    using Cons.prems by (intro Cons.IH) simp_all
  then obtain p' where "map_pages (p(vaddr t \<mapsto> tracker t)) ts = Ok p'"
    "\<forall>t \<in> set ts. p' (vaddr t) = Some (tracker t)"
    "\<forall>v. v \<notin> vaddr ` set ts \<longrightarrow> p' v = (p(vaddr t \<mapsto> tracker t)) v" by blast
  with Cons.prems show ?case by (auto simp: dvd_eq_mod_eq_0)
qed simp

text \<open>What a successful request for frames leaves: fresh frames at consecutive pages.\<close>

definition fresh_trackers :: "FrameAllocator \<Rightarrow> FrameAllocator \<Rightarrow> usize \<Rightarrow> nat \<Rightarrow> MapTrack list \<Rightarrow> bool" where
  "fresh_trackers f f' va n ts \<longleftrightarrow> fa_wf f' \<and> managed_frames f' = managed_frames f \<and> length ts = n \<and>
     map vaddr ts = map (\<lambda>i. va + i * PAGE_SIZE) [0..<n] \<and> distinct (map tracker ts) \<and>
     tracker ` set ts \<subseteq> free_frames f \<and> free_frames f' = free_frames f - tracker ` set ts"

lemma much_fresh:
  assumes "fa_wf f" "0 < n" "va \<noteq> 0"
  shows "\<exists>f' r. frame_alloc_much f n = Ok (f', r) \<and>
    (case r of None \<Rightarrow> f' = f | Some frames \<Rightarrow> fresh_trackers f f' va n (make_trackers va frames))"
proof -
  obtain f' r where r: "frame_alloc_much f n = Ok (f', r)" "much_post f n f' r"
    using frame_alloc_much_spec [OF assms(1,2)] by blast
  show ?thesis
  proof (cases r)
    case (Some frames)
    from r(2) Some obtain base where b: "frames = map (\<lambda>i. base + i * PAGE_SIZE) [0..<n]"
      by (auto simp: much_post_def)
    have "distinct frames" "length frames = n"
      by (auto simp: b distinct_map inj_on_def PAGE_SIZE_def)
    moreover have "tracker ` set (make_trackers va frames) = set frames"
      by (metis list.set_map make_trackers_simps(1))
    ultimately have "fresh_trackers f f' va n (make_trackers va frames)"
      using r(2) Some assms(3) by (simp add: fresh_trackers_def much_post_def make_trackers_vaddr)
    with r(1) Some show ?thesis by simp
  qed (use r in \<open>simp add: much_post_def\<close>)
qed

lemma fresh_trackers_append:
  assumes "fresh_trackers f f1 va n ts" "fresh_trackers f1 f2 (va + n * PAGE_SIZE) m us"
  shows "fresh_trackers f f2 va (n + m) (ts @ us)"
proof -
  have "map (\<lambda>i. va + n * PAGE_SIZE + i * PAGE_SIZE) [0..<m] = map (\<lambda>i. va + i * PAGE_SIZE) [n..<n + m]"
    by (rule nth_equalityI) (simp_all add: add_mult_distrib)
  moreover have "[0..<n + m] = [0..<n] @ [n..<n + m]"
    using upt_add_eq_append [of 0 n m] by simp
  ultimately show ?thesis
    using assms unfolding fresh_trackers_def by (auto simp del: upt_Suc)
qed

lemma fresh_trackers_Nil: "fa_wf f \<Longrightarrow> fresh_trackers f f va 0 []"
  by (simp add: fresh_trackers_def)

lemma segment_size_bounds: "0 < n \<Longrightarrow> 0 < segment_size n \<and> segment_size n \<le> n"
  by (auto simp: segment_size_def min_def max_def)

lemma alloc_segments_fresh:
  assumes "fa_wf f" "va \<noteq> 0"
  shows "\<exists>f' ts ok. alloc_segments f n va acc = Ok (f', acc @ ts, ok) \<and> length ts \<le> n \<and>
    fresh_trackers f f' va (length ts) ts \<and> (ok \<longrightarrow> length ts = n)"
  using assms
proof (induction n arbitrary: f va acc rule: less_induct)
  case (less n)
  show ?case
  proof (cases "n = 0")
    case True
    with less.prems fresh_trackers_Nil show ?thesis by (subst alloc_segments.simps) auto
  next
    case False
    then have seg: "0 < segment_size n" "segment_size n \<le> n" using segment_size_bounds by simp_all
    let ?va = "va + segment_size n * PAGE_SIZE"
    obtain f1 r where r: "frame_alloc_much f (segment_size n) = Ok (f1, r)"
      "case r of None \<Rightarrow> f1 = f | Some frames \<Rightarrow>
        fresh_trackers f f1 va (segment_size n) (make_trackers va frames)"
      using much_fresh [OF less.prems(1) seg(1) less.prems(2)] by blast
    show ?thesis
    proof (cases r)
      case None
      with r False less.prems fresh_trackers_Nil show ?thesis
        by (subst alloc_segments.simps) auto
    next
      case (Some frames)
      with r have fr: "fresh_trackers f f1 va (segment_size n) (make_trackers va frames)" by simp
      then have f1: "fa_wf f1" by (simp add: fresh_trackers_def)
      obtain f2 us ok where us: "alloc_segments f1 (n - segment_size n) ?va (acc @ make_trackers va frames) =
          Ok (f2, (acc @ make_trackers va frames) @ us, ok)" "length us \<le> n - segment_size n"
        "fresh_trackers f1 f2 ?va (length us) us" "ok \<longrightarrow> length us = n - segment_size n"
        using less.IH [of "n - segment_size n" f1 ?va "acc @ make_trackers va frames"] seg f1 False less.prems(2)
        by auto
      have "length (make_trackers va frames) = segment_size n" using fr by (simp add: fresh_trackers_def)
      with fresh_trackers_append [OF fr us(3)] us False r Some seg less.prems(2) show ?thesis
        by (subst alloc_segments.simps)
          (auto intro!: exI [of _ f2] exI [of _ "make_trackers va frames @ us"] exI [of _ ok])
    qed
  qed
qed

lemma drop_frames_Ok:
  assumes "fa_wf f" "set ps \<subseteq> managed_frames f"
  shows "\<exists>f'. drop_frames f ps = Ok f' \<and> fa_wf f' \<and> managed_frames f' = managed_frames f \<and>
    free_frames f' = free_frames f \<union> set ps"
  using assms
proof (induction ps arbitrary: f)
  case (Cons p ps)
  then obtain f1 where "frame_dealloc f p = Ok f1" "fa_wf f1" "managed_frames f1 = managed_frames f"
    "free_frames f1 = insert p (free_frames f)"
    using frame_dealloc_spec [of f p] by auto
  with Cons.IH [of f1] Cons.prems show ?case by auto
qed simp

definition frame_alloc_post :: "MemState \<Rightarrow> usize \<Rightarrow> MemType \<Rightarrow> nat \<Rightarrow> MemState \<Rightarrow> usize option \<Rightarrow> bool" where
  "frame_alloc_post st va mt n st' r \<longleftrightarrow>
     (case r of
        None \<Rightarrow> memset st' = memset st \<and> pt st' = pt st \<and> fa_wf (fa st') \<and> free_frames (fa st') = free_frames (fa st)
      | Some p \<Rightarrow> \<exists>ts. fresh_trackers (fa st) (fa st') va n ts \<and> p = tracker (hd ts) \<and>
          memset st' = memset st @ [\<lparr>mtype = mt, mtrackers = ts, area_file = None, offset = 0, start = va, len = n * PAGE_SIZE\<rparr>] \<and>
          (\<forall>t \<in> set ts. pt st' (vaddr t) = Some (tracker t)) \<and>
          (\<forall>v. v \<notin> vaddr ` set ts \<longrightarrow> pt st' v = pt st v))"

lemma map_fresh:
  assumes "fa_wf f" "fresh_trackers f f' va n ts" "PAGE_SIZE dvd va"
  shows "\<exists>p'. map_pages p ts = Ok p' \<and> (\<forall>t \<in> set ts. p' (vaddr t) = Some (tracker t)) \<and>
    (\<forall>v. v \<notin> vaddr ` set ts \<longrightarrow> p' v = p v)"
proof (rule map_pages_Ok)
  have "vaddr t \<in> set (map (\<lambda>i. va + i * PAGE_SIZE) [0..<n])" if "t \<in> set ts" for t
    using that assms(2) unfolding fresh_trackers_def by (metis image_eqI list.set_map)
  then have "PAGE_SIZE dvd vaddr t" if "t \<in> set ts" for t
    using that assms(3) by fastforce
  then show "\<forall>t \<in> set ts. PAGE_SIZE dvd tracker t \<and> PAGE_SIZE dvd vaddr t"
    using frames_aligned [OF assms(1)] assms(2) by (auto simp: fresh_trackers_def)
  show "distinct (map vaddr ts)"
    using assms(2) by (auto simp: fresh_trackers_def distinct_map inj_on_def PAGE_SIZE_def)
qed

lemma push_mmap_area_post:
  assumes "fa_wf (fa st)" "fresh_trackers (fa st) f' va n ts" "PAGE_SIZE dvd va" "va \<noteq> 0" "0 < n"
  shows "\<exists>st' r. push_mmap_area st va mt n f' ts = Ok (st', Some r) \<and> frame_alloc_post st va mt n st' (Some r)"
  using map_fresh [OF assms(1-3), of "pt st"] assms(2,4)
  by (auto simp: push_mmap_area_def frame_alloc_post_def)

lemma task_frame_alloc_post:
  assumes wf: "fa_wf (fa st)" and va: "PAGE_SIZE dvd va" "va \<noteq> 0" and n: "0 < n" and mt: "mt \<noteq> Stack"
  shows "\<exists>st' r. task_frame_alloc st va mt n = Ok (st', r) \<and> frame_alloc_post st va mt n st' r"
proof -
  obtain f' r where r: "frame_alloc_much (fa st) n = Ok (f', r)"
    "case r of None \<Rightarrow> f' = fa st | Some frames \<Rightarrow> fresh_trackers (fa st) f' va n (make_trackers va frames)"
    using much_fresh [OF wf n va(2)] by blast
  consider (big) "mt = Mmap" "n > 1" | (small) "\<not> (mt = Mmap \<and> n > 1)" by blast
  then show ?thesis
  proof cases
    case small
    show ?thesis
    proof (cases r)
      case (Some frames)
      with r have fr: "fresh_trackers (fa st) f' va n (make_trackers va frames)" by simp
      then have "frames \<noteq> []" using n by (auto simp: fresh_trackers_def make_trackers_def)
      then have "hd frames = tracker (hd (make_trackers va frames))"
        by (metis hd_map make_trackers_simps(1) list.map_disc_iff)
      with map_fresh [OF wf fr va(1), of "pt st"] fr small r Some va n mt show ?thesis
        by (auto simp: task_frame_alloc_def map_frames_def frame_alloc_post_def Let_def)
    qed (use small r n mt wf in \<open>auto simp: task_frame_alloc_def map_frames_def frame_alloc_post_def\<close>)
  next
    case big
    show ?thesis
    proof (cases r)
      case (Some frames)
      with r big push_mmap_area_post [OF wf _ va n, of f' "make_trackers va frames" mt] show ?thesis
        by (auto simp: task_frame_alloc_def)
    next
      case None
      with r have f': "f' = fa st" by simp
      obtain f2 ts ok where seg: "alloc_segments (fa st) n va [] = Ok (f2, ts, ok)"
        "fresh_trackers (fa st) f2 va (length ts) ts" "ok \<longrightarrow> length ts = n"
        using alloc_segments_fresh [OF wf va(2), of n "[]"] by auto
      show ?thesis
      proof (cases ok)
        case True
        with seg push_mmap_area_post [OF wf _ va n, of f2 ts mt] big r None f' show ?thesis
          by (auto simp: task_frame_alloc_def)
      next
        case False
        have "set (map tracker ts) \<subseteq> managed_frames f2" "fa_wf f2"
          "free_frames f2 \<union> set (map tracker ts) = free_frames (fa st)"
          using seg(2) free_frames_managed [of "fa st"] by (auto simp: fresh_trackers_def)
        with drop_frames_Ok [of f2 "map tracker ts"] False seg big r None f' show ?thesis
          by (auto simp: task_frame_alloc_def frame_alloc_post_def)
      qed
    qed
  qed
qed

section \<open>Address space effect of mmap\<close>

lemma alignup_pos: "0 < l \<Longrightarrow> 0 < alignup l PAGE_SIZE"
  using div_ceil_bounds(1) [of PAGE_SIZE l] by (simp add: alignup_def PAGE_SIZE_def)

lemma alignup_dvd: "PAGE_SIZE dvd alignup l PAGE_SIZE"
  by (simp add: alignup_def)

lemma div_ceil_dvd: "PAGE_SIZE dvd l \<Longrightarrow> div_ceil l PAGE_SIZE * PAGE_SIZE = l"
  by (auto simp: div_ceil_def dvd_eq_mod_eq_0 [symmetric])

lemma ceil_div_dvd: "PAGE_SIZE dvd l \<Longrightarrow> (l + PAGE_SIZE - 1) div PAGE_SIZE = l div PAGE_SIZE"
  by (auto simp: PAGE_SIZE_def elim!: dvdE)

lemma mmap_place_cover:
  assumes "mmap_place st addr l fl = Ok st1" "addr + l < USIZE" "0 < l"
  shows "cover (memset st1) v = (if in_range addr (addr + l) v then 0 else cover (memset st) v)"
    and "fa st1 = fa st"
proof -
  have e: "uadd addr l = addr + l" using assms(2) by (simp add: uadd_def)
  show "cover (memset st1) v = (if in_range addr (addr + l) v then 0 else cover (memset st) v)"
  proof (cases "memset_overlapping (memset st) addr (addr + l)")
    case True
    with assms(1) show ?thesis
      using sub_area_cover [of "memset st" "pt st" addr "addr + l"] assms(3)
      by (auto simp: mmap_place_def e split: if_splits prod.splits)
  next
    case False
    then have "\<forall>a \<in> set (memset st). \<not> area_overlapping a addr (addr + l)"
      by (simp add: memset_overlapping_def find_None_iff)
    then have "cover (memset st) v = 0" if "in_range addr (addr + l) v"
      using that not_overlapping [of _ addr "addr + l" v] assms(3)
      by (auto simp: cover_def filter_empty_conv)
    with False assms(1) show ?thesis by (auto simp: mmap_place_def e)
  qed
  show "fa st1 = fa st" using assms(1) by (auto simp: mmap_place_def split: if_splits prod.splits)
qed

lemma map_frames_cover:
  "map_frames st va mt n f off s l = Ok (st', Some r) \<Longrightarrow> mt \<noteq> Stack \<Longrightarrow>
   cover (memset st') v = cover (memset st) v + (if in_range s (s + l) v then 1 else 0)"
  by (auto simp: map_frames_def res_simps Let_def area_contains_def in_range_def split: if_splits option.splits prod.splits)

lemma push_mmap_area_cover:
  "push_mmap_area st va mt n f ts = Ok (st', Some r) \<Longrightarrow>
   cover (memset st') v = cover (memset st) v + (if in_range va (va + n * PAGE_SIZE) v then 1 else 0)"
  by (auto simp: push_mmap_area_def res_simps area_contains_def in_range_def)

lemma task_frame_alloc_cover:
  "task_frame_alloc st va mt n = Ok (st', Some r) \<Longrightarrow> mt \<noteq> Stack \<Longrightarrow>
   cover (memset st') v = cover (memset st) v + (if in_range va (va + n * PAGE_SIZE) v then 1 else 0)"
  unfolding task_frame_alloc_def
  by (auto simp: res_simps map_frames_cover push_mmap_area_cover split: if_splits option.splits prod.splits)

lemma mmap_install_cover:
  assumes "mmap_install st addr l fl f off = Ok st2" "PAGE_SIZE dvd l"
  shows "cover (memset st2) v = cover (memset st) v + (if in_range addr (addr + l) v then 1 else 0)"
  using assms(1) div_ceil_dvd [OF assms(2)]
  by (auto simp: mmap_install_def res_simps map_frames_cover task_frame_alloc_cover area_contains_def in_range_def
      split: if_splits option.splits prod.splits)

section \<open>Properties\<close>


definition empty_mem :: MemState where
  "empty_mem = \<lparr>fa = [], pt = Map.empty, memset = [], heap = 0, shms = []\<rparr>"


text \<open>
  C24: \<^verbatim>\<open>munmap\<close> of a range that no area strictly contains.  The remaining areas cover
  exactly the addresses outside the range, the remaining trackers are those
  outside it and stay mapped to their frames, and the dropped trackers are those
  inside it, whose pages are no longer mapped: no page is left mapped to a frame
  that is given back.
\<close>

theorem munmap_removes_exactly:
  assumes "sys_munmap st s l = (st', eff)" "0 < l" "s + l < USIZE" "memset_wf (pt st) (memset st)"
    "\<forall>a \<in> set (memset st). \<not> splits a s (s + l)"
  shows "memset_wf (pt st') (memset st') \<and>
    (\<forall>v. cover (memset st') v = (if in_range s (s + l) v then 0 else cover (memset st) v)) \<and>
    trackers (memset st') = filter (\<lambda>t. \<not> in_range s (s + l) (vaddr t)) (trackers (memset st)) \<and>
    dropped eff = filter (\<lambda>t. in_range s (s + l) (vaddr t)) (trackers (memset st)) \<and>
    (\<forall>t \<in> set (dropped eff). pt st' (vaddr t) = None)"
proof -
  have e: "uadd s l = s + l" "s < s + l" using assms(2,3) by (simp_all add: uadd_def)
  obtain kept news eff1 where p: "sub_pass (memset st) s (s + l) = (kept, news, eff1)" by (metis prod_cases3)
  have st': "memset st' = kept @ news" "pt st' = unmap_pages (pt st) (unmapped eff)" "eff = eff1"
    using assms(1) by (auto simp: sys_munmap_def sub_area_def e p)
  have range: "\<forall>a \<in> set (memset st). \<forall>t \<in> set (mtrackers a). area_contains a (vaddr t)"
    and mapped: "\<forall>t \<in> set (trackers (memset st)). pt st (vaddr t) = Some (tracker t)"
    using assms(4) by (auto simp: memset_wf_iff)
  note ns = sub_pass_nosplit [OF p e(2) assms(5) range]
  have "cover (memset st') v = (if in_range s (s + l) v then 0 else cover (memset st) v)" for v
    using sub_pass_cover [OF p e(2), of v] by (simp add: st')
  then show ?thesis
    using ns mapped by (auto simp: st' memset_wf_iff unmap_pages_def)
qed

definition three_pages :: MemState where
  "three_pages = empty_mem\<lparr>pt := [0x1000 \<mapsto> 0x80000000, 0x2000 \<mapsto> 0x80001000, 0x3000 \<mapsto> 0x80002000],
     memset := [\<lparr>mtype = Mmap, mtrackers = [\<lparr>vaddr = 0x1000, tracker = 0x80000000, rwx = 0\<rparr>,
       \<lparr>vaddr = 0x2000, tracker = 0x80001000, rwx = 0\<rparr>, \<lparr>vaddr = 0x3000, tracker = 0x80002000, rwx = 0\<rparr>],
       area_file = None, offset = 0, start = 0x1000, len = 0x3000\<rparr>]\<rparr>"

lemma three_pages_wf: "memset_wf (pt three_pages) (memset three_pages)"
  by (simp add: three_pages_def empty_mem_def memset_wf_def area_contains_def)

theorem munmap_removes_exactly_witness:
  "\<exists>st' eff. sys_munmap three_pages 0x2000 0x2000 = (st', eff) \<and> memset_wf (pt st') (memset st') \<and>
     cover (memset st') 0x2000 = 0"
proof -
  obtain st' eff where m: "sys_munmap three_pages 0x2000 0x2000 = (st', eff)" by fastforce
  have "\<forall>a \<in> set (memset three_pages). \<not> splits a 0x2000 (0x2000 + 0x2000)"
    by (simp add: three_pages_def empty_mem_def splits_def in_range_def)
  from munmap_removes_exactly [OF m _ _ three_pages_wf this] m show ?thesis
    by (simp add: USIZE_def in_range_def)
qed


text \<open>
  A request for frames of a process (contiguous, or in segments when no run is
  long enough) never panics on aligned addresses.  On success it appends one area
  whose trackers hold distinct frames, all free before, at consecutive pages that
  are mapped to them, and nothing else changes; on failure every frame taken on
  the way is free again and the address space is as before.
\<close>

theorem frame_alloc_fresh_or_unchanged:
  assumes "fa_wf (fa st)" "PAGE_SIZE dvd va" "va \<noteq> 0" "0 < n" "mt \<noteq> Stack"
  shows "\<exists>st' r. task_frame_alloc st va mt n = Ok (st', r) \<and>
     (case r of
        None \<Rightarrow> memset st' = memset st \<and> pt st' = pt st \<and> free_frames (fa st') = free_frames (fa st)
      | Some p \<Rightarrow> \<exists>ts. length ts = n \<and> map vaddr ts = map (\<lambda>i. va + i * PAGE_SIZE) [0..<n] \<and>
          distinct (map tracker ts) \<and> tracker ` set ts \<subseteq> free_frames (fa st) \<and>
          free_frames (fa st') = free_frames (fa st) - tracker ` set ts \<and>
          memset st' = memset st @ [\<lparr>mtype = mt, mtrackers = ts, area_file = None, offset = 0, start = va, len = n * PAGE_SIZE\<rparr>] \<and>
          (\<forall>t \<in> set ts. pt st' (vaddr t) = Some (tracker t)) \<and>
          (\<forall>v. v \<notin> vaddr ` set ts \<longrightarrow> pt st' v = pt st v))"
proof -
  obtain st' r where "task_frame_alloc st va mt n = Ok (st', r)" "frame_alloc_post st va mt n st' r"
    using task_frame_alloc_post [OF assms] by blast
  then show ?thesis
    by (intro exI [of _ st'] exI [of _ r])
      (auto simp: frame_alloc_post_def fresh_trackers_def split: option.splits)
qed

theorem frame_alloc_fresh_or_unchanged_witness:
  "\<exists>st' r. task_frame_alloc (empty_mem\<lparr>fa := [\<lparr>bits = [0], paddr = 0x1000, paddr_end = 0x41000\<rparr>]\<rparr>) 0x10000 Mmap 4 = Ok (st', r)"
proof -
  have "fa_wf [\<lparr>bits = [0], paddr = 0x1000, paddr_end = 0x41000\<rparr>]"
    by (simp add: fa_wf_def region_wf_def region_pages_def div_ceil_def PAGE_SIZE_def region_range_def)
  then show ?thesis
    using frame_alloc_fresh_or_unchanged [of "empty_mem\<lparr>fa := [\<lparr>bits = [0], paddr = 0x1000, paddr_end = 0x41000\<rparr>]\<rparr>"
        "0x10000" 4 Mmap]
    by (auto simp: PAGE_SIZE_def)
qed

end
