(* ===== verification/Ipc.thy ===== *)
theory Ipc
  imports Ordered_Map Byte_Order Memory
begin

text \<open>
  System V IPC, \<^verbatim>\<open>kernel/src/syscall/shm.rs\<close> and \<^verbatim>\<open>kernel/src/tasks/shm.rs\<close>: message
  queues, semaphores and shared memory, each a table from keys to objects.
\<close>

section \<open>Keys\<close>

text \<open>The key a \<^verbatim>\<open>get\<close> call works on: zero asks for a private one, past the largest in use.\<close>

definition ipc_key :: "(nat \<times> 'v) list \<Rightarrow> nat \<Rightarrow> nat \<Rightarrow> nat" where
  "ipc_key m base key = (if key = 0 then uadd (case bm_max_key m of Some t \<Rightarrow> t | None \<Rightarrow> base) 1 else key)"

definition IPC_CREAT :: u64 where
  "IPC_CREAT = 0x200"

definition IPC_NOWAIT :: u64 where
  "IPC_NOWAIT = 0x800"

definition MSG_NOERROR :: u64 where
  "MSG_NOERROR = 0x1000"

definition MSG_EXCEPT :: u64 where
  "MSG_EXCEPT = 0x2000"

section \<open>Message queues\<close>

record Message =
  mq_type :: int
  mq_text :: "u8 list"

record MessageQueue =
  mq_key :: nat
  messages :: "Message list"
  max_bytes :: nat
  current_bytes :: nat
  max_messages :: nat

type_synonym queues = "(nat \<times> MessageQueue) list"

definition mq_new :: "nat \<Rightarrow> MessageQueue" where
  "mq_new key = \<lparr>mq_key = key, messages = [], max_bytes = 16384, current_bytes = 0, max_messages = 40\<rparr>"

definition can_send :: "MessageQueue \<Rightarrow> nat \<Rightarrow> bool" where
  "can_send q msg_size \<longleftrightarrow> length (messages q) < max_messages q \<and> uadd (current_bytes q) msg_size \<le> max_bytes q"

definition send_message :: "MessageQueue \<Rightarrow> int \<Rightarrow> u8 list \<Rightarrow> MessageQueue \<times> bool" where
  "send_message q ty d =
     (if can_send q (length d)
      then (q\<lparr>current_bytes := uadd (current_bytes q) (length d),
              messages := messages q @ [\<lparr>mq_type = ty, mq_text = d\<rparr>]\<rparr>, True)
      else (q, False))"

text \<open>\<^verbatim>\<open>min_by_key\<close> over the indexed messages that pass: the first one of the least type.\<close>

fun min_type :: "int \<Rightarrow> Message list \<Rightarrow> nat \<Rightarrow> (nat \<times> int) option \<Rightarrow> nat option" where
  "min_type bound [] i best = map_option fst best"
| "min_type bound (m # ms) i best =
     min_type bound ms (Suc i)
       (if mq_type m \<le> bound \<and> (case best of None \<Rightarrow> True | Some (_, t) \<Rightarrow> mq_type m < t)
        then Some (i, mq_type m) else best)"

definition i64_neg :: "int \<Rightarrow> int" where
  "i64_neg i = (if i = - (2 ^ 63) then i else - i)"

definition receive_pos :: "MessageQueue \<Rightarrow> int \<Rightarrow> bool \<Rightarrow> nat option" where
  "receive_pos q ty except =
     (if ty = 0 then (if messages q = [] then None else Some 0)
      else if ty > 0 then position (\<lambda>m. if except then mq_type m \<noteq> ty else mq_type m = ty) (messages q)
      else min_type (i64_neg ty) (messages q) 0 None)"

definition receive_message :: "MessageQueue \<Rightarrow> int \<Rightarrow> bool \<Rightarrow> MessageQueue \<times> Message option" where
  "receive_message q ty except =
     (case receive_pos q ty except of
        Some i \<Rightarrow>
          (q\<lparr>messages := remove_nth i (messages q),
             current_bytes := usub (current_bytes q) (length (mq_text (messages q ! i)))\<rparr>, Some (messages q ! i))
      | None \<Rightarrow> (q, None))"

definition sys_msgget :: "queues \<Rightarrow> nat \<Rightarrow> u64 \<Rightarrow> queues \<times> nat res" where
  "sys_msgget qs key msgflg =
     (let actual_key = ipc_key qs 1000 key in
      case bm_get qs actual_key of
        Some _ \<Rightarrow> (qs, Ok actual_key)
      | None \<Rightarrow>
          if msgflg AND IPC_CREAT \<noteq> 0 then (bm_insert actual_key (mq_new actual_key) qs, Ok actual_key)
          else (qs, Err ENOENT))"

definition sys_msgctl :: "queues \<Rightarrow> nat \<Rightarrow> nat \<Rightarrow> queues \<times> nat res" where
  "sys_msgctl qs msqid cmd =
     (case bm_get qs msqid of
        Some _ \<Rightarrow> if cmd = 0 then (bm_remove msqid qs, Ok 0) else (qs, Ok 0)
      | None \<Rightarrow> (qs, Err EINVAL))"

text \<open>
  \<open>msgp\<close> is the user memory from the message pointer on, eight bytes of type and
  the text, \<open>None\<close> for an invalid pointer.
\<close>

definition sys_msgsnd :: "queues \<Rightarrow> nat \<Rightarrow> u8 list option \<Rightarrow> nat \<Rightarrow> u64 \<Rightarrow> queues \<times> nat res" where
  "sys_msgsnd qs msqid msgp msgsz msgflg =
     (case bm_get qs msqid of
        None \<Rightarrow> (qs, Err EINVAL)
      | Some q \<Rightarrow>
          (case msgp of
             None \<Rightarrow> (qs, Err EFAULT)
           | Some user \<Rightarrow>
               (let ty = i64_from_le (take 8 user); msg_data = take msgsz (drop 8 user) in
                if can_send q msgsz then (bm_insert msqid (fst (send_message q ty msg_data)) qs, Ok 0)
                else if msgflg AND IPC_NOWAIT \<noteq> 0 then (qs, Err EAGAIN)
                else (qs, Ok 0))))"

text \<open>The last component is what the call writes at the message pointer.\<close>

definition sys_msgrcv :: "queues \<Rightarrow> nat \<Rightarrow> bool \<Rightarrow> nat \<Rightarrow> int \<Rightarrow> u64 \<Rightarrow> queues \<times> nat res \<times> u8 list" where
  "sys_msgrcv qs msqid msgp_valid msgsz msgtyp msgflg =
     (case bm_get qs msqid of
        None \<Rightarrow> (qs, Err EINVAL, [])
      | Some q \<Rightarrow>
          (case receive_message q msgtyp (msgflg AND MSG_EXCEPT \<noteq> 0) of
             (q', Some m) \<Rightarrow>
               (let qs' = bm_insert msqid q' qs in
                if \<not> msgp_valid then (qs', Err EFAULT, [])
                else let data_len = min (length (mq_text m)) msgsz;
                         written = i64_to_le (mq_type m) @ take data_len (mq_text m)
                     in if length (mq_text m) > msgsz \<and> msgflg AND MSG_NOERROR = 0 then (qs', Err E2BIG, written)
                        else (qs', Ok data_len, written))
           | (q', None) \<Rightarrow> (bm_insert msqid q' qs, Err ENOMSG, [])))"

section \<open>Semaphores\<close>

record Semaphore =
  sem_key :: nat
  nsems :: nat
  sem_values :: "32 word list"

type_synonym semaphores = "(nat \<times> Semaphore) list"

definition sem_new :: "nat \<Rightarrow> nat \<Rightarrow> Semaphore" where
  "sem_new key n = \<lparr>sem_key = key, nsems = n, sem_values = replicate n 0\<rparr>"

definition sys_semget :: "semaphores \<Rightarrow> nat \<Rightarrow> nat \<Rightarrow> u64 \<Rightarrow> semaphores \<times> nat res" where
  "sys_semget sems key n semflg =
     (let actual_key = ipc_key sems 0 key in
      case bm_get sems actual_key of
        Some _ \<Rightarrow> (sems, Ok actual_key)
      | None \<Rightarrow>
          if semflg AND IPC_CREAT \<noteq> 0 then (bm_insert actual_key (sem_new actual_key n) sems, Ok actual_key)
          else (sems, Err ENOENT))"

text \<open>A value is reported sign extended to the width of the result.\<close>

definition sys_semctl :: "semaphores \<Rightarrow> nat \<Rightarrow> nat \<Rightarrow> nat \<Rightarrow> usize \<Rightarrow> semaphores \<times> usize res" where
  "sys_semctl sems semid semnum cmd arg =
     (case bm_get sems semid of
        None \<Rightarrow> (sems, Err EINVAL)
      | Some sem \<Rightarrow>
          if cmd = 16 then
            (if semnum < nsems sem
             then (bm_insert semid (sem\<lparr>sem_values := (sem_values sem)[semnum := of_nat arg]\<rparr>) sems, Ok 0)
             else (sems, Err EINVAL))
          else if cmd = 12 then
            (if semnum < nsems sem then (sems, Ok (unat (scast (sem_values sem ! semnum) :: 64 word)))
             else (sems, Err EINVAL))
          else if cmd = 0 then (bm_remove semid sems, Ok 0)
          else (sems, Ok 0))"

definition sys_semop :: "semaphores \<Rightarrow> nat \<Rightarrow> semaphores \<times> nat res" where
  "sys_semop sems semid = (sems, if bm_get sems semid \<noteq> None then Ok 0 else Err EINVAL)"

section \<open>Shared memory\<close>

text \<open>
  Segments are reference counted objects: the table and every attachment hold a
  reference.  The store of segments is indexed by their identity.
\<close>

record SharedMemory =
  shm_trackers :: "usize list"
  deleted :: bool

record MapedSharedMemory =
  shm_key :: nat
  shm_mem :: nat
  shm_start :: usize
  shm_size :: usize

record ShmState =
  shm_fa :: FrameAllocator
  segs :: "SharedMemory list"
  shm_table :: "(nat \<times> nat) list"
  attached :: "MapedSharedMemory list"

definition sys_shmget :: "ShmState \<Rightarrow> nat \<Rightarrow> nat \<Rightarrow> u64 \<Rightarrow> ShmState \<times> nat res" where
  "sys_shmget st key0 sz shmflg =
     (let key = ipc_key (shm_table st) 0 key0 in
      case bm_get (shm_table st) key of
        Some _ \<Rightarrow> (st, Ok key)
      | None \<Rightarrow>
          if shmflg AND 1000 > 0 then
            (case frame_alloc_much (shm_fa st) (div_ceil sz PAGE_SIZE) of
               Ok (fa', Some frames) \<Rightarrow>
                 (st\<lparr>shm_fa := fa', segs := segs st @ [\<lparr>shm_trackers = frames, deleted = False\<rparr>],
                     shm_table := bm_insert key (length (segs st)) (shm_table st)\<rparr>, Ok key)
             | _ \<Rightarrow> (st, Panic))
          else (st, Err ENOENT))"

definition shm_addr :: "MemState \<Rightarrow> usize \<Rightarrow> usize" where
  "shm_addr ms shmaddr =
     (let va = get_last_free_addr ms
      in if shmaddr = 0 then (if va \<ge> 0x40000000 then va else 0x40000000) else shmaddr)"

definition sys_shmat :: "ShmState \<Rightarrow> MemState \<Rightarrow> nat \<Rightarrow> usize \<Rightarrow> ShmState \<times> MemState \<times> usize res" where
  "sys_shmat st ms shmid shmaddr =
     (let va = shm_addr ms shmaddr in
      case bm_get (shm_table st) shmid of
        None \<Rightarrow> (st, ms, Err ENOENT)
      | Some seg \<Rightarrow>
          (let frames = shm_trackers (segs st ! seg);
               pages = map (\<lambda>(i, x). \<lparr>vaddr = va + i * PAGE_SIZE, tracker = x, rwx = 7\<rparr>) (enumerate 0 frames);
               sz = length frames * PAGE_SIZE
           in case map_pages (pt ms) pages of
                Ok pt' \<Rightarrow>
                  (st\<lparr>attached := attached st @ [\<lparr>shm_key = shmid, shm_mem = seg, shm_start = va, shm_size = sz\<rparr>]\<rparr>,
                   ms\<lparr>pt := pt', shms := shms ms @ [(va, sz)]\<rparr>, Ok va)
              | _ \<Rightarrow> (st, ms, Panic)))"

definition sys_shmctl :: "ShmState \<Rightarrow> nat \<Rightarrow> nat \<Rightarrow> ShmState \<times> nat res" where
  "sys_shmctl st shmid cmd =
     (if cmd = 0 then
        (case bm_get (shm_table st) shmid of
           Some seg \<Rightarrow> (st\<lparr>segs := (segs st)[seg := (segs st ! seg)\<lparr>deleted := True\<rparr>]\<rparr>, Ok 0)
         | None \<Rightarrow> (st, Ok 0))
      else (st, Err EPERM))"

definition strong_count :: "ShmState \<Rightarrow> nat \<Rightarrow> nat" where
  "strong_count st seg =
     length (filter (\<lambda>(_, s). s = seg) (shm_table st)) + length (filter (\<lambda>a. shm_mem a = seg) (attached st))"

text \<open>\<^verbatim>\<open>MapedSharedMemory::drop\<close>, which runs before the reference itself is released.\<close>

definition drop_attachment :: "ShmState \<Rightarrow> MapedSharedMemory \<Rightarrow> ShmState" where
  "drop_attachment st a =
     (let t = (if strong_count st (shm_mem a) = 1 \<and> deleted (segs st ! shm_mem a)
               then bm_remove (shm_key a) (shm_table st) else shm_table st)
      in st\<lparr>shm_table := t, attached := remove1 a (attached st)\<rparr>)"

section \<open>Accounting of a message queue\<close>

definition queue_bytes :: "MessageQueue \<Rightarrow> nat" where
  "queue_bytes q = sum_list (map (\<lambda>m. length (mq_text m)) (messages q))"

definition mq_wf :: "MessageQueue \<Rightarrow> bool" where
  "mq_wf q \<longleftrightarrow> max_bytes q = 16384 \<and> max_messages q = 40 \<and> current_bytes q = queue_bytes q \<and>
     length (messages q) \<le> 40 \<and> queue_bytes q \<le> 16384"

lemma mq_new_wf: "mq_wf (mq_new k)"
  by (simp add: mq_wf_def mq_new_def queue_bytes_def)

lemma send_message_wf:
  assumes "mq_wf q" "length d < 2 ^ 63"
  shows "mq_wf (fst (send_message q ty d))"
proof -
  have "uadd (queue_bytes q) (length d) = queue_bytes q + length d"
    using assms by (intro uadd_le) (simp add: mq_wf_def USIZE_def)
  then show ?thesis using assms by (auto simp: send_message_def can_send_def mq_wf_def queue_bytes_def)
qed

lemma sum_list_remove_nth:
  "i < length xs \<Longrightarrow> sum_list (map f xs) = f (xs ! i) + sum_list (map f (remove_nth i xs))" for f :: "'a \<Rightarrow> nat"
proof (induction xs arbitrary: i)
  case (Cons x xs)
  then show ?case by (cases i) auto
qed simp

lemma min_type_spec:
  assumes "case best of None \<Rightarrow> \<forall>j < length pre. mq_type (pre ! j) > bound
           | Some (i, t) \<Rightarrow> i < length pre \<and> mq_type (pre ! i) = t \<and> t \<le> bound \<and>
               (\<forall>j < length pre. t \<le> mq_type (pre ! j) \<and> (j < i \<longrightarrow> t < mq_type (pre ! j)))"
  shows "case min_type bound ms (length pre) best of
           None \<Rightarrow> \<forall>m \<in> set (pre @ ms). mq_type m > bound
         | Some i \<Rightarrow> i < length (pre @ ms) \<and> mq_type ((pre @ ms) ! i) \<le> bound \<and>
             (\<forall>j < length (pre @ ms). mq_type ((pre @ ms) ! i) \<le> mq_type ((pre @ ms) ! j) \<and>
                (j < i \<longrightarrow> mq_type ((pre @ ms) ! i) < mq_type ((pre @ ms) ! j)))"
  using assms
proof (induction ms arbitrary: pre best)
  case Nil
  then show ?case by (auto simp: all_set_conv_all_nth split: option.splits)
next
  case (Cons m ms)
  let ?b = "if mq_type m \<le> bound \<and> (case best of None \<Rightarrow> True | Some (_, t) \<Rightarrow> mq_type m < t)
            then Some (length pre, mq_type m) else best"
  have "case ?b of None \<Rightarrow> \<forall>j < length (pre @ [m]). mq_type ((pre @ [m]) ! j) > bound
        | Some (i, t) \<Rightarrow> i < length (pre @ [m]) \<and> mq_type ((pre @ [m]) ! i) = t \<and> t \<le> bound \<and>
            (\<forall>j < length (pre @ [m]). t \<le> mq_type ((pre @ [m]) ! j) \<and> (j < i \<longrightarrow> t < mq_type ((pre @ [m]) ! j)))"
    using Cons.prems by (cases best) (force simp: nth_append less_Suc_eq)+
  from Cons.IH [OF this] show ?case by (simp cong: option.case_cong)
qed

definition wanted :: "int \<Rightarrow> bool \<Rightarrow> Message \<Rightarrow> bool" where
  "wanted ty except m \<longleftrightarrow>
     (if ty = 0 then True
      else if ty > 0 then (if except then mq_type m \<noteq> ty else mq_type m = ty)
      else mq_type m \<le> i64_neg ty)"

lemma receive_pos_None: "receive_pos q ty ex = None \<longleftrightarrow> (\<forall>m \<in> set (messages q). \<not> wanted ty ex m)"
proof (cases "ty < 0")
  case True
  have s: "case min_type (i64_neg ty) (messages q) 0 None of
      None \<Rightarrow> \<forall>m \<in> set (messages q). mq_type m > i64_neg ty
    | Some i \<Rightarrow> i < length (messages q) \<and> mq_type (messages q ! i) \<le> i64_neg ty"
    using min_type_spec [where best = None and pre = "[]" and bound = "i64_neg ty" and ms = "messages q"] by (auto split: option.splits)
  show ?thesis
  proof (cases "min_type (i64_neg ty) (messages q) 0 None")
    case None
    with s True show ?thesis by (auto simp: receive_pos_def wanted_def)
  next
    case (Some i)
    with s have "messages q ! i \<in> set (messages q)" "mq_type (messages q ! i) \<le> i64_neg ty" by auto
    with Some True show ?thesis by (auto simp: receive_pos_def wanted_def)
  qed
qed (auto simp: receive_pos_def wanted_def position_None)

lemma receive_pos_Some:
  assumes "receive_pos q ty ex = Some i"
  shows "i < length (messages q)" "wanted ty ex (messages q ! i)"
    "ty \<ge> 0 \<Longrightarrow> j < i \<Longrightarrow> \<not> wanted ty ex (messages q ! j)"
    "ty < 0 \<Longrightarrow> j < length (messages q) \<Longrightarrow> mq_type (messages q ! i) \<le> mq_type (messages q ! j)"
    "ty < 0 \<Longrightarrow> j < i \<Longrightarrow> mq_type (messages q ! i) < mq_type (messages q ! j)"
proof -
  have neg: "i < length (messages q) \<and> mq_type (messages q ! i) \<le> i64_neg ty \<and>
     (\<forall>j < length (messages q). mq_type (messages q ! i) \<le> mq_type (messages q ! j) \<and>
       (j < i \<longrightarrow> mq_type (messages q ! i) < mq_type (messages q ! j)))" if "ty < 0"
    using min_type_spec [where best = None and pre = "[]" and bound = "i64_neg ty" and ms = "messages q"] assms that by (simp add: receive_pos_def)
  note pos = position_Some [of _ "messages q" i]
  show "i < length (messages q)" "wanted ty ex (messages q ! i)"
    "ty \<ge> 0 \<Longrightarrow> j < i \<Longrightarrow> \<not> wanted ty ex (messages q ! j)"
    "ty < 0 \<Longrightarrow> j < length (messages q) \<Longrightarrow> mq_type (messages q ! i) \<le> mq_type (messages q ! j)"
    "ty < 0 \<Longrightarrow> j < i \<Longrightarrow> mq_type (messages q ! i) < mq_type (messages q ! j)"
    using assms neg pos by (cases "ty < 0"; force simp: receive_pos_def wanted_def split: if_splits)+
qed

lemma receive_message_wf: "mq_wf q \<Longrightarrow> mq_wf (fst (receive_message q ty ex))"
proof (cases "receive_pos q ty ex")
  case (Some i)
  assume wf: "mq_wf q"
  note i = receive_pos_Some(1) [OF Some]
  note s = sum_list_remove_nth [OF i, of "\<lambda>m. length (mq_text m)"]
  have "usub (queue_bytes q) (length (mq_text (messages q ! i))) = sum_list (map (\<lambda>m. length (mq_text m)) (remove_nth i (messages q)))"
    using s by (subst usub_le) (auto simp: queue_bytes_def)
  then show ?thesis using wf s i Some by (auto simp: receive_message_def mq_wf_def queue_bytes_def length_remove_nth)
qed (simp add: receive_message_def)

section \<open>The message calls\<close>

text \<open>A system call of some process on the table of queues, with user memory below \<open>2 ^ 63\<close> bytes.\<close>

inductive msg_step :: "queues \<Rightarrow> queues \<Rightarrow> bool" where
  get_step: "msg_step qs (fst (sys_msgget qs key flg))"
| ctl_step: "msg_step qs (fst (sys_msgctl qs msqid cmd))"
| snd_step: "length user < 2 ^ 63 \<Longrightarrow> msg_step qs (fst (sys_msgsnd qs msqid (Some user) msgsz flg))"
| snd_fault_step: "msg_step qs (fst (sys_msgsnd qs msqid None msgsz flg))"
| rcv_step: "msg_step qs (fst (sys_msgrcv qs msqid valid msgsz ty flg))"

definition queues_wf :: "queues \<Rightarrow> bool" where
  "queues_wf qs \<longleftrightarrow> bm_wf qs \<and> (\<forall>k q. bm_get qs k = Some q \<longrightarrow> mq_wf q)"

lemma queues_wf_insert: "queues_wf qs \<Longrightarrow> mq_wf q \<Longrightarrow> queues_wf (bm_insert k q qs)"
  by (auto simp: queues_wf_def bm_wf_insert bm_get_insert split: if_splits)

lemma queues_wf_remove: "queues_wf qs \<Longrightarrow> queues_wf (bm_remove k qs)"
  by (auto simp: queues_wf_def bm_wf_remove bm_get_remove split: if_splits)

lemma queues_wf_get: "queues_wf qs \<Longrightarrow> bm_get qs k = Some q \<Longrightarrow> mq_wf q"
  by (simp add: queues_wf_def)

lemma msgrcv_state:
  "bm_get qs k = Some q \<Longrightarrow>
     fst (sys_msgrcv qs k valid msgsz ty flg) = bm_insert k (fst (receive_message q ty (flg AND MSG_EXCEPT \<noteq> 0))) qs"
  by (auto simp: sys_msgrcv_def Let_def split: prod.splits option.splits)

lemma msg_step_wf:
  assumes "msg_step qs qs'" "queues_wf qs"
  shows "queues_wf qs'"
  using assms
proof (cases rule: msg_step.cases)
  case (get_step key flg)
  then show ?thesis using assms(2) by (auto simp: sys_msgget_def Let_def queues_wf_insert mq_new_wf split: option.splits)
next
  case (ctl_step msqid cmd)
  then show ?thesis using assms(2) by (auto simp: sys_msgctl_def queues_wf_remove split: option.splits)
next
  case (snd_step user msqid msgsz flg)
  have "length (take msgsz (drop 8 user)) < 2 ^ 63" using snd_step(2) by simp
  then show ?thesis using snd_step assms(2)
    by (auto simp: sys_msgsnd_def Let_def split: option.splits intro!: queues_wf_insert send_message_wf dest: queues_wf_get)
next
  case (snd_fault_step msqid msgsz flg)
  then show ?thesis using assms(2) by (auto simp: sys_msgsnd_def split: option.splits)
next
  case (rcv_step msqid valid msgsz ty flg)
  show ?thesis
  proof (cases "bm_get qs msqid")
    case (Some q)
    then show ?thesis using rcv_step assms(2) receive_message_wf queues_wf_get
      by (auto simp: msgrcv_state intro!: queues_wf_insert)
  qed (use rcv_step assms(2) in \<open>simp add: sys_msgrcv_def\<close>)
qed

lemma msg_reachable_wf: "msg_step\<^sup>*\<^sup>* [] qs \<Longrightarrow> queues_wf qs"
proof (induction rule: rtranclp_induct)
  case base
  show ?case by (simp add: queues_wf_def bm_get_def)
qed (rule msg_step_wf)



text \<open>The message at position \<open>i\<close> is the one \<^verbatim>\<open>msgrcv\<close> has to deliver.\<close>

definition delivers :: "Message list \<Rightarrow> int \<Rightarrow> bool \<Rightarrow> nat \<Rightarrow> bool" where
  "delivers ms ty ex i \<longleftrightarrow> i < length ms \<and> wanted ty ex (ms ! i) \<and>
     (if ty \<ge> 0 then \<forall>j < i. \<not> wanted ty ex (ms ! j)
      else (\<forall>j < length ms. mq_type (ms ! i) \<le> mq_type (ms ! j)) \<and>
           (\<forall>j < i. mq_type (ms ! i) < mq_type (ms ! j)))"

lemma receive_pos_delivers: "receive_pos q ty ex = Some i \<Longrightarrow> delivers (messages q) ty ex i"
  using receive_pos_Some [of q ty ex i] by (auto simp: delivers_def)

text \<open>
  \<^verbatim>\<open>msgrcv\<close> takes the message the type asks for.  It fails with
  \<^verbatim>\<open>ENOMSG\<close> and changes nothing exactly when no message is wanted; otherwise a
  type of zero or more takes the first wanted message in queue order and a
  negative one the first of those with the least type.  Its type and text, cut
  to the size of the buffer, are written, the result is the length of the text
  or \<^verbatim>\<open>E2BIG\<close>, and the other messages stay in order.
\<close>

theorem msgrcv_takes_the_wanted_message:
  assumes "bm_wf qs" "bm_get qs msqid = Some q"
    "sys_msgrcv qs msqid True msgsz ty flg = (qs', r, out)" "ex = (flg AND MSG_EXCEPT \<noteq> 0)"
  shows "if \<forall>m \<in> set (messages q). \<not> wanted ty ex m then r = Err ENOMSG \<and> bm_get qs' = bm_get qs \<and> out = []
    else \<exists>i q'. delivers (messages q) ty ex i \<and> bm_get qs' = (bm_get qs)(msqid \<mapsto> q') \<and>
      messages q' = take i (messages q) @ drop (Suc i) (messages q) \<and>
      out = i64_to_le (mq_type (messages q ! i)) @ take msgsz (mq_text (messages q ! i)) \<and>
      r = (if length (mq_text (messages q ! i)) > msgsz \<and> flg AND MSG_NOERROR = 0 then Err E2BIG
           else Ok (min (length (mq_text (messages q ! i))) msgsz))"
proof (cases "receive_pos q ty ex")
  case None
  with assms have "r = Err ENOMSG \<and> qs' = bm_insert msqid q qs \<and> out = []"
    by (simp add: sys_msgrcv_def receive_message_def)
  with None assms(1,2) show ?thesis by (auto simp: receive_pos_None bm_get_insert)
next
  case (Some i)
  let ?m = "messages q ! i" and ?q' = "fst (receive_message q ty ex)"
  have "qs' = bm_insert msqid ?q' qs" using assms msgrcv_state [of qs msqid q True msgsz ty flg] by simp
  then have "bm_get qs' = (bm_get qs)(msqid \<mapsto> ?q')" using assms(1) by (auto simp: bm_get_insert)
  moreover have "messages ?q' = take i (messages q) @ drop (Suc i) (messages q)"
    by (simp add: receive_message_def Some remove_nth_def)
  moreover have "out = i64_to_le (mq_type ?m) @ take msgsz (mq_text ?m)"
    "r = (if length (mq_text ?m) > msgsz \<and> flg AND MSG_NOERROR = 0 then Err E2BIG
          else Ok (min (length (mq_text ?m)) msgsz))"
    using assms Some by (auto simp: sys_msgrcv_def receive_message_def Let_def min_def split: if_splits)
  moreover have "\<not> (\<forall>m \<in> set (messages q). \<not> wanted ty ex m)"
    using Some by (simp add: receive_pos_None [symmetric])
  ultimately show ?thesis using receive_pos_delivers [OF Some] by (subst if_not_P) blast+
qed

definition two_types :: MessageQueue where
  "two_types = (mq_new 7)\<lparr>messages := [\<lparr>mq_type = 5, mq_text = [1, 2]\<rparr>, \<lparr>mq_type = 3, mq_text = [9]\<rparr>], current_bytes := 3\<rparr>"

theorem msgrcv_takes_the_wanted_message_witness:
  "\<exists>i. delivers (messages two_types) (- 4) False i \<and> mq_type (messages two_types ! i) = 3"
proof -
  have s: "sys_msgrcv [(7, two_types)] 7 True 16 (- 4) 0 =
      ([(7, fst (receive_message two_types (- 4) False))], Ok 1, i64_to_le 3 @ [9])"
    by (simp add: sys_msgrcv_def bm_get_def receive_message_def receive_pos_def two_types_def i64_neg_def)
  have "\<not> (\<forall>m \<in> set (messages two_types). \<not> wanted (- 4) False m)"
    by (simp add: two_types_def wanted_def i64_neg_def)
  with msgrcv_takes_the_wanted_message [OF _ _ s, of two_types False]
  obtain i where i: "delivers (messages two_types) (- 4) False i"
    by (auto simp: bm_get_def bm_wf_def)
  then have "mq_type (messages two_types ! i) \<le> 4"
    by (simp add: delivers_def wanted_def i64_neg_def)
  moreover have "i < 2" using i by (simp add: delivers_def two_types_def)
  ultimately have "mq_type (messages two_types ! i) = 3"
    by (auto simp: two_types_def less_Suc_eq numeral_2_eq_2)
  with i show ?thesis by blast
qed

text \<open>
  A message that finds room comes back unchanged.  When no message of type
  \<open>ty\<close> is queued, sending one and receiving type \<open>ty\<close> into a large enough buffer
  succeed, write the same eight bytes of type and the same text, and leave
  every queue as before.
\<close>

theorem msgsnd_msgrcv_round_trip:
  assumes wf: "queues_wf qs" "bm_get qs msqid = Some q"
    and ty: "0 < ty" "ty < 2 ^ 63" "\<forall>m \<in> set (messages q). mq_type m \<noteq> ty"
    and room: "length (messages q) < 40" "queue_bytes q + length d \<le> 16384" "length d \<le> bufsz"
    and snd: "sys_msgsnd qs msqid (Some (i64_to_le ty @ d)) (length d) flg = (qs1, r1)"
    and rcv: "sys_msgrcv qs1 msqid True bufsz ty 0 = (qs2, r2, out)"
  shows "r1 = Ok 0 \<and> r2 = Ok (length d) \<and> out = i64_to_le ty @ d \<and> bm_get qs2 = bm_get qs"
proof -
  have q: "mq_wf q" and b: "bm_wf qs" using wf by (auto simp: queues_wf_def)
  have u: "uadd (queue_bytes q) (length d) = queue_bytes q + length d"
    using room by (intro uadd_le) (simp add: USIZE_def)
  let ?m = "\<lparr>mq_type = ty, mq_text = d\<rparr>"
  let ?q1 = "q\<lparr>current_bytes := queue_bytes q + length d, messages := messages q @ [?m]\<rparr>"
  have l: "length (i64_to_le ty) = 8" by (simp add: i64_to_le_def)
  have "can_send q (length d)" using q room u by (simp add: can_send_def mq_wf_def)
  then have s: "qs1 = bm_insert msqid ?q1 qs \<and> r1 = Ok 0"
    using snd wf(2) q l u i64_round_trip [of ty] ty(1,2)
    by (simp add: sys_msgsnd_def send_message_def mq_wf_def Let_def split: if_splits)
  have p: "position (\<lambda>m. mq_type m = ty) (messages q @ [?m]) = Some (length (messages q))"
    using ty(3) by (auto simp: position_Some nth_append)
  have "fst (receive_message ?q1 ty False) = q" "snd (receive_message ?q1 ty False) = Some ?m"
    using ty(1) q by (auto simp: receive_message_def receive_pos_def p remove_nth_def usub_le mq_wf_def)
  then have "receive_message ?q1 ty False = (q, Some ?m)" by (simp add: prod_eq_iff)
  then have "qs2 = bm_insert msqid q qs1 \<and> r2 = Ok (length d) \<and> out = i64_to_le ty @ d"
    using rcv s b room(3) by (simp add: sys_msgrcv_def bm_get_insert Let_def)
  then show ?thesis using s b wf(2) by (auto simp: bm_get_insert bm_wf_insert)
qed

theorem msgsnd_msgrcv_round_trip_witness:
  "case sys_msgsnd [(7, mq_new 7)] 7 (Some (i64_to_le 5 @ [1, 2])) 2 0 of (qs1, r1) \<Rightarrow>
     case sys_msgrcv qs1 7 True 16 5 0 of (qs2, r2, out) \<Rightarrow> r2 = Ok 2 \<and> out = i64_to_le 5 @ [1, 2]"
proof -
  obtain qs1 r1 where s: "sys_msgsnd [(7, mq_new 7)] 7 (Some (i64_to_le 5 @ [1, 2])) (length [1, 2 :: u8]) 0 = (qs1, r1)"
    by fastforce
  obtain qs2 r2 out where r: "sys_msgrcv qs1 7 True 16 5 0 = (qs2, r2, out)" by (cases "sys_msgrcv qs1 7 True 16 5 0") auto
  have "queues_wf [(7, mq_new 7)]" by (simp add: queues_wf_def bm_wf_def bm_get_def mq_new_wf)
  from msgsnd_msgrcv_round_trip [OF this _ _ _ _ _ _ _ s r]
  have "r2 = Ok 2 \<and> out = i64_to_le 5 @ [1, 2]" by (simp add: bm_get_def mq_new_def queue_bytes_def)
  then show ?thesis using s r by (simp add: numeral_2_eq_2)
qed

section \<open>Private keys and shared segments\<close>

text \<open>A private key is one past the largest key in use, so it names nothing yet.\<close>

lemma ipc_key_fresh:
  assumes "bm_wf m" "\<forall>t. bm_max_key m = Some t \<longrightarrow> t + 1 < USIZE" "base + 1 < USIZE"
  shows "bm_get m (ipc_key m base 0) = None"
proof -
  have "ipc_key m base 0 = Suc (case bm_max_key m of Some t \<Rightarrow> t | None \<Rightarrow> base)"
    using assms(2,3) by (simp add: ipc_key_def uadd_le split: option.splits)
  then show ?thesis using bm.fresh_key [OF assms(1)] by simp
qed

lemma map_pages_lookup:
  assumes "\<forall>t \<in> set ts. tracker t mod PAGE_SIZE = 0 \<and> vaddr t mod PAGE_SIZE = 0" "distinct (map vaddr ts)"
  shows "\<exists>p'. map_pages p ts = Ok p' \<and> (\<forall>t \<in> set ts. p' (vaddr t) = Some (tracker t)) \<and>
    (\<forall>v. v \<notin> vaddr ` set ts \<longrightarrow> p' v = p v)"
  using assms
proof (induction ts arbitrary: p)
  case (Cons t ts)
  from Cons.IH [of "p(vaddr t \<mapsto> tracker t)"] Cons.prems obtain p' where
    p': "map_pages (p(vaddr t \<mapsto> tracker t)) ts = Ok p'" "\<forall>x \<in> set ts. p' (vaddr x) = Some (tracker x)"
    "\<forall>v. v \<notin> vaddr ` set ts \<longrightarrow> p' v = (p(vaddr t \<mapsto> tracker t)) v"
    by (auto simp del: fun_upd_apply)
  then show ?case using Cons.prems by (intro exI [of _ p']) auto
qed simp

text \<open>What an attachment maps: page \<open>i\<close> of the segment at page \<open>i\<close> of the chosen address.\<close>

lemma sys_shmat_maps:
  assumes "bm_get (shm_table st) shmid = Some seg" "\<forall>f \<in> set (shm_trackers (segs st ! seg)). f mod PAGE_SIZE = 0"
    "shm_addr ms addr mod PAGE_SIZE = 0" "sys_shmat st ms shmid addr = (st', ms', r)"
  shows "r = Ok (shm_addr ms addr)"
    "i < length (shm_trackers (segs st ! seg)) \<Longrightarrow>
       pt ms' (shm_addr ms addr + i * PAGE_SIZE) = Some (shm_trackers (segs st ! seg) ! i)"
    "segs st' = segs st" "shm_table st' = shm_table st"
proof -
  let ?fs = "shm_trackers (segs st ! seg)" and ?va = "shm_addr ms addr"
  let ?ts = "map (\<lambda>(i, x). \<lparr>vaddr = ?va + i * PAGE_SIZE, tracker = x, rwx = 7\<rparr>) (enumerate 0 ?fs)"
  have a: "\<forall>t \<in> set ?ts. tracker t mod PAGE_SIZE = 0 \<and> vaddr t mod PAGE_SIZE = 0"
    using assms(2,3) by (auto simp: in_set_enumerate_eq)
  have "map vaddr ?ts = map (\<lambda>i. ?va + i * PAGE_SIZE) [0..<length ?fs]"
    by (intro nth_equalityI) (auto simp: nth_enumerate_eq)
  then have d: "distinct (map vaddr ?ts)" by (simp add: distinct_map inj_on_def PAGE_SIZE_def)
  obtain p' where p': "map_pages (pt ms) ?ts = Ok p'" "\<forall>t \<in> set ?ts. p' (vaddr t) = Some (tracker t)"
    using map_pages_lookup [OF a d] by blast
  have e: "r = Ok ?va \<and> pt ms' = p' \<and> segs st' = segs st \<and> shm_table st' = shm_table st"
    using assms(1,4) p'(1) by (auto simp: sys_shmat_def Let_def)
  then show "r = Ok ?va" "segs st' = segs st" "shm_table st' = shm_table st" by auto
  show "pt ms' (?va + i * PAGE_SIZE) = Some (?fs ! i)" if "i < length ?fs"
  proof -
    have "\<lparr>vaddr = ?va + i * PAGE_SIZE, tracker = ?fs ! i, rwx = 7\<rparr> \<in> set ?ts"
      using that by (force simp: in_set_enumerate_eq)
    then show ?thesis using p'(2) e by fastforce
  qed
qed

text \<open>
  Attached segments are shared.  When two address spaces attach the same
  segment, page \<open>i\<close> of the two mappings translates to the same physical frame,
  the one \<^verbatim>\<open>shmget\<close> allocated, whatever addresses the mappings are at.
\<close>

theorem shmat_shares_frames:
  assumes "bm_get (shm_table st) shmid = Some seg" "\<forall>f \<in> set (shm_trackers (segs st ! seg)). f mod PAGE_SIZE = 0"
    "shm_addr ms1 addr1 mod PAGE_SIZE = 0" "shm_addr ms2 addr2 mod PAGE_SIZE = 0"
    "sys_shmat st ms1 shmid addr1 = (st1, ms1', r1)" "sys_shmat st1 ms2 shmid addr2 = (st2, ms2', r2)"
    "i < length (shm_trackers (segs st ! seg))"
  shows "\<exists>va1 va2. r1 = Ok va1 \<and> r2 = Ok va2 \<and>
    pt ms1' (va1 + i * PAGE_SIZE) = Some (shm_trackers (segs st ! seg) ! i) \<and>
    pt ms2' (va2 + i * PAGE_SIZE) = pt ms1' (va1 + i * PAGE_SIZE)"
proof -
  note a = sys_shmat_maps [OF assms(1,2,3,5)]
  note b = sys_shmat_maps [of st1 shmid seg ms2 addr2, unfolded a(3,4), OF assms(1,2,4,6)]
  show ?thesis using a(1,2) b(1,2) assms(7) by simp
qed

definition one_segment :: ShmState where
  "one_segment = \<lparr>shm_fa = [], segs = [\<lparr>shm_trackers = [0x80200000, 0x80201000], deleted = False\<rparr>],
     shm_table = [(3, 0)], attached = []\<rparr>"

definition no_areas :: MemState where
  "no_areas = \<lparr>fa = [], pt = Map.empty, memset = [], heap = 0, shms = []\<rparr>"

theorem shmat_shares_frames_witness:
  "case sys_shmat one_segment no_areas 3 0 of (st1, ms1, r1) \<Rightarrow>
     case sys_shmat st1 no_areas 3 0x60000000 of (st2, ms2, r2) \<Rightarrow>
       \<exists>va1 va2. r1 = Ok va1 \<and> r2 = Ok va2 \<and> pt ms2 (va2 + 0x1000) = pt ms1 (va1 + 0x1000)"
proof -
  obtain st1 ms1 r1 where a: "sys_shmat one_segment no_areas 3 0 = (st1, ms1, r1)" by (cases "sys_shmat one_segment no_areas 3 0")
  obtain st2 ms2 r2 where b: "sys_shmat st1 no_areas 3 0x60000000 = (st2, ms2, r2)" by (cases "sys_shmat st1 no_areas 3 0x60000000")
  have "\<exists>va1 va2. r1 = Ok va1 \<and> r2 = Ok va2 \<and>
      pt ms1 (va1 + 1 * PAGE_SIZE) = Some (shm_trackers (segs one_segment ! 0) ! 1) \<and>
      pt ms2 (va2 + 1 * PAGE_SIZE) = pt ms1 (va1 + 1 * PAGE_SIZE)"
    by (rule shmat_shares_frames [OF _ _ _ _ a b])
      (simp_all add: one_segment_def bm_get_def PAGE_SIZE_def shm_addr_def no_areas_def get_last_free_addr_def)
  then show ?thesis unfolding a b prod.case by (auto simp: b PAGE_SIZE_def)
qed

text \<open>
  A deleted segment stays in the table: the table's own reference keeps the
  count of an attached segment above one, so dropping an attachment never
  removes it.
\<close>

lemma drop_attachment_keeps_table:
  assumes "a \<in> set (attached st)" "(k, shm_mem a) \<in> set (shm_table st)"
  shows "shm_table (drop_attachment st a) = shm_table st"
proof -
  have "filter (\<lambda>(_, s). s = shm_mem a) (shm_table st) \<noteq> []" "filter (\<lambda>b. shm_mem b = shm_mem a) (attached st) \<noteq> []"
    using assms by (auto simp: filter_empty_conv)
  then have "0 < length (filter (\<lambda>(_, s). s = shm_mem a) (shm_table st))"
    "0 < length (filter (\<lambda>b. shm_mem b = shm_mem a) (attached st))" by blast+
  then have "strong_count st (shm_mem a) > 1" unfolding strong_count_def by linarith
  then show ?thesis by (simp add: drop_attachment_def Let_def)
qed

text \<open>A mode such as \<open>0o666\<close> creates a segment without \<^verbatim>\<open>IPC_CREAT\<close>: the mask is the decimal 1000.\<close>

lemma shmget_mode_creates:
  assumes "bm_get (shm_table st) 5 = None" "frame_alloc_much (shm_fa st) 1 = Ok (fa', Some fs)"
  shows "sys_shmget st 5 4096 0x1b6 =
    (st\<lparr>shm_fa := fa', segs := segs st @ [\<lparr>shm_trackers = fs, deleted = False\<rparr>],
        shm_table := bm_insert 5 (length (segs st)) (shm_table st)\<rparr>, Ok 5)"
  using assms by (simp add: sys_shmget_def ipc_key_def div_ceil_def PAGE_SIZE_def)

text \<open>The semaphore values: a value set is the value read, and an operation leaves it as it is.\<close>

lemma semctl_set_get:
  assumes "bm_wf sems" "bm_get sems semid = Some sem" "n < nsems sem" "length (sem_values sem) = nsems sem" "v < 2 ^ 31"
    "sys_semctl sems semid n 16 v = (sems', r)"
  shows "r = Ok 0 \<and> sys_semctl sems' semid n 12 0 = (sems', Ok v)"
proof -
  have "sint (of_nat v :: 32 word) = int v"
    using assms(5) by (simp add: signed_of_nat signed_take_bit_int_eq_self)
  moreover have "of_int (sint (of_nat v :: 32 word)) = (scast (of_nat v :: 32 word) :: 64 word)"
    by (rule of_int_sint)
  ultimately have "(scast (of_nat v :: 32 word) :: 64 word) = of_nat v" by simp
  then have "unat (scast (of_nat v :: 32 word) :: 64 word) = v"
    using assms(5) by (simp add: unat_of_nat take_bit_nat_eq_self)
  then show ?thesis using assms by (auto simp: sys_semctl_def bm_get_insert)
qed

lemma semop_is_a_no_op: "fst (sys_semop sems semid) = sems"
  by (simp add: sys_semop_def)

end
