(* ===== verification/Signals.thy ===== *)
theory Signals
  imports Kernel_Prelude
begin

text \<open>
  Signals: the flag sets of \<^verbatim>\<open>crates/signal/src/lib.rs\<close>, the pending set and the
  real-time queue of a thread (\<^verbatim>\<open>kernel/src/tasks/signal.rs\<close>, the \<^verbatim>\<open>tcb\<close> fields of
  \<^verbatim>\<open>kernel/src/tasks/task.rs\<close>), the system calls that send signals and change masks
  and actions (\<^verbatim>\<open>kernel/src/syscall/signal.rs\<close>, \<^verbatim>\<open>kernel/src/syscall/task.rs\<close>) and
  the delivery loop of \<^verbatim>\<open>kernel/src/user/entry.rs\<close>.
\<close>

section \<open>Signal flags\<close>

definition REAL_TIME_SIGNAL_NUM :: nat where
  "REAL_TIME_SIGNAL_NUM = 33"

definition SIGHUP :: u64 where "SIGHUP = push_bit 0 1"
definition SIGINT :: u64 where "SIGINT = push_bit 1 1"
definition SIGQUIT :: u64 where "SIGQUIT = push_bit 2 1"
definition SIGILL :: u64 where "SIGILL = push_bit 3 1"
definition SIGTRAP :: u64 where "SIGTRAP = push_bit 4 1"
definition SIGABRT :: u64 where "SIGABRT = push_bit 5 1"
definition SIGBUS :: u64 where "SIGBUS = push_bit 6 1"
definition SIGFPE :: u64 where "SIGFPE = push_bit 7 1"
definition SIGKILL :: u64 where "SIGKILL = push_bit 8 1"
definition SIGUSR1 :: u64 where "SIGUSR1 = push_bit 9 1"
definition SIGSEGV :: u64 where "SIGSEGV = push_bit 10 1"
definition SIGUSR2 :: u64 where "SIGUSR2 = push_bit 11 1"
definition SIGPIPE :: u64 where "SIGPIPE = push_bit 12 1"
definition SIGALRM :: u64 where "SIGALRM = push_bit 13 1"
definition SIGTERM :: u64 where "SIGTERM = push_bit 14 1"
definition SIGCHLD :: u64 where "SIGCHLD = push_bit 16 1"
definition SIGCONT :: u64 where "SIGCONT = push_bit 17 1"
definition SIGSTOP :: u64 where "SIGSTOP = push_bit 18 1"
definition SIGTSTP :: u64 where "SIGTSTP = push_bit 19 1"
definition SIGTTIN :: u64 where "SIGTTIN = push_bit 20 1"
definition SIGTTOU :: u64 where "SIGTTOU = push_bit 21 1"
definition SIGURG :: u64 where "SIGURG = push_bit 22 1"
definition SIGXCPU :: u64 where "SIGXCPU = push_bit 23 1"
definition SIGXFSZ :: u64 where "SIGXFSZ = push_bit 24 1"
definition SIGVTALRM :: u64 where "SIGVTALRM = push_bit 25 1"
definition SIGPROF :: u64 where "SIGPROF = push_bit 26 1"
definition SIGWINCH :: u64 where "SIGWINCH = push_bit 27 1"
definition SIGIO :: u64 where "SIGIO = push_bit 28 1"
definition SIGPWR :: u64 where "SIGPWR = push_bit 29 1"
definition SIGSYS :: u64 where "SIGSYS = push_bit 30 1"
definition SIGTIMER :: u64 where "SIGTIMER = push_bit 31 1"
definition SIGCANCEL :: u64 where "SIGCANCEL = push_bit 32 1"
definition SIGSYNCCALL :: u64 where "SIGSYNCCALL = push_bit 33 1"
definition SIGRTMAX :: u64 where "SIGRTMAX = push_bit 63 1"

lemmas signal_consts =
  SIGHUP_def
  SIGINT_def
  SIGQUIT_def
  SIGILL_def
  SIGTRAP_def
  SIGABRT_def
  SIGBUS_def
  SIGFPE_def
  SIGKILL_def
  SIGUSR1_def
  SIGSEGV_def
  SIGUSR2_def
  SIGPIPE_def
  SIGALRM_def
  SIGTERM_def
  SIGCHLD_def
  SIGCONT_def
  SIGSTOP_def
  SIGTSTP_def
  SIGTTIN_def
  SIGTTOU_def
  SIGURG_def
  SIGXCPU_def
  SIGXFSZ_def
  SIGVTALRM_def
  SIGPROF_def
  SIGWINCH_def
  SIGIO_def
  SIGPWR_def
  SIGSYS_def
  SIGTIMER_def
  SIGCANCEL_def
  SIGSYNCCALL_def
  SIGRTMAX_def

text \<open>
  The shift amount of \<^verbatim>\<open>1 << (num - 1)\<close> wraps below zero and is reduced modulo the
  width in the release build; every bit of the word is a named flag, so
  \<^verbatim>\<open>from_bits_truncate\<close> drops nothing.
\<close>

definition from_num :: "usize \<Rightarrow> u64" where
  "from_num num = push_bit (usub num 1 mod 64) 1"

definition sig_num :: "u64 \<Rightarrow> nat" where
  "sig_num flags = (case List.find (\<lambda>i. bit flags i) [0..<64] of Some i \<Rightarrow> i + 1 | None \<Rightarrow> 0)"

definition is_real_time :: "u64 \<Rightarrow> bool" where
  "is_real_time flags \<longleftrightarrow> flags AND 0xFFFFFFFE00000000 \<noteq> 0"

definition real_time_index :: "u64 \<Rightarrow> nat option" where
  "real_time_index flags = (if is_real_time flags then Some (usub (sig_num flags) 32) else None)"

section \<open>Masks\<close>

datatype SigMaskHow = Block | Unblock | Setmask

definition sig_mask_how :: "usize \<Rightarrow> SigMaskHow option" where
  "sig_mask_how how = (if how = 0 then Some Block else if how = 1 then Some Unblock
     else if how = 2 then Some Setmask else None)"

type_synonym SigProcMask = u64

fun mask_handle :: "SigProcMask \<Rightarrow> SigMaskHow \<Rightarrow> SigProcMask \<Rightarrow> SigProcMask" where
  "mask_handle self Block m = self OR m"
| "mask_handle self Unblock m = self AND NOT m"
| "mask_handle self Setmask m = m"

definition masked :: "SigProcMask \<Rightarrow> nat \<Rightarrow> bool" where
  "masked self signum \<longleftrightarrow> drop_bit (signum mod 64) self AND 1 = 0"

record SigAction =
  handler :: usize
  flags :: usize
  restorer :: usize
  act_mask :: SigProcMask

definition sigaction_new :: SigAction where
  "sigaction_new = \<lparr>handler = 0, flags = 0, restorer = 0, act_mask = 0\<rparr>"

section \<open>Pending signals of a thread\<close>

type_synonym SignalList = u64

definition add_signal :: "SignalList \<Rightarrow> u64 \<Rightarrow> SignalList" where
  "add_signal self sig = self OR sig"

definition has_signal :: "SignalList \<Rightarrow> bool" where
  "has_signal self \<longleftrightarrow> self \<noteq> 0"

definition try_get_signal :: "SignalList \<Rightarrow> u64 option" where
  "try_get_signal self =
     map_option (\<lambda>i. push_bit i 1) (List.find (\<lambda>i. self AND push_bit i 1 \<noteq> 0) [0..<64])"

definition remove_signal :: "SignalList \<Rightarrow> u64 \<Rightarrow> SignalList" where
  "remove_signal self sig = self AND NOT sig"

definition has_sig :: "SignalList \<Rightarrow> u64 \<Rightarrow> bool" where
  "has_sig self sig \<longleftrightarrow> self AND sig \<noteq> 0"

definition mask_signals :: "SignalList \<Rightarrow> SigProcMask \<Rightarrow> SignalList" where
  "mask_signals self m = NOT m AND self"

record SigTcb =
  sigmask :: SigProcMask
  signal :: SignalList
  signal_queue :: "nat list"

definition sigtcb_new :: SigTcb where
  "sigtcb_new = \<lparr>sigmask = 0, signal = 0, signal_queue = replicate REAL_TIME_SIGNAL_NUM 0\<rparr>"

text \<open>
  How \<^verbatim>\<open>sys_tkill\<close> and \<^verbatim>\<open>sys_tgkill\<close> post a signal: a second instance of a pending
  real-time signal is counted, a second instance of any other is merged.
\<close>

definition post_signal :: "SigTcb \<Rightarrow> u64 \<Rightarrow> SigTcb res" where
  "post_signal t sig =
     (if \<not> has_sig (signal t) sig then Ok (t\<lparr>signal := add_signal (signal t) sig\<rparr>)
      else case real_time_index sig of
             Some index \<Rightarrow>
               if index < length (signal_queue t)
               then Ok (t\<lparr>signal_queue := (signal_queue t)[index := signal_queue t ! index + 1]\<rparr>)
               else Panic
           | None \<Rightarrow> Ok t)"

text \<open>The threads of the system by their id; the members of a process are given by their ids.\<close>

type_synonym threads = "nat \<rightharpoonup> SigTcb"

definition sys_tkill :: "threads \<Rightarrow> nat list \<Rightarrow> nat \<Rightarrow> nat \<Rightarrow> usize \<Rightarrow> threads res" where
  "sys_tkill ts members self tid signum =
     (if tid = self \<or> (tid \<in> set members \<and> ts tid \<noteq> None) then
        (case ts tid of
           Some t \<Rightarrow> rmap (\<lambda>t'. ts(tid \<mapsto> t')) (post_signal t (from_num signum))
         | None \<Rightarrow> Panic)
      else Err ECHILD)"

definition sys_tgkill ::
  "threads \<Rightarrow> (nat \<Rightarrow> nat) \<Rightarrow> nat list \<Rightarrow> nat \<Rightarrow> nat \<Rightarrow> nat \<Rightarrow> usize \<Rightarrow> threads res" where
  "sys_tgkill ts process_id members self tgid tid signum =
     (if tid = self \<and> tgid = process_id self \<or>
         (tid \<in> set members \<and> ts tid \<noteq> None \<and> process_id tid = tgid) then
        (case ts tid of
           Some t \<Rightarrow> rmap (\<lambda>t'. ts(tid \<mapsto> t')) (post_signal t (from_num signum))
         | None \<Rightarrow> Panic)
      else Err ESRCH)"

definition sys_kill :: "threads \<Rightarrow> nat \<Rightarrow> usize \<Rightarrow> threads res" where
  "sys_kill ts pid signum =
     (case ts pid of
        Some t \<Rightarrow> Ok (ts(pid \<mapsto> t\<lparr>signal := add_signal (signal t) (from_num signum)\<rparr>))
      | None \<Rightarrow> Err ESRCH)"

text \<open>
  \<^verbatim>\<open>sys_sigprocmask\<close>: a null pointer for the new set is \<open>None\<close>; the second result
  is what is stored through the old-set pointer when that is not null.
\<close>

definition sys_sigprocmask ::
  "SigTcb \<Rightarrow> usize \<Rightarrow> SigProcMask option \<Rightarrow> bool \<Rightarrow> (SigTcb \<times> SigProcMask option) res" where
  "sys_sigprocmask t how set_p oldset_valid =
     (case sig_mask_how how of
        None \<Rightarrow> Err EINVAL
      | Some h \<Rightarrow>
          Ok ((case set_p of None \<Rightarrow> t | Some m \<Rightarrow> t\<lparr>sigmask := mask_handle (sigmask t) h m\<rparr>),
              (if oldset_valid then Some (sigmask t) else None)))"

definition sys_sigaction ::
  "SigAction list \<Rightarrow> usize \<Rightarrow> SigAction option \<Rightarrow> bool \<Rightarrow> (SigAction list \<times> SigAction option) res" where
  "sys_sigaction acts sig act oldact_valid =
     rbind (if oldact_valid then rmap Some (index_res acts sig) else Ok None) (\<lambda>old.
       case act of
         None \<Rightarrow> Ok (acts, old)
       | Some a \<Rightarrow> if sig < length acts then Ok (acts[sig := a], old) else Panic)"

section \<open>The delivery loop\<close>

definition check_select :: "SigTcb \<Rightarrow> u64 option" where
  "check_select t = try_get_signal (mask_signals (signal t) (sigmask t))"

definition check_complete :: "u64 \<Rightarrow> SigTcb \<Rightarrow> SigTcb" where
  "check_complete sig t =
     (let t1 = t\<lparr>signal := remove_signal (signal t) sig\<rparr>
      in case real_time_index sig of
           Some index \<Rightarrow>
             if signal_queue t1 ! index > 0
             then t1\<lparr>signal := add_signal (signal t1) sig,
                     signal_queue := (signal_queue t1)[index := signal_queue t1 ! index - 1]\<rparr>
             else t1
         | None \<Rightarrow> t1)"

text \<open>
  \<^verbatim>\<open>check_signal\<close> with the effect of \<^verbatim>\<open>handle_signal\<close> on the thread as a parameter:
  the user's handler may run for arbitrarily long and change the thread.  The
  result is the sequence of delivered signals; \<open>None\<close> stands for a loop that never ends.
\<close>

partial_function (option) check_signal ::
  "(u64 \<Rightarrow> SigTcb \<Rightarrow> SigTcb) \<Rightarrow> SigTcb \<Rightarrow> (u64 list \<times> SigTcb) option" where
  "check_signal handle_signal t =
     (case check_select t of
        None \<Rightarrow> Some ([], t)
      | Some sig \<Rightarrow>
          Option.bind (check_signal handle_signal (check_complete sig (handle_signal sig t)))
            (\<lambda>(log, t'). Some (sig # log, t')))"

section \<open>Single signals\<close>

abbreviation sbit :: "nat \<Rightarrow> u64" where
  "sbit i \<equiv> 2 ^ i"

lemma bit_sbit: "i < 64 \<Longrightarrow> bit (sbit i) j \<longleftrightarrow> j = i"
  by (auto simp: bit_simps)

lemma and_sbit: "w AND sbit i = 0 \<longleftrightarrow> \<not> bit w i"
  by (rule and_exp_eq_0_iff_not_bit)

lemma has_sig_sbit: "has_sig w (sbit i) \<longleftrightarrow> bit w i"
  by (simp add: has_sig_def and_sbit)

lemma find_upt:
  assumes "i < n" "P i" "\<And>j. j < i \<Longrightarrow> \<not> P j"
  shows "List.find P [0..<n] = Some i"
  using assms by (auto simp: find_Some_iff)

lemma sig_num_sbit: "i < 64 \<Longrightarrow> sig_num (sbit i) = i + 1"
  by (simp add: sig_num_def bit_sbit find_upt [of i 64 "\<lambda>j. j = i"])

lemma is_real_time_sbit:
  assumes "i < 64"
  shows "is_real_time (sbit i) \<longleftrightarrow> 33 \<le> i"
proof -
  have "(0xFFFFFFFE00000000 :: u64) = NOT (mask 33)" by (simp add: mask_eq_exp_minus_1)
  then have "is_real_time (sbit i) \<longleftrightarrow> bit (NOT (mask 33) :: u64) i"
    by (simp only: is_real_time_def and.commute [of "sbit i"] and_sbit not_not)
  then show ?thesis using assms by (simp add: bit_not_iff bit_mask_iff not_less)
qed

lemma real_time_index_sbit:
  "i < 64 \<Longrightarrow> real_time_index (sbit i) = (if 33 \<le> i then Some (i - 31) else None)"
  by (simp add: real_time_index_def is_real_time_sbit sig_num_sbit usub_def)

lemma from_num_sbit: "1 \<le> n \<Longrightarrow> n \<le> 64 \<Longrightarrow> from_num n = sbit (n - 1)"
  by (simp add: from_num_def usub_def)

lemma try_get_signal_Some:
  "try_get_signal w = Some sig \<longleftrightarrow> (\<exists>i < 64. sig = sbit i \<and> bit w i \<and> (\<forall>j < i. \<not> bit w j))"
proof
  assume "try_get_signal w = Some sig"
  then obtain i where "List.find (\<lambda>i. w AND sbit i \<noteq> 0) [0..<64] = Some i" "sig = sbit i"
    by (auto simp: try_get_signal_def)
  then show "\<exists>i < 64. sig = sbit i \<and> bit w i \<and> (\<forall>j < i. \<not> bit w j)"
    by (auto simp: find_Some_iff and_sbit)
next
  assume "\<exists>i < 64. sig = sbit i \<and> bit w i \<and> (\<forall>j < i. \<not> bit w j)"
  then obtain i where "i < 64" "sig = sbit i" "bit w i" "\<forall>j < i. \<not> bit w j" by blast
  moreover from this have "List.find (\<lambda>i. w AND sbit i \<noteq> 0) [0..<64] = Some i"
    by (intro find_upt) (auto simp: and_sbit)
  ultimately show "try_get_signal w = Some sig" by (simp add: try_get_signal_def)
qed

lemma try_get_signal_None: "try_get_signal w = None \<longleftrightarrow> (\<forall>i < 64. \<not> bit w i)"
  by (auto simp: try_get_signal_def find_None_iff and_sbit)

section \<open>What the delivery loop delivers\<close>

definition sig_wf :: "SigTcb \<Rightarrow> bool" where
  "sig_wf t \<longleftrightarrow> length (signal_queue t) = REAL_TIME_SIGNAL_NUM"

definition deliverable :: "SigTcb \<Rightarrow> nat \<Rightarrow> bool" where
  "deliverable t i \<longleftrightarrow> bit (signal t) i \<and> \<not> bit (sigmask t) i"

text \<open>The number of deliveries of the signal with bit \<open>i\<close> that are due.\<close>

definition due :: "SigTcb \<Rightarrow> nat \<Rightarrow> nat" where
  "due t i = (if deliverable t i then 1 + (if 33 \<le> i then signal_queue t ! (i - 31) else 0) else 0)"

definition delivery_log :: "(nat \<Rightarrow> nat) \<Rightarrow> u64 list" where
  "delivery_log f = concat (map (\<lambda>i. replicate (f i) (sbit i)) [0..<64])"

lemma delivery_log_split:
  assumes "i < 64" "\<forall>j < i. f j = 0"
  shows "delivery_log f = replicate (f i) (sbit i) @ concat (map (\<lambda>j. replicate (f j) (sbit j)) [Suc i..<64])"
proof -
  have "[0..<64] = [0..<i] @ i # [Suc i..<64]"
    using assms(1) by (metis upt_conv_Cons upt_add_eq_append le_add_diff_inverse less_imp_le_nat zero_le)
  moreover have "concat (map (\<lambda>i. replicate (f i) (sbit i)) [0..<i]) = []" using assms(2) by simp
  ultimately show ?thesis by (simp only: delivery_log_def map_append concat_append list.map concat.simps append.simps)
qed

lemma delivery_log_step:
  assumes "i < 64" "\<forall>j < i. f j = 0" "0 < f i"
  shows "delivery_log f = sbit i # delivery_log (f(i := f i - 1))"
proof -
  have rest: "map (\<lambda>j. replicate ((f(i := f i - 1)) j) (sbit j)) [Suc i..<64] =
      map (\<lambda>j. replicate (f j) (sbit j)) [Suc i..<64]" by simp
  have "replicate (f i) (sbit i) = sbit i # replicate (f i - 1) (sbit i)"
    using assms(3) by (cases "f i") simp_all
  moreover have "delivery_log (f(i := f i - 1)) =
      replicate (f i - 1) (sbit i) @ concat (map (\<lambda>j. replicate (f j) (sbit j)) [Suc i..<64])"
    using delivery_log_split [of i "f(i := f i - 1)"] assms(1,2) by (simp only: rest) simp
  ultimately show ?thesis using delivery_log_split [OF assms(1,2)] by simp
qed

lemma bit_mask_signals: "bit (mask_signals (signal t) (sigmask t)) = deliverable t"
  by (auto simp: fun_eq_iff mask_signals_def deliverable_def bit_simps dest: bit_imp_le_length)

lemma check_select_Some:
  "check_select t = Some sig \<longleftrightarrow> (\<exists>i < 64. sig = sbit i \<and> deliverable t i \<and> (\<forall>j < i. \<not> deliverable t j))"
  by (simp add: check_select_def try_get_signal_Some bit_mask_signals)

lemma check_select_None: "check_select t = None \<longleftrightarrow> (\<forall>i < 64. \<not> deliverable t i)"
  by (simp add: check_select_def try_get_signal_None bit_mask_signals)

lemma due_complete:
  assumes wf: "sig_wf t" and i: "i < 64" "deliverable t i"
  shows "sig_wf (check_complete (sbit i) t)" "sigmask (check_complete (sbit i) t) = sigmask t"
    "\<And>j. j < 64 \<Longrightarrow> due (check_complete (sbit i) t) j = ((due t)(i := due t i - 1)) j"
    "\<And>j. j < 64 \<Longrightarrow> bit (sigmask t) j \<Longrightarrow> bit (signal (check_complete (sbit i) t)) j = bit (signal t) j"
proof -
  let ?t1 = "t\<lparr>signal := remove_signal (signal t) (sbit i)\<rparr>"
  let ?q = "signal_queue t"
  have rm: "bit (remove_signal (signal t) (sbit i)) j \<longleftrightarrow> j \<noteq> i \<and> bit (signal t) j" if "j < 64" for j
    using i(1) that by (auto simp: remove_signal_def bit_simps)
  have add: "bit (add_signal (remove_signal (signal t) (sbit i)) (sbit i)) j \<longleftrightarrow> bit (signal t) j"
    if "j < 64" for j
    using i that rm [OF that] by (auto simp: add_signal_def bit_simps deliverable_def)
  have len: "length ?q = 33" using wf by (simp add: sig_wf_def REAL_TIME_SIGNAL_NUM_def)
  consider "33 \<le> i" "0 < ?q ! (i - 31)" | "33 \<le> i \<longrightarrow> ?q ! (i - 31) = 0" by fastforce
  then have "sig_wf (check_complete (sbit i) t) \<and> sigmask (check_complete (sbit i) t) = sigmask t \<and>
    (\<forall>j < 64. due (check_complete (sbit i) t) j = ((due t)(i := due t i - 1)) j) \<and>
    (\<forall>j < 64. bit (sigmask t) j \<longrightarrow> bit (signal (check_complete (sbit i) t)) j = bit (signal t) j)"
  proof cases
    case 1
    then have eq: "check_complete (sbit i) t = t\<lparr>signal := add_signal (remove_signal (signal t) (sbit i)) (sbit i),
        signal_queue := ?q[i - 31 := ?q ! (i - 31) - 1]\<rparr>"
      using i(1) by (simp add: check_complete_def real_time_index_sbit Let_def)
    have "due (check_complete (sbit i) t) j = ((due t)(i := due t i - 1)) j" if j: "j < 64" for j
      using 1 i j len add [OF j] by (auto simp: eq due_def deliverable_def nth_list_update)
    then show ?thesis using wf add by (simp add: eq sig_wf_def)
  next
    case 2
    then have eq: "check_complete (sbit i) t = ?t1"
      using i(1) by (auto simp: check_complete_def real_time_index_sbit Let_def)
    have "due (check_complete (sbit i) t) j = ((due t)(i := due t i - 1)) j" if j: "j < 64" for j
      using 2 i j rm [OF j] by (auto simp: eq due_def deliverable_def)
    then show ?thesis using wf rm i(2) by (auto simp: eq sig_wf_def deliverable_def)
  qed
  then show "sig_wf (check_complete (sbit i) t)" "sigmask (check_complete (sbit i) t) = sigmask t"
    "\<And>j. j < 64 \<Longrightarrow> due (check_complete (sbit i) t) j = ((due t)(i := due t i - 1)) j"
    "\<And>j. j < 64 \<Longrightarrow> bit (sigmask t) j \<Longrightarrow> bit (signal (check_complete (sbit i) t)) j = bit (signal t) j"
    by blast+
qed

lemma delivery_log_cong: "(\<And>j. j < 64 \<Longrightarrow> f j = g j) \<Longrightarrow> delivery_log f = delivery_log g"
  unfolding delivery_log_def by (rule arg_cong [where f = concat]) simp

lemma check_signal_quiet:
  assumes "\<And>sig t. h sig t = t" "sig_wf t"
  shows "\<exists>t'. check_signal h t = Some (delivery_log (due t), t') \<and> sig_wf t' \<and> sigmask t' = sigmask t \<and>
    (\<forall>i < 64. \<not> deliverable t' i) \<and> (\<forall>i < 64. bit (sigmask t) i \<longrightarrow> bit (signal t') i = bit (signal t) i)"
  using assms(2)
proof (induction "\<Sum>i < 64. due t i" arbitrary: t rule: less_induct)
  case less
  show ?case
  proof (cases "check_select t")
    case None
    then have "\<forall>i < 64. \<not> deliverable t i" by (simp add: check_select_None)
    moreover from this have "delivery_log (due t) = []" by (simp add: delivery_log_def due_def)
    ultimately show ?thesis
      using None less.prems by (simp add: check_signal.simps)
  next
    case (Some sig)
    then obtain i where i: "i < 64" "sig = sbit i" "deliverable t i" "\<forall>j < i. \<not> deliverable t j"
      by (auto simp: check_select_Some)
    let ?t1 = "check_complete sig t"
    note dc = due_complete [OF less.prems i(1,3), folded i(2)]
    have pos: "0 < due t i" using i(3) by (simp add: due_def)
    have "(\<Sum>j < 64. due ?t1 j) < (\<Sum>j < 64. due t j)"
      using dc(3) i(1) pos by (intro sum_strict_mono_ex1) (auto intro!: bexI [of _ i])
    from less.hyps [OF this dc(1)] obtain t' where
      t': "check_signal h ?t1 = Some (delivery_log (due ?t1), t')" "sig_wf t'" "sigmask t' = sigmask t"
        "\<forall>i < 64. \<not> deliverable t' i" "\<forall>i < 64. bit (sigmask t) i \<longrightarrow> bit (signal t') i = bit (signal ?t1) i"
      unfolding dc(2) by blast
    have zero: "\<forall>j < i. due t j = 0" using i(4) by (simp add: due_def)
    have "delivery_log (due ?t1) = delivery_log ((due t)(i := due t i - 1))"
      using dc(3) by (rule delivery_log_cong)
    then have "delivery_log (due t) = sig # delivery_log (due ?t1)"
      using delivery_log_step [OF i(1) zero pos] i(2) by (simp only:)
    with t' Some assms(1) dc(4) show ?thesis
      by (subst check_signal.simps) simp
  qed
qed

section \<open>Posting\<close>

fun post_many :: "SigTcb \<Rightarrow> u64 \<Rightarrow> nat \<Rightarrow> SigTcb res" where
  "post_many t sig 0 = Ok t"
| "post_many t sig (Suc n) = rbind (post_signal t sig) (\<lambda>t'. post_many t' sig n)"

lemma post_signal_wf:
  assumes "sig_wf t" "i < 64"
  shows "\<exists>t'. post_signal t (sbit i) = Ok t' \<and> sig_wf t' \<and> sigmask t' = sigmask t \<and>
    (\<forall>j < 64. bit (signal t') j \<longleftrightarrow> j = i \<or> bit (signal t) j) \<and>
    signal_queue t' = (if bit (signal t) i \<and> 33 \<le> i
      then (signal_queue t)[i - 31 := signal_queue t ! (i - 31) + 1] else signal_queue t)"
  using assms
  by (auto simp: post_signal_def has_sig_sbit real_time_index_sbit sig_wf_def REAL_TIME_SIGNAL_NUM_def
      add_signal_def bit_simps)

lemma post_many_pending:
  assumes "sig_wf t" "i < 64" "bit (signal t) i"
  shows "\<exists>t'. post_many t (sbit i) n = Ok t' \<and> sig_wf t' \<and> sigmask t' = sigmask t \<and>
    (\<forall>j < 64. bit (signal t') j = bit (signal t) j) \<and>
    signal_queue t' = (if 33 \<le> i then (signal_queue t)[i - 31 := signal_queue t ! (i - 31) + n] else signal_queue t)"
  using assms
proof (induction n arbitrary: t)
  case (Suc n)
  obtain t1 where t1: "post_signal t (sbit i) = Ok t1" "sig_wf t1" "sigmask t1 = sigmask t"
    "\<forall>j < 64. bit (signal t1) j \<longleftrightarrow> j = i \<or> bit (signal t) j"
    "signal_queue t1 = (if 33 \<le> i then (signal_queue t)[i - 31 := signal_queue t ! (i - 31) + 1] else signal_queue t)"
    using post_signal_wf [OF Suc.prems(1,2)] Suc.prems(3) by auto
  have "i - 31 < length (signal_queue t)" if "33 \<le> i"
    using that Suc.prems(1,2) by (simp add: sig_wf_def REAL_TIME_SIGNAL_NUM_def)
  with Suc.IH [OF t1(2) Suc.prems(2)] t1 Suc.prems show ?case by auto
qed auto

lemma post_many_fresh:
  assumes "i < 64" "0 < n"
  shows "\<exists>t. post_many sigtcb_new (sbit i) n = Ok t \<and> sig_wf t \<and> sigmask t = 0 \<and>
    (\<forall>j < 64. bit (signal t) j \<longleftrightarrow> j = i) \<and>
    (33 \<le> i \<longrightarrow> signal_queue t ! (i - 31) = n - 1)"
proof -
  have wf: "sig_wf sigtcb_new" by (simp add: sig_wf_def sigtcb_new_def)
  obtain m where n: "n = Suc m" using assms(2) by (cases n) auto
  obtain t1 where t1: "post_signal sigtcb_new (sbit i) = Ok t1" "sig_wf t1" "sigmask t1 = 0"
    "\<forall>j < 64. bit (signal t1) j \<longleftrightarrow> j = i" "signal_queue t1 = replicate REAL_TIME_SIGNAL_NUM 0"
    using post_signal_wf [OF wf assms(1)] by (auto simp: sigtcb_new_def)
  from post_many_pending [OF t1(2) assms(1), of m] t1(4) assms(1) obtain t where
    t: "post_many t1 (sbit i) m = Ok t" "sig_wf t" "sigmask t = sigmask t1"
      "\<forall>j < 64. bit (signal t) j = bit (signal t1) j"
      "signal_queue t = (if 33 \<le> i then (signal_queue t1)[i - 31 := signal_queue t1 ! (i - 31) + m] else signal_queue t1)"
    by auto
  then show ?thesis
    using t1 assms(1) by (auto simp: n REAL_TIME_SIGNAL_NUM_def)
qed

section \<open>Properties\<close>

text \<open>
  C17: the delivery loop.  When handlers leave the pending state of the thread as
  they found it, the loop ends, delivers the unmasked pending signals in
  ascending order, a real-time signal once more for every counted instance, and
  leaves no deliverable signal behind while the masked ones stay pending.
\<close>

theorem check_signal_delivers_all:
  assumes "\<And>sig t. h sig t = t" "sig_wf t"
  shows "\<exists>t'. check_signal h t = Some (delivery_log (due t), t') \<and> sigmask t' = sigmask t \<and>
    (\<forall>i < 64. \<not> deliverable t' i) \<and> (\<forall>i < 64. bit (sigmask t) i \<longrightarrow> bit (signal t') i = bit (signal t) i)"
  using check_signal_quiet [of h t] assms by blast

theorem check_signal_delivers_all_witness:
  "\<exists>t'. check_signal (\<lambda>_ t. t) (sigtcb_new\<lparr>signal := 0x4002\<rparr>) =
     Some (delivery_log (due (sigtcb_new\<lparr>signal := 0x4002\<rparr>)), t') \<and> sigmask t' = 0"
  using check_signal_delivers_all [of "\<lambda>_ t. t" "sigtcb_new\<lparr>signal := 0x4002\<rparr>"]
  by (auto simp: sig_wf_def sigtcb_new_def)

text \<open>
  Real-time signals are queued, the others merged.  A signal sent \<open>n\<close> times to
  a fresh thread is delivered \<open>n\<close> times when its number is at least 34 and exactly
  once otherwise; sending never indexes the queue out of range.
\<close>

theorem real_time_signals_queue:
  assumes "1 \<le> k" "k \<le> 64" "0 < n"
  shows "\<exists>t t'. post_many sigtcb_new (from_num k) n = Ok t \<and>
    check_signal (\<lambda>_ t. t) t = Some (replicate (if 34 \<le> k then n else 1) (from_num k), t') \<and>
    check_select t' = None"
proof -
  let ?i = "k - 1"
  have i: "?i < 64" using assms by simp
  obtain t where t: "post_many sigtcb_new (sbit ?i) n = Ok t" "sig_wf t" "sigmask t = 0"
    "\<forall>j < 64. bit (signal t) j \<longleftrightarrow> j = ?i" "33 \<le> ?i \<longrightarrow> signal_queue t ! (?i - 31) = n - 1"
    using post_many_fresh [OF i assms(3)] by blast
  obtain t' where t': "check_signal (\<lambda>_ t. t) t = Some (delivery_log (due t), t')" "\<forall>i < 64. \<not> deliverable t' i"
    using check_signal_quiet [of "\<lambda>_ t. t" t] t(2) by auto
  have due: "due t j = (if j = ?i then (if 33 \<le> ?i then n else 1) else 0)" if "j < 64" for j
    using that t assms(3) by (auto simp: due_def deliverable_def)
  have "concat (map (\<lambda>j. replicate (due t j) (sbit j)) [Suc ?i..<64]) = []" by (simp add: due)
  then have "delivery_log (due t) = replicate (if 34 \<le> k then n else 1) (sbit ?i)"
    using delivery_log_split [of ?i "due t"] i due assms(1) by auto
  with t(1) t' assms(1,2) show ?thesis by (simp add: from_num_sbit check_select_None)
qed

theorem real_time_signals_queue_witness:
  "\<exists>t t'. post_many sigtcb_new (from_num 40) 3 = Ok t \<and>
    check_signal (\<lambda>_ t. t) t = Some (replicate 3 (from_num 40), t')"
  using real_time_signals_queue [of 40 3] by auto

text \<open>
  Signal number 0.  \<^verbatim>\<open>kill(pid, 0)\<close> is meant to test for the existence of a
  process and to send nothing; in the release build it posts the last real-time
  signal, number 64, and number 65 posts \<^verbatim>\<open>SIGHUP\<close>.
\<close>

theorem kill_zero_sends_signal:
  "from_num 0 = SIGRTMAX \<and> from_num 65 = SIGHUP \<and>
   (\<forall>ts pid t. ts pid = Some t \<longrightarrow>
     (\<exists>t'. sys_kill ts pid 0 = Ok (ts(pid \<mapsto> t')) \<and> has_sig (signal t') SIGRTMAX))"
proof -
  have from0: "from_num 0 = SIGRTMAX" and "from_num 65 = SIGHUP"
    by (simp_all add: from_num_def usub_def USIZE_def SIGRTMAX_def SIGHUP_def)
  have "SIGRTMAX \<noteq> 0" by (simp add: SIGRTMAX_def)
  then have "has_sig (w OR SIGRTMAX) SIGRTMAX" for w
    by (simp add: has_sig_def bit.conj_disj_distrib2)
  with from0 \<open>from_num 65 = SIGHUP\<close> show ?thesis
    by (auto simp: sys_kill_def add_signal_def)
qed

theorem kill_zero_sends_signal_witness:
  "\<exists>t'. sys_kill [7 \<mapsto> sigtcb_new] 7 0 = Ok [7 \<mapsto> t'] \<and> has_sig (signal t') SIGRTMAX"
  using kill_zero_sends_signal [THEN conjunct2, THEN conjunct2, rule_format, of "[7 \<mapsto> sigtcb_new]" 7 sigtcb_new]
  by (simp add: fun_upd_upd)

end
