(* ===== verification/Executor.thy ===== *)
theory Executor
  imports Kernel_Prelude "HOL-Library.Multiset"
begin

text \<open>
  The cooperative executor, \<^verbatim>\<open>crates/executor\<close>: the FIFO queue of tasks with their
  futures, the table of tasks by number, the current task of each core, and the
  elementary futures \<^verbatim>\<open>yield_now\<close> and \<^verbatim>\<open>select\<close>.  What polling a future does is a
  parameter: it changes the world, may spawn further tasks, and is ready or leaves a
  future to poll again.
\<close>

section \<open>State and operations\<close>

record 'f ExecState =
  cores :: "nat option list"
  inited :: bool
  task_queue :: "(nat \<times> 'f) list"
  task_map :: "nat \<rightharpoonup> nat"
  last_id :: nat

type_synonym ('f, 'w) poller = "'f \<Rightarrow> 'w \<Rightarrow> 'w \<times> (nat \<times> 'f) list \<times> 'f option"

definition exec_new :: "'f ExecState" where
  "exec_new = \<lparr>cores = [], inited = False, task_queue = [], task_map = Map.empty, last_id = 0\<rparr>"

definition exec_init :: "'f ExecState \<Rightarrow> nat \<Rightarrow> 'f ExecState" where
  "exec_init e n = e\<lparr>cores := replicate n None, task_map := Map.empty, inited := True\<rparr>"

definition task_id_alloc :: "'f ExecState \<Rightarrow> 'f ExecState \<times> nat" where
  "task_id_alloc e = (e\<lparr>last_id := uadd (last_id e) 1\<rparr>, uadd (last_id e) 1)"

text \<open>\<^verbatim>\<open>thread::spawn\<close>; the task is identified by its number.\<close>

definition spawn :: "'f ExecState \<Rightarrow> nat \<Rightarrow> 'f \<Rightarrow> 'f ExecState" where
  "spawn e tid fut = e\<lparr>task_map := (task_map e)(tid \<mapsto> tid), task_queue := task_queue e @ [(tid, fut)]\<rparr>"

definition spawn_blank :: "'f ExecState \<Rightarrow> 'f \<Rightarrow> 'f ExecState" where
  "spawn_blank e fut = (case task_id_alloc e of (e1, tid) \<Rightarrow> spawn e1 tid fut)"

text \<open>\<open>alive\<close> tells whether the task object still exists: the table holds weak references.\<close>

definition tid2task :: "'f ExecState \<Rightarrow> (nat \<Rightarrow> bool) \<Rightarrow> nat \<Rightarrow> nat option" where
  "tid2task e alive tid = (case task_map e tid of Some t \<Rightarrow> if alive t then Some t else None | None \<Rightarrow> None)"

definition release_task :: "'f ExecState \<Rightarrow> nat \<Rightarrow> 'f ExecState" where
  "release_task e tid = e\<lparr>task_map := (task_map e)(tid := None)\<rparr>"

definition current_task :: "'f ExecState \<Rightarrow> nat \<Rightarrow> nat res" where
  "current_task e hart =
     (if hart < length (cores e) then case cores e ! hart of Some t \<Rightarrow> Ok t | None \<Rightarrow> Panic else Panic)"

definition run_ready_task :: "('f, 'w) poller \<Rightarrow> nat \<Rightarrow> 'f ExecState \<times> 'w \<Rightarrow> 'f ExecState \<times> 'w" where
  "run_ready_task poll hart s =
     (case s of (e, w) \<Rightarrow>
        case task_queue e of
          [] \<Rightarrow> (e, w)
        | (tid, fut) # q \<Rightarrow>
            (case poll fut w of (w', new, r) \<Rightarrow>
               (e\<lparr>cores := (cores e)[hart := Some tid],
                  task_queue := q @ new @ (case r of None \<Rightarrow> [] | Some fut' \<Rightarrow> [(tid, fut')])\<rparr>, w')))"

text \<open>The executor's loop, for \<open>n\<close> rounds.\<close>

fun run_rounds :: "('f, 'w) poller \<Rightarrow> nat \<Rightarrow> nat \<Rightarrow> 'f ExecState \<times> 'w \<Rightarrow> 'f ExecState \<times> 'w" where
  "run_rounds poll hart 0 s = s"
| "run_rounds poll hart (Suc n) s = run_rounds poll hart n (run_ready_task poll hart s)"

section \<open>Elementary futures\<close>

definition yield_poll :: "bool \<Rightarrow> bool \<times> unit Poll" where
  "yield_poll polled = (if polled then (polled, Ready ()) else (True, Pending))"

datatype ('a, 'b) Either = Left 'a | Right 'b

text \<open>\<^verbatim>\<open>Select\<close> polls the first future, and the second only when the first is pending.\<close>

definition select_poll :: "('s \<Rightarrow> 's \<times> 'a Poll) \<Rightarrow> ('s \<Rightarrow> 's \<times> 'b Poll) \<Rightarrow> 's \<Rightarrow> 's \<times> ('a, 'b) Either Poll" where
  "select_poll pa pb s =
     (case pa s of
        (s1, Ready a) \<Rightarrow> (s1, Ready (Left a))
      | (s1, Pending) \<Rightarrow>
          (case pb s1 of
             (s2, Ready b) \<Rightarrow> (s2, Ready (Right b))
           | (s2, Pending) \<Rightarrow> (s2, Pending)))"

definition next_tick_poll :: "nat \<Rightarrow> nat \<Rightarrow> unit Poll" where
  "next_tick_poll deadline now_ms = (if now_ms < deadline then Pending else Ready ())"

section \<open>Fairness\<close>

lemma run_ready_task_queue:
  assumes "task_queue (fst s) = x # q"
  shows "\<exists>new. task_queue (fst (run_ready_task poll hart s)) = q @ new"
  using assms by (cases s; cases x) (auto simp: run_ready_task_def split: prod.splits)

lemma run_rounds_advance:
  assumes "k \<le> length (task_queue (fst s))"
  shows "\<exists>new. task_queue (fst (run_rounds poll hart k s)) = drop k (task_queue (fst s)) @ new"
  using assms
proof (induction k arbitrary: s)
  case (Suc k)
  then obtain x q where q: "task_queue (fst s) = x # q" by (cases "task_queue (fst s)") auto
  obtain new where n: "task_queue (fst (run_ready_task poll hart s)) = q @ new"
    using run_ready_task_queue [OF q] by blast
  with Suc.prems q have "k \<le> length (task_queue (fst (run_ready_task poll hart s)))" by simp
  from Suc.IH [OF this] n q Suc.prems show ?case by auto
qed simp

text \<open>Every queued task stays queued until a poll of it is ready, and none is duplicated.\<close>

lemma run_ready_task_conserves:
  assumes "task_queue e = (tid, fut) # q" "poll fut w = (w', new, r)" "run_ready_task poll hart (e, w) = (e', v)"
  shows "v = w'" "mset (task_queue e') = mset q + mset new + (case r of None \<Rightarrow> {#} | Some fut' \<Rightarrow> {#(tid, fut')#})"
  using assms by (auto simp: run_ready_task_def split: option.splits)

definition ids_ok :: "'f ExecState \<Rightarrow> bool" where
  "ids_ok e \<longleftrightarrow> distinct (map fst (task_queue e)) \<and> (\<forall>t \<in> fst ` set (task_queue e). t \<le> last_id e)"

lemma spawn_blank_ids:
  assumes "ids_ok e" "last_id e + 1 < USIZE"
  shows "ids_ok (spawn_blank e fut)"
  using assms by (force simp: ids_ok_def spawn_blank_def spawn_def task_id_alloc_def uadd_def)

section \<open>Properties\<close>

text \<open>C8: The executor is fair.  The task at position \<open>k\<close> of the queue is polled in
  round \<open>k + 1\<close>, with the future it had, whatever the tasks before it do (finish,
  stay pending, or spawn any number of tasks); that round makes it the current task of
  the core, and if its future is still pending it is queued again behind every task
  that was waiting.\<close>

theorem executor_is_fair:
  assumes "k < length (task_queue (fst s))" "task_queue (fst s) ! k = (tid, fut)" "hart < length (cores (fst s))"
    and "run_rounds poll hart k s = (e, w)" "poll fut w = (w', new, r)" "run_ready_task poll hart (e, w) = (e', v)"
  shows "\<exists>q. task_queue e = (tid, fut) # q \<and> v = w' \<and> current_task e' hart = Ok tid \<and>
    task_queue e' = q @ new @ (case r of None \<Rightarrow> [] | Some fut' \<Rightarrow> [(tid, fut')])"
proof -
  have cores: "length (cores (fst (run_ready_task poll hart s))) = length (cores (fst s))" for s
    by (cases s) (auto simp: run_ready_task_def split: list.splits prod.splits)
  have "length (cores (fst (run_rounds poll hart n s))) = length (cores (fst s))" for n
    by (induction n arbitrary: s) (simp_all add: cores)
  then have h: "hart < length (cores e)" using assms(3,4) by (metis fst_conv)
  have "\<exists>new. task_queue (fst (run_rounds poll hart k s)) = drop k (task_queue (fst s)) @ new"
    using assms(1) by (intro run_rounds_advance) simp
  then obtain later where "task_queue e = drop k (task_queue (fst s)) @ later" using assms(4) by auto
  moreover have "drop k (task_queue (fst s)) = (tid, fut) # drop (Suc k) (task_queue (fst s))"
    using Cons_nth_drop_Suc [OF assms(1)] assms(2) by simp
  ultimately have q: "task_queue e = (tid, fut) # drop (Suc k) (task_queue (fst s)) @ later" by simp
  show ?thesis
    using q assms(5,6) h by (auto simp: run_ready_task_def current_task_def)
qed

theorem executor_is_fair_witness:
  "current_task (fst (run_rounds (\<lambda>n w. (w + n, [], if n = (0::nat) then None else Some (n - 1))) 0 2
     (exec_init exec_new 1 \<lparr>task_queue := [(7, 3), (8, 0)]\<rparr>, 0::nat))) 0 = Ok 8"
proof -
  let ?poll = "\<lambda>n w. (w + n, [] :: (nat \<times> nat) list, if n = (0::nat) then None else Some (n - 1))"
  let ?s = "(exec_init exec_new 1 \<lparr>task_queue := [(7, 3), (8, 0)]\<rparr>, 0::nat)"
  obtain e w where e: "run_rounds ?poll 0 1 ?s = (e, w)" by fastforce
  obtain e' v where e': "run_ready_task ?poll 0 (e, w) = (e', v)" by fastforce
  have "1 < length (task_queue (fst ?s))" "task_queue (fst ?s) ! 1 = (8, 0)" "0 < length (cores (fst ?s))"
    by (simp_all add: exec_init_def exec_new_def)
  from executor_is_fair [OF this e _ e', of "w + 0" "[]" None] have "current_task e' 0 = Ok 8" by simp
  moreover have "run_rounds ?poll 0 2 ?s = (e', v)"
    using e e' by (simp add: numeral_2_eq_2)
  ultimately show ?thesis by simp
qed

end
