(* ===== verification/Futex.thy ===== *)
theory Futex
  imports Ordered_Map Executor Vfs
begin

text \<open>
  Futexes: the wait queues of \<^verbatim>\<open>kernel/src/tasks/async_ops.rs\<close> and the system call of
  \<^verbatim>\<open>kernel/src/syscall/task.rs\<close>.  The table maps a user address to the threads waiting
  on it, in the order they arrived.
\<close>

section \<open>The wait queues\<close>

type_synonym FutexTable = "(usize \<times> nat list) list"

definition in_futex :: "FutexTable \<Rightarrow> nat \<Rightarrow> bool" where
  "in_futex t tid \<longleftrightarrow> list_ex (\<lambda>(_, q). tid \<in> set q) t"

text \<open>Remove a thread from the first queue that contains it.\<close>

fun leave_futex :: "FutexTable \<Rightarrow> nat \<Rightarrow> FutexTable" where
  "leave_futex [] tid = []"
| "leave_futex ((a, q) # t) tid =
     (if tid \<in> set q then (a, filter (\<lambda>x. x \<noteq> tid) q) # t else (a, q) # leave_futex t tid)"

definition wait_futex_poll :: "nat \<Rightarrow> bool \<Rightarrow> FutexTable \<Rightarrow> FutexTable \<times> nat res Poll" where
  "wait_futex_poll tid has_signal t =
     (if in_futex t tid then
        if has_signal then (leave_futex t tid, Ready (Err EINTR)) else (t, Pending)
      else (t, Ready (Ok 0)))"

definition futex_wake :: "FutexTable \<Rightarrow> usize \<Rightarrow> nat \<Rightarrow> FutexTable \<times> nat" where
  "futex_wake t uaddr wake_count =
     (case bm_get t uaddr of
        None \<Rightarrow> (t, 0)
      | Some q \<Rightarrow>
          if length q = 0 then (t, 0)
          else (bm_insert uaddr (drop (min wake_count (length q)) q) t, min wake_count (length q)))"

text \<open>\<^verbatim>\<open>drain(..n)\<close> of a vector: panics when there are fewer than \<open>n\<close> elements.\<close>

definition drain_to :: "'a list \<Rightarrow> nat \<Rightarrow> ('a list \<times> 'a list) res" where
  "drain_to q n = (if n \<le> length q then Ok (take n q, drop n q) else Panic)"

definition futex_requeue :: "FutexTable \<Rightarrow> usize \<Rightarrow> nat \<Rightarrow> usize \<Rightarrow> nat \<Rightarrow> (FutexTable \<times> nat) res" where
  "futex_requeue t uaddr wake_count uaddr2 reque_count =
     (case bm_get t uaddr of
        None \<Rightarrow> Ok (t, 0)
      | Some q \<Rightarrow>
          rbind (drain_to q wake_count) (\<lambda>(woken, q1).
            rbind (drain_to q1 reque_count) (\<lambda>(reque, q2).
              let t1 = bm_insert uaddr q2 t;
                  t2 = (if bm_get t1 uaddr2 = None then bm_insert uaddr2 [] t1 else t1)
              in Ok (bm_insert uaddr2 (the (bm_get t2 uaddr2) @ reque) t2, length woken))))"

section \<open>The system call\<close>

datatype FutexFlags = FutexWait | FutexWake | FutexRequeue

definition futex_flags :: "nat \<Rightarrow> FutexFlags option" where
  "futex_flags op0 =
     (let op = (if op0 \<ge> 0x80 then op0 - 0x80 else op0)
      in if op = 0 then Some FutexWait
         else if op = 1 then Some FutexWake
         else if op = 3 then Some FutexRequeue
         else if op \<le> 10 then Some FutexWake
         else None)"

text \<open>Enter the queue of an address.\<close>

definition futex_enter :: "FutexTable \<Rightarrow> usize \<Rightarrow> nat \<Rightarrow> FutexTable" where
  "futex_enter t uaddr tid =
     (case bm_get t uaddr of
        Some q \<Rightarrow> bm_insert uaddr (q @ [tid]) t
      | None \<Rightarrow> bm_insert uaddr [tid] t)"

text \<open>A call either completes or waits, possibly until a deadline in nanoseconds.\<close>

datatype futex_outcome = Finished "nat res" | Waiting "usize option"

text \<open>\<open>uval\<close> is the word at the user address, \<open>None\<close> for an invalid pointer; \<open>timeout\<close> is
  the time behind \<^verbatim>\<open>value2\<close> when that is not null.\<close>

definition sys_futex :: "FutexTable \<Rightarrow> nat \<Rightarrow> usize \<Rightarrow> 32 word option \<Rightarrow> nat \<Rightarrow> usize \<Rightarrow> usize \<Rightarrow> TimeSpec \<Rightarrow> usize \<Rightarrow> usize \<Rightarrow>
    FutexTable \<times> futex_outcome" where
  "sys_futex t tid uaddr uval op value value2 timeout uaddr2 now =
     (case uval of
        None \<Rightarrow> (t, Finished (Err EFAULT))
      | Some u \<Rightarrow>
          (case futex_flags op of
             None \<Rightarrow> (t, Finished (Err ENOSYS))
           | Some FutexWait \<Rightarrow>
               if u = of_nat value then
                 (futex_enter t uaddr tid, Waiting (if value2 \<noteq> 0 then Some (uadd now (to_nsec timeout)) else None))
               else (t, Finished (Err EAGAIN))
           | Some FutexWake \<Rightarrow> (case futex_wake t uaddr value of (t', n) \<Rightarrow> (t', Finished (Ok n)))
           | Some FutexRequeue \<Rightarrow>
               (case futex_requeue t uaddr value uaddr2 value2 of
                  Ok (t', n) \<Rightarrow> (t', Finished (Ok n))
                | Err e \<Rightarrow> (t, Finished (Err e))
                | Panic \<Rightarrow> (t, Finished Panic))))"

definition wait_until_poll :: "usize \<Rightarrow> usize \<Rightarrow> 's \<Rightarrow> 's \<times> unit Poll" where
  "wait_until_poll deadline now s = (if now > deadline then (s, Ready ()) else (s, Pending))"

text \<open>One poll of a waiting call.\<close>

definition futex_wait_poll :: "nat \<Rightarrow> usize option \<Rightarrow> bool \<Rightarrow> usize \<Rightarrow> FutexTable \<Rightarrow> FutexTable \<times> nat res Poll" where
  "futex_wait_poll tid deadline has_signal now t =
     (case deadline of
        None \<Rightarrow> wait_futex_poll tid has_signal t
      | Some d \<Rightarrow>
          (case select_poll (wait_futex_poll tid has_signal) (wait_until_poll d now) t of
             (t', Ready (Left r)) \<Rightarrow> (t', Ready r)
           | (t', Ready (Right _)) \<Rightarrow> (t', Ready (Err ETIMEDOUT))
           | (t', Pending) \<Rightarrow> (t', Pending)))"

section \<open>Invariant and specification\<close>

text \<open>
  The specification is the queue of each address.  A table is well formed when no
  thread waits twice.
\<close>

definition waiters :: "FutexTable \<Rightarrow> usize \<Rightarrow> nat list" where
  "waiters t a = (case bm_get t a of Some q \<Rightarrow> q | None \<Rightarrow> [])"

definition all_waiters :: "FutexTable \<Rightarrow> nat multiset" where
  "all_waiters t = sum_mset (image_mset mset (mset (map snd t)))"

definition futex_wf :: "FutexTable \<Rightarrow> bool" where
  "futex_wf t \<longleftrightarrow> bm_wf t \<and> (\<forall>tid. count (all_waiters t) tid \<le> 1)"

lemma all_waiters_simps [simp]:
  "all_waiters [] = {#}" "all_waiters ((a, q) # t) = mset q + all_waiters t"
  by (simp_all add: all_waiters_def)

lemma in_futex_count: "in_futex t tid \<longleftrightarrow> count (all_waiters t) tid > 0"
  by (induction t) (auto simp: in_futex_def)

lemma waiters_insert: "bm_wf t \<Longrightarrow> waiters (bm_insert a q t) = (waiters t)(a := q)"
  by (auto simp: waiters_def bm_get_insert fun_eq_iff)

text \<open>The waiting threads after a queue was replaced.\<close>

lemma all_waiters_insert:
  assumes "bm_wf t"
  shows "all_waiters (bm_insert a q t) + mset (waiters t a) = all_waiters t + mset q"
proof (cases "bm_get t a")
  case None
  then show ?thesis
    using bm_values_insert_new [OF None, of q] by (simp add: all_waiters_def waiters_def)
next
  case (Some w)
  from bm_values_insert_old [OF assms Some, of q]
  have "sum_mset (image_mset mset (add_mset w (mset (map snd (bm_insert a q t))))) =
      sum_mset (image_mset mset (add_mset q (mset (map snd t))))" by simp
  with Some show ?thesis by (simp add: all_waiters_def waiters_def ac_simps)
qed

lemma waiters_subset: "bm_wf t \<Longrightarrow> mset (waiters t a) \<subseteq># all_waiters t"
proof (induction t)
  case (Cons x t)
  have "bm_wf t" using Cons.prems by (simp add: bm_wf_def)
  with Cons.IH show ?case
    by (cases x) (auto simp: waiters_def bm_get_def subset_mset.add_increasing split: option.splits)
qed (simp add: waiters_def bm_get_def)

lemma waiters_distinct: "futex_wf t \<Longrightarrow> distinct (waiters t a)"
proof -
  assume wf: "futex_wf t"
  have "count (mset (waiters t a)) x \<le> 1" for x
    using waiters_subset [of t a] wf by (metis futex_wf_def mset_subset_eq_count order.trans)
  then show ?thesis by (simp add: distinct_count_atmost_1 le_Suc_eq)
qed

lemma futex_wake_spec:
  assumes "bm_wf t" "futex_wake t a n = (t', k)"
  shows "k = min n (length (waiters t a))" "bm_wf t'" "waiters t' = (waiters t)(a := drop k (waiters t a))"
    "all_waiters t' + mset (take k (waiters t a)) = all_waiters t"
proof -
  show k: "k = min n (length (waiters t a))"
    using assms(2) by (auto simp: futex_wake_def waiters_def split: option.splits if_splits)
  have "t' = t \<and> waiters t a = [] \<or> t' = bm_insert a (drop k (waiters t a)) t"
    using assms(2) by (auto simp: futex_wake_def waiters_def split: option.splits if_splits)
  then consider (same) "t' = t" "waiters t a = []" | (upd) "t' = bm_insert a (drop k (waiters t a)) t" by blast
  then have "bm_wf t' \<and> waiters t' = (waiters t)(a := drop k (waiters t a)) \<and>
    all_waiters t' + mset (take k (waiters t a)) = all_waiters t"
  proof cases
    case upd
    have "mset (waiters t a) = mset (take k (waiters t a)) + mset (drop k (waiters t a))"
      by (simp flip: mset_append)
    with all_waiters_insert [OF assms(1), of a "drop k (waiters t a)"] upd assms(1)
    show ?thesis by (simp add: ac_simps bm_wf_insert waiters_insert)
  qed (use assms(1) in \<open>auto simp: fun_eq_iff\<close>)
  then show "bm_wf t'" "waiters t' = (waiters t)(a := drop k (waiters t a))"
    "all_waiters t' + mset (take k (waiters t a)) = all_waiters t" by blast+
qed

lemma futex_wf_subset:
  "futex_wf t \<Longrightarrow> bm_wf t' \<Longrightarrow> all_waiters t' + m = all_waiters t \<Longrightarrow> futex_wf t'"
  by (auto simp: futex_wf_def) (metis add_leD1 count_union One_nat_def)

lemma not_in_both:
  "futex_wf t \<Longrightarrow> all_waiters t' + mset m = all_waiters t \<Longrightarrow>
   in_futex t' tid \<longleftrightarrow> in_futex t tid \<and> tid \<notin> set m"
proof -
  assume wf: "futex_wf t" and sum: "all_waiters t' + mset m = all_waiters t"
  have c: "count (all_waiters t) tid = count (all_waiters t') tid + count (mset m) tid"
    using sum by (metis count_union)
  have "count (all_waiters t) tid \<le> 1" using wf by (simp add: futex_wf_def)
  moreover have "0 < count (mset m) tid \<longleftrightarrow> tid \<in> set m" by simp
  ultimately show ?thesis using c unfolding in_futex_count by linarith
qed

lemma futex_requeue_spec:
  assumes "bm_wf t" "bm_get t a = Some q" "w + r \<le> length q"
  shows "\<exists>t'. futex_requeue t a w b r = Ok (t', w) \<and> bm_wf t' \<and>
    waiters t' = ((waiters t)(a := drop (w + r) q))(b := (if b = a then drop (w + r) q else waiters t b) @ take r (drop w q)) \<and>
    all_waiters t' + mset (take w q) = all_waiters t"
proof -
  define t1 where "t1 = bm_insert a (drop (w + r) q) t"
  define t2 where "t2 = (if bm_get t1 b = None then bm_insert b [] t1 else t1)"
  define t3 where "t3 = bm_insert b (the (bm_get t2 b) @ take r (drop w q)) t2"
  have wf1: "bm_wf t1" unfolding t1_def using assms(1) by (rule bm_wf_insert)
  then have wf2: "bm_wf t2" by (simp add: t2_def bm_wf_insert)
  have w2: "waiters t2 = waiters t1" using wf1 by (auto simp: t2_def waiters_def bm_get_insert fun_eq_iff)
  have g2: "the (bm_get t2 b) = waiters t1 b"
    using wf1 by (auto simp: t2_def waiters_def bm_get_insert split: option.splits)
  have q: "waiters t a = q" using assms(2) by (simp add: waiters_def)
  have "futex_requeue t a w b r = Ok (t3, w)"
    using assms(2,3) by (auto simp: futex_requeue_def drain_to_def Let_def t1_def t2_def t3_def add.commute)
  moreover have "bm_wf t3" unfolding t3_def by (rule bm_wf_insert [OF wf2])
  moreover have w1: "waiters t1 = (waiters t)(a := drop (w + r) q)" unfolding t1_def by (rule waiters_insert [OF assms(1)])
  have "waiters t3 = (waiters t1)(b := waiters t1 b @ take r (drop w q))"
    unfolding t3_def waiters_insert [OF wf2] w2 g2 by simp
  moreover have "all_waiters t3 + mset (take w q) = all_waiters t"
  proof -
    have "all_waiters t3 + mset (waiters t2 b) = all_waiters t2 + mset (waiters t1 b @ take r (drop w q))"
      using all_waiters_insert [OF wf2, of b "the (bm_get t2 b) @ take r (drop w q)"] by (simp only: g2 t3_def)
    then have a3: "all_waiters t3 = all_waiters t2 + mset (take r (drop w q))" by (simp add: w2 ac_simps)
    have "all_waiters (bm_insert b [] t1) + mset (waiters t1 b) = all_waiters t1"
      using all_waiters_insert [OF wf1, of b "[]"] by simp
    then have a2: "all_waiters t2 = all_waiters t1" by (auto simp: t2_def waiters_def split: option.splits)
    have a1: "all_waiters t1 + mset q = all_waiters t + mset (drop (w + r) q)"
      using all_waiters_insert [OF assms(1), of a "drop (w + r) q"] q by (simp add: t1_def)
    have "q = take w q @ take r (drop w q) @ drop (w + r) q"
      by (metis append_take_drop_id drop_drop add.commute)
    then have "mset q = mset (take w q) + mset (take r (drop w q)) + mset (drop (w + r) q)"
      by (metis mset_append union_assoc)
    with a1 have "all_waiters t1 + mset (take w q) + mset (take r (drop w q)) = all_waiters t"
      by (simp add: ac_simps)
    with a3 a2 show ?thesis by (simp add: ac_simps)
  qed
  ultimately show ?thesis using w1 by (intro exI [of _ t3]) auto
qed

lemma futex_enter_spec:
  assumes "bm_wf t"
  shows "bm_wf (futex_enter t a tid)" "waiters (futex_enter t a tid) = (waiters t)(a := waiters t a @ [tid])"
    "all_waiters (futex_enter t a tid) = add_mset tid (all_waiters t)"
proof -
  have e: "futex_enter t a tid = bm_insert a (waiters t a @ [tid]) t"
    by (simp add: futex_enter_def waiters_def split: option.splits)
  show "bm_wf (futex_enter t a tid)" "waiters (futex_enter t a tid) = (waiters t)(a := waiters t a @ [tid])"
    using assms by (simp_all add: e bm_wf_insert waiters_insert)
  show "all_waiters (futex_enter t a tid) = add_mset tid (all_waiters t)"
    using all_waiters_insert [OF assms, of a "waiters t a @ [tid]"] by (simp add: e)
qed

section \<open>Properties\<close>


text \<open>\<^verbatim>\<open>FUTEX_REQUEUE\<close> with counts the queue can serve wakes the first waiters and
  moves the next ones, in order, to the end of the second address's queue; no waiter is
  lost or duplicated; with counts larger than the queue the call panics instead of
  serving the waiters there are.\<close>

theorem futex_requeue_moves_in_order:
  assumes "futex_wf t" "bm_get t a = Some q"
  shows "if w + r \<le> length q
    then \<exists>t'. futex_requeue t a w b r = Ok (t', w) \<and> futex_wf t' \<and>
      waiters t' = ((waiters t)(a := drop (w + r) q))
        (b := (if b = a then drop (w + r) q else waiters t b) @ take r (drop w q)) \<and>
      all_waiters t' + mset (take w q) = all_waiters t
    else futex_requeue t a w b r = Panic"
proof (cases "w + r \<le> length q")
  case True
  have wf: "bm_wf t" using assms(1) by (simp add: futex_wf_def)
  from futex_requeue_spec [OF wf assms(2) True, of b] obtain t' where
    t': "futex_requeue t a w b r = Ok (t', w)" "bm_wf t'" "all_waiters t' + mset (take w q) = all_waiters t"
      "waiters t' = ((waiters t)(a := drop (w + r) q))
        (b := (if b = a then drop (w + r) q else waiters t b) @ take r (drop w q))" by blast
  with True futex_wf_subset [OF assms(1) t'(2,3)] show ?thesis by auto
next
  case False
  then show ?thesis using assms(2) by (auto simp: futex_requeue_def drain_to_def)
qed

text \<open>C39: A wait that times out stays in the queue and swallows a wake-up: when the
  deadline passes the call returns \<^verbatim>\<open>ETIMEDOUT\<close> with the table unchanged, and a later
  \<^verbatim>\<open>FUTEX_WAKE\<close> of one thread reports one thread woken while the thread that really
  waits keeps waiting.\<close>

theorem futex_timeout_swallows_wake:
  assumes "futex_wf t" "waiters t a = []" "\<not> in_futex t tid" "\<not> in_futex t tid2" "tid \<noteq> tid2" "d < now"
    and "t1 = futex_enter t a tid" "t2 = futex_enter t1 a tid2" "futex_wake t2 a 1 = (t3, k)"
  shows "futex_wait_poll tid (Some d) False now t1 = (t1, Ready (Err ETIMEDOUT)) \<and> k = 1 \<and>
    futex_wait_poll tid2 None False now t3 = (t3, Pending)"
proof -
  have wf: "bm_wf t" using assms(1) by (simp add: futex_wf_def)
  note e1 = futex_enter_spec [OF wf, of a tid, folded assms(7)]
  note e2 = futex_enter_spec [OF e1(1), of a tid2, folded assms(8)]
  have w2: "waiters t2 a = [tid, tid2]" using e1(2) e2(2) assms(2) by simp
  have zero: "count (all_waiters t) tid = 0" "count (all_waiters t) tid2 = 0" using assms(3,4) by (simp_all add: in_futex_count not_in_iff)
  have "count (all_waiters t2) x \<le> 1" for x
    using assms(1,5) zero by (auto simp: e1(3) e2(3) futex_wf_def)
  then have wf2: "futex_wf t2" using e2(1) by (simp add: futex_wf_def)
  note sp = futex_wake_spec [OF e2(1) assms(9)]
  have k: "k = 1" using sp(1) w2 by simp
  have "in_futex t3 tid2"
    using not_in_both [OF wf2 sp(4), of tid2] k w2 assms(5) by (simp add: in_futex_count e2(3))
  moreover have "in_futex t1 tid" by (simp add: in_futex_count e1(3))
  ultimately show ?thesis
    using assms(6) k by (simp add: futex_wait_poll_def wait_futex_poll_def select_poll_def wait_until_poll_def)
qed

lemmas futex_eval = bm_get_def in_futex_def futex_wf_def bm_wf_def


theorem futex_requeue_moves_in_order_witness:
  "\<exists>t'. futex_requeue [(64, [5, 6, 7])] 64 1 128 1 = Ok (t', 1) \<and> waiters t' 128 = [6]"
proof -
  have wf: "futex_wf [(64, [5, 6, 7])]" by (simp add: futex_eval)
  have g: "bm_get [(64, [5, 6, 7])] 64 = Some [5, 6, 7::nat]" by (simp add: bm_get_def)
  have "waiters [(64, [5, 6, 7])] 128 = []" by (simp add: waiters_def bm_get_def)
  with futex_requeue_moves_in_order [OF wf g, of 1 1 128] show ?thesis by auto
qed

theorem futex_timeout_swallows_wake_witness:
  "\<exists>t3. futex_wake (futex_enter (futex_enter [] 64 5) 64 6) 64 1 = (t3, 1) \<and>
     futex_wait_poll 6 None False 9 t3 = (t3, Pending)"
proof -
  obtain t3 k where w: "futex_wake (futex_enter (futex_enter [] 64 5) 64 6) 64 1 = (t3, k)" by fastforce
  from futex_timeout_swallows_wake [OF _ _ _ _ _ _ refl refl w, of 8 9] w show ?thesis
    by (simp add: futex_eval waiters_def)
qed

end
