(* ===== verification/Timers.thy ===== *)
theory Timers
  imports Signals Futex
begin

text \<open>
  Clocks and interval timers: \<^verbatim>\<open>kernel/src/syscall/types/time.rs\<close>,
  \<^verbatim>\<open>kernel/src/utils/time.rs\<close>, the calls of \<^verbatim>\<open>kernel/src/syscall/time.rs\<close> and
  \<^verbatim>\<open>check_timer\<close> of \<^verbatim>\<open>kernel/src/user/entry.rs\<close>.  The hardware clock is an argument, the
  time in nanoseconds.
\<close>

section \<open>Times\<close>

datatype TimeVal = TimeVal (tv_sec: usize) (tv_usec: usize)

definition timeval_zero :: TimeVal where
  "timeval_zero = TimeVal 0 0"

definition timeval_add :: "TimeVal \<Rightarrow> TimeVal \<Rightarrow> TimeVal" where
  "timeval_add a b =
     (let n = uadd (tv_usec a) (tv_usec b)
      in TimeVal (uadd (uadd (tv_sec a) (tv_sec b)) (n div 1000000000)) (n mod 1000000000))"

datatype Ordering = Less | Equal | Greater

definition timeval_partial_cmp :: "TimeVal \<Rightarrow> TimeVal \<Rightarrow> Ordering option" where
  "timeval_partial_cmp a b =
     (if tv_sec a > tv_sec b then Some Greater
      else if tv_sec a < tv_sec b then Some Less
      else if tv_usec a > tv_usec b then Some Greater
      else if tv_usec a < tv_usec b then Some Less
      else Some Equal)"

text \<open>The comparison operators the source derives from \<^verbatim>\<open>partial_cmp\<close>.\<close>

instantiation TimeVal :: linorder
begin

definition less_eq_TimeVal :: "TimeVal \<Rightarrow> TimeVal \<Rightarrow> bool" where
  "less_eq_TimeVal a b \<longleftrightarrow> timeval_partial_cmp a b \<noteq> Some Greater"

definition less_TimeVal :: "TimeVal \<Rightarrow> TimeVal \<Rightarrow> bool" where
  "less_TimeVal a b \<longleftrightarrow> timeval_partial_cmp a b = Some Less"

instance
proof
  fix x y z :: TimeVal
  show "(x < y) = (x \<le> y \<and> \<not> y \<le> x)"
    by (auto simp: less_eq_TimeVal_def less_TimeVal_def timeval_partial_cmp_def)
  show "x \<le> x" by (simp add: less_eq_TimeVal_def timeval_partial_cmp_def)
  show "x \<le> y \<or> y \<le> x" by (auto simp: less_eq_TimeVal_def timeval_partial_cmp_def)
  show "x \<le> y \<Longrightarrow> y \<le> z \<Longrightarrow> x \<le> z"
    by (auto simp: less_eq_TimeVal_def timeval_partial_cmp_def split: if_splits)
  show "x \<le> y \<Longrightarrow> y \<le> x \<Longrightarrow> x = y"
    by (auto simp: less_eq_TimeVal_def timeval_partial_cmp_def split: if_splits intro: TimeVal.expand)
qed

end

lemma timeval_le: "a \<le> b \<longleftrightarrow> tv_sec a < tv_sec b \<or> (tv_sec a = tv_sec b \<and> tv_usec a \<le> tv_usec b)"
  by (auto simp: less_eq_TimeVal_def timeval_partial_cmp_def)

lemma timeval_less: "a < b \<longleftrightarrow> tv_sec a < tv_sec b \<or> (tv_sec a = tv_sec b \<and> tv_usec a < tv_usec b)"
  by (auto simp: less_TimeVal_def timeval_partial_cmp_def)

text \<open>The length of a time in microseconds, and the times with less than a second in the second field.\<close>

definition timeval_us :: "TimeVal \<Rightarrow> nat" where
  "timeval_us t = tv_sec t * 1000000 + tv_usec t"

definition normal :: "TimeVal \<Rightarrow> bool" where
  "normal t \<longleftrightarrow> tv_usec t < 1000000"

lemma timeval_us_le: "normal a \<Longrightarrow> normal b \<Longrightarrow> timeval_us a \<le> timeval_us b \<longleftrightarrow> a \<le> b"
  by (auto simp: timeval_le timeval_us_def normal_def)

definition current_timeval :: "nat \<Rightarrow> TimeVal" where
  "current_timeval ns = TimeVal (ns div 1000000000) (ns mod 1000000000 div 1000)"

definition current_timespec :: "nat \<Rightarrow> TimeSpec" where
  "current_timespec ns = \<lparr>sec = ns div 1000000000, nsec = ns mod 1000000000 div 1000\<rparr>"

lemma current_timeval_normal: "normal (current_timeval ns)"
  by (simp add: normal_def current_timeval_def div_less_iff_less_mult)

lemma current_timeval_us: "timeval_us (current_timeval ns) = ns div 1000"
proof -
  define q r where "q = ns div 1000000000" and "r = ns mod 1000000000"
  have "ns = r + (q * 1000000) * 1000" by (simp add: q_def r_def)
  then have "ns div 1000 = q * 1000000 + r div 1000" by simp
  then show ?thesis by (simp add: timeval_us_def current_timeval_def q_def r_def)
qed

section \<open>Interval timers\<close>

record ITimerVal =
  interval :: TimeVal
  it_value :: TimeVal

record ProcessTimer =
  timer :: ITimerVal
  tm_next :: TimeVal
  tm_last :: TimeVal

definition itimer_zero :: ITimerVal where
  "itimer_zero = \<lparr>interval = timeval_zero, it_value = timeval_zero\<rparr>"

definition timer_zero :: ProcessTimer where
  "timer_zero = \<lparr>timer = itimer_zero, tm_next = timeval_zero, tm_last = timeval_zero\<rparr>"

text \<open>The three timers of a process; the result carries the old setting when the caller asks for it.\<close>

definition sys_setitimer :: "ProcessTimer list \<Rightarrow> nat \<Rightarrow> nat \<Rightarrow> ITimerVal option \<Rightarrow> bool \<Rightarrow>
    ProcessTimer list \<times> ITimerVal option \<times> nat res" where
  "sys_setitimer ts now which new want_old =
     (if which = 0 then
        let t = ts ! 0;
            old = (if want_old then Some (timer t) else None);
            t' = (case new of
                    None \<Rightarrow> t
                  | Some n \<Rightarrow>
                      if tv_sec (it_value n) = 0 \<and> tv_usec (it_value n) = 0
                      then t\<lparr>timer := n, tm_next := timeval_zero, tm_last := timeval_zero\<rparr>
                      else t\<lparr>timer := n, tm_next := timeval_add (current_timeval now) (it_value n)\<rparr>)
        in (ts[0 := t'], old, Ok 0)
      else (ts, None, Err EPERM))"

definition check_timer :: "ProcessTimer list \<Rightarrow> nat \<Rightarrow> SigTcb \<Rightarrow> ProcessTimer list \<times> SigTcb" where
  "check_timer ts now tcb =
     (let t = ts ! 0 in
      if tm_next t > tm_last t \<and> current_timeval now \<ge> tm_next t
      then (ts[0 := t\<lparr>tm_last := tm_next t\<rparr>], tcb\<lparr>signal := add_signal (signal tcb) SIGALRM\<rparr>)
      else (ts, tcb))"

section \<open>Reading and waiting for the clock\<close>

definition sys_gettimeofday :: "nat \<Rightarrow> TimeVal \<times> nat res" where
  "sys_gettimeofday now = (current_timeval now, Ok 0)"

definition sys_clock_gettime :: "nat \<Rightarrow> nat \<Rightarrow> TimeSpec res" where
  "sys_clock_gettime now clock_id =
     rmap (\<lambda>ns. \<lparr>sec = ns div 1000000000, nsec = ns mod 1000000000\<rparr>)
       (if clock_id = 0 then Ok now else if clock_id = 1 then Ok now
        else if clock_id = 2 then Ok 0 else if clock_id = 3 then Ok 0 else Err EINVAL)"

definition sys_clock_getres :: TimeSpec where
  "sys_clock_getres = \<lparr>sec = 0, nsec = 1\<rparr>"

definition wait_handleable_signal_poll :: "SigTcb \<Rightarrow> unit Poll" where
  "wait_handleable_signal_poll tcb =
     (if has_signal (mask_signals (signal tcb) (sigmask tcb)) then Ready () else Pending)"

text \<open>\<^verbatim>\<open>nanosleep\<close> computes its deadline when it is called and is then polled.\<close>

definition sleep_deadline :: "nat \<Rightarrow> TimeSpec \<Rightarrow> usize" where
  "sleep_deadline now req = uadd (uadd now (umul (sec req) 1000000000)) (nsec req)"

definition sys_nanosleep_poll :: "usize \<Rightarrow> SigTcb \<Rightarrow> nat \<Rightarrow> nat res Poll" where
  "sys_nanosleep_poll deadline tcb now =
     (case select_poll (\<lambda>s. (s, wait_handleable_signal_poll tcb)) (wait_until_poll deadline now) () of
        (_, Ready (Right _)) \<Rightarrow> Ready (Ok 0)
      | (_, Ready (Left _)) \<Rightarrow> Ready (Err EINTR)
      | (_, Pending) \<Rightarrow> Pending)"

definition clock_nanosleep_deadline :: "nat \<Rightarrow> nat \<Rightarrow> TimeSpec \<Rightarrow> usize" where
  "clock_nanosleep_deadline now fl req =
     (if fl = 1 then uadd (umul (sec req) 1000000000) (nsec req) else sleep_deadline now req)"

definition sys_clock_nanosleep_poll :: "usize \<Rightarrow> nat \<Rightarrow> nat res Poll" where
  "sys_clock_nanosleep_poll deadline now =
     (case wait_until_poll deadline now () of (_, Ready _) \<Rightarrow> Ready (Ok 0) | (_, Pending) \<Rightarrow> Pending)"

section \<open>When the alarm is raised\<close>

text \<open>The clock readings, among those at which the timer is checked, that raise the alarm.\<close>

fun alarms :: "ProcessTimer list \<Rightarrow> nat list \<Rightarrow> nat list" where
  "alarms ts [] = []"
| "alarms ts (now # nows) =
     (case check_timer ts now sigtcb_new of (ts', tcb) \<Rightarrow>
        (if has_sig (signal tcb) SIGALRM then [now] else []) @ alarms ts' nows)"

lemma has_sig_alarm: "has_sig (add_signal (signal sigtcb_new) SIGALRM) SIGALRM" "\<not> has_sig (signal sigtcb_new) SIGALRM"
  by (simp_all add: has_sig_def add_signal_def sigtcb_new_def SIGALRM_def)

lemma alarms_spent: "ts \<noteq> [] \<Longrightarrow> tm_last (ts ! 0) = tm_next (ts ! 0) \<Longrightarrow> alarms ts nows = []"
  by (induction nows arbitrary: ts) (auto simp: check_timer_def has_sig_alarm)

lemma alarms_armed:
  assumes "ts \<noteq> []" "tm_last (ts ! 0) < tm_next (ts ! 0)"
  shows "alarms ts nows =
    (case List.find (\<lambda>now. tm_next (ts ! 0) \<le> current_timeval now) nows of None \<Rightarrow> [] | Some now \<Rightarrow> [now])"
proof (induction nows)
  case (Cons now nows)
  show ?case
  proof (cases "tm_next (ts ! 0) \<le> current_timeval now")
    case True
    have "alarms (ts[0 := (ts ! 0)\<lparr>tm_last := tm_next (ts ! 0)\<rparr>]) nows = []"
      by (rule alarms_spent) (use assms in auto)
    with True assms show ?thesis by (simp add: check_timer_def Let_def has_sig_alarm)
  next
    case False
    with Cons assms show ?thesis by (simp add: check_timer_def Let_def has_sig_alarm)
  qed
qed simp

lemma setitimer_next:
  assumes "ts \<noteq> []" "it_value n \<noteq> timeval_zero" "sys_setitimer ts now0 0 (Some n) want = (ts', old, r)"
  shows "ts' \<noteq> []" "tm_next (ts' ! 0) = timeval_add (current_timeval now0) (it_value n)"
    "tm_last (ts' ! 0) = tm_last (ts ! 0)"
  using assms by (auto simp: sys_setitimer_def Let_def timeval_zero_def split: if_splits) (metis TimeVal.exhaust_sel)+

lemma timeval_add_no_carry:
  assumes "tv_usec a + tv_usec b < 1000000" "tv_sec a + tv_sec b < USIZE"
  shows "timeval_add a b = TimeVal (tv_sec a + tv_sec b) (tv_usec a + tv_usec b)"
  using assms by (simp add: timeval_add_def Let_def uadd_le USIZE_def)

lemma timeval_add_lost_carry:
  assumes "1000000 \<le> tv_usec a + tv_usec b" "normal a" "normal b" "tv_sec a + tv_sec b < USIZE"
  shows "timeval_add a b = TimeVal (tv_sec a + tv_sec b) (tv_usec a + tv_usec b)"
  using assms by (simp add: timeval_add_def Let_def uadd_le USIZE_def normal_def)

lemma timeval_pos: "it \<noteq> timeval_zero \<Longrightarrow> normal a \<Longrightarrow> timeval_us a < timeval_us a + timeval_us it"
  by (cases it) (auto simp: timeval_us_def timeval_zero_def)

text \<open>
  C31: a timer armed by \<^verbatim>\<open>setitimer\<close> raises \<^verbatim>\<open>SIGALRM\<close> exactly once, at the first
  check at or after its deadline, when the microseconds of the present and of
  the value do not carry into the seconds.
\<close>

theorem setitimer_fires_once_on_time:
  assumes "ts \<noteq> []" "it_value n \<noteq> timeval_zero" "sys_setitimer ts now0 0 (Some n) want = (ts', old, r)"
    "tm_last (ts ! 0) \<le> current_timeval now0"
    "tv_usec (current_timeval now0) + tv_usec (it_value n) < 1000000"
    "tv_sec (current_timeval now0) + tv_sec (it_value n) < USIZE"
  shows "alarms ts' nows =
    (case List.find (\<lambda>now. now0 div 1000 + timeval_us (it_value n) \<le> now div 1000) nows of
       None \<Rightarrow> [] | Some now \<Rightarrow> [now])"
proof -
  note s = setitimer_next [OF assms(1-3)]
  have nx: "tm_next (ts' ! 0) = TimeVal (tv_sec (current_timeval now0) + tv_sec (it_value n))
      (tv_usec (current_timeval now0) + tv_usec (it_value n))"
    using s(2) timeval_add_no_carry [OF assms(5,6)] by simp
  then have nm: "normal (tm_next (ts' ! 0))" and us: "timeval_us (tm_next (ts' ! 0)) = now0 div 1000 + timeval_us (it_value n)"
    using assms(5) current_timeval_us [of now0] by (auto simp: normal_def timeval_us_def)
  have "\<not> tm_next (ts' ! 0) \<le> current_timeval now0"
    using timeval_us_le [OF nm current_timeval_normal, of now0] us timeval_pos [OF assms(2) current_timeval_normal, of now0]
    by (simp add: current_timeval_us)
  then have "alarms ts' nows =
      (case List.find (\<lambda>now. tm_next (ts' ! 0) \<le> current_timeval now) nows of None \<Rightarrow> [] | Some now \<Rightarrow> [now])"
    using alarms_armed [OF s(1)] s(3) assms(4) by simp
  moreover have "tm_next (ts' ! 0) \<le> current_timeval now \<longleftrightarrow> now0 div 1000 + timeval_us (it_value n) \<le> now div 1000" for now
    using timeval_us_le [OF nm current_timeval_normal, of now] us by (simp add: current_timeval_us)
  ultimately show ?thesis by simp
qed

theorem setitimer_fires_once_on_time_witness:
  "case sys_setitimer [timer_zero, timer_zero, timer_zero] 2000000000 0
     (Some \<lparr>interval = TimeVal 1 0, it_value = TimeVal 0 500000\<rparr>) False of
     (ts, old, r) \<Rightarrow> alarms ts [2100000000, 2500000000, 9000000000] = [2500000000]"
proof -
  obtain ts old r where s: "sys_setitimer [timer_zero, timer_zero, timer_zero] 2000000000 0
     (Some \<lparr>interval = TimeVal 1 0, it_value = TimeVal 0 500000\<rparr>) False = (ts, old, r)"
    by (cases "sys_setitimer [timer_zero, timer_zero, timer_zero] 2000000000 0
     (Some \<lparr>interval = TimeVal 1 0, it_value = TimeVal 0 500000\<rparr>) False")
  from setitimer_fires_once_on_time [OF _ _ s, of "[2100000000, 2500000000, 9000000000]"] s show ?thesis
    by (simp add: timer_zero_def timeval_zero_def current_timeval_def timeval_le timeval_us_def USIZE_def)
qed

text \<open>
  The sum of two times does not carry into the seconds, so a timer whose
  deadline crosses a second fires when that second starts: at the reading that
  begins the next second the alarm is raised, before the deadline.
\<close>

theorem setitimer_carry_fires_early:
  assumes "ts \<noteq> []" "it_value n \<noteq> timeval_zero" "sys_setitimer ts now0 0 (Some n) want = (ts', old, r)"
    "tm_last (ts ! 0) \<le> current_timeval now0" "normal (it_value n)"
    "1000000 < tv_usec (current_timeval now0) + tv_usec (it_value n)"
    "tv_sec (current_timeval now0) + tv_sec (it_value n) + 1 < USIZE"
    "now = (tv_sec (current_timeval now0) + tv_sec (it_value n) + 1) * 1000000000"
  shows "alarms ts' [now] = [now] \<and> now div 1000 < now0 div 1000 + timeval_us (it_value n)"
proof -
  note s = setitimer_next [OF assms(1-3)]
  have nx: "tm_next (ts' ! 0) = TimeVal (tv_sec (current_timeval now0) + tv_sec (it_value n))
      (tv_usec (current_timeval now0) + tv_usec (it_value n))"
    using s(2) timeval_add_lost_carry [of "current_timeval now0" "it_value n"] assms(5-7) current_timeval_normal by simp
  have c: "current_timeval now = TimeVal (tv_sec (current_timeval now0) + tv_sec (it_value n) + 1) 0"
    unfolding assms(8) by (simp add: current_timeval_def)
  have "current_timeval now0 < tm_next (ts' ! 0)"
    using current_timeval_normal [of now0] assms(6) unfolding nx by (auto simp: timeval_less normal_def)
  then have "tm_last (ts' ! 0) < tm_next (ts' ! 0)" using s(3) assms(4) by simp
  moreover have "tm_next (ts' ! 0) \<le> current_timeval now" unfolding nx c by (simp add: timeval_le)
  ultimately have "alarms ts' [now] = [now]" using alarms_armed [OF s(1), of "[now]"] by simp
  moreover have "now div 1000 < now0 div 1000 + timeval_us (it_value n)"
    using assms(6) c current_timeval_us [of now] current_timeval_us [of now0] by (simp add: timeval_us_def)
  ultimately show ?thesis by blast
qed

theorem setitimer_carry_fires_early_witness:
  "case sys_setitimer [timer_zero, timer_zero, timer_zero] 900000000 0
     (Some \<lparr>interval = TimeVal 0 0, it_value = TimeVal 0 900000\<rparr>) False of
     (ts, old, r) \<Rightarrow> alarms ts [1000000000] = [1000000000]"
proof -
  obtain ts old r where s: "sys_setitimer [timer_zero, timer_zero, timer_zero] 900000000 0
     (Some \<lparr>interval = TimeVal 0 0, it_value = TimeVal 0 900000\<rparr>) False = (ts, old, r)"
    by (cases "sys_setitimer [timer_zero, timer_zero, timer_zero] 900000000 0
     (Some \<lparr>interval = TimeVal 0 0, it_value = TimeVal 0 900000\<rparr>) False")
  from setitimer_carry_fires_early [OF _ _ s, of 1000000000] s show ?thesis
    by (simp add: timer_zero_def timeval_zero_def current_timeval_def timeval_le USIZE_def normal_def)
qed

text \<open>
  \<^verbatim>\<open>nanosleep\<close> never returns early.  It succeeds only at a time later than its
  start by more than the time asked for, it is interrupted exactly when a
  signal that is not masked is pending, and it does return once that time is over.
\<close>

theorem nanosleep_sleeps_long_enough:
  assumes "start + sec req * 1000000000 + nsec req < USIZE"
  shows "(sys_nanosleep_poll (sleep_deadline start req) tcb now = Ready (Ok 0) \<longleftrightarrow>
      signal tcb AND NOT (sigmask tcb) = 0 \<and> start + sec req * 1000000000 + nsec req < now) \<and>
    (sys_nanosleep_poll (sleep_deadline start req) tcb now = Ready (Err EINTR) \<longleftrightarrow> signal tcb AND NOT (sigmask tcb) \<noteq> 0) \<and>
    (sys_nanosleep_poll (sleep_deadline start req) tcb now = Pending \<longleftrightarrow>
      signal tcb AND NOT (sigmask tcb) = 0 \<and> now \<le> start + sec req * 1000000000 + nsec req)"
proof -
  have "umul (sec req) 1000000000 = sec req * 1000000000" using assms by (intro umul_le) simp
  then have d: "sleep_deadline start req = start + sec req * 1000000000 + nsec req"
    using assms by (simp add: sleep_deadline_def uadd_le)
  have "has_signal (mask_signals (signal tcb) (sigmask tcb)) \<longleftrightarrow> signal tcb AND NOT (sigmask tcb) \<noteq> 0"
    by (simp add: has_signal_def mask_signals_def and.commute)
  then show ?thesis
    by (auto simp: d sys_nanosleep_poll_def select_poll_def wait_handleable_signal_poll_def wait_until_poll_def)
qed

theorem nanosleep_sleeps_long_enough_witness:
  "sys_nanosleep_poll (sleep_deadline 5 \<lparr>sec = 1, nsec = 7\<rparr>) sigtcb_new 1000000013 = Ready (Ok 0)"
  using nanosleep_sleeps_long_enough [of 5 "\<lparr>sec = 1, nsec = 7\<rparr>" sigtcb_new 1000000013]
  by (simp add: sigtcb_new_def USIZE_def)

end
