(* ===== verification/Process.thy ===== *)
theory Process
  imports FdTable Ipc Timers
begin

text \<open>
  Processes and threads, \<^verbatim>\<open>kernel/src/tasks/task.rs\<close> and the process system calls of
  \<^verbatim>\<open>kernel/src/syscall/task.rs\<close>: creation by \<^verbatim>\<open>clone\<close>, exit, and \<^verbatim>\<open>wait4\<close>.  A task object
  is identified by its number; the process control block and the page table that the
  threads of a process share are identified by the process number.
\<close>

section \<open>State\<close>

text \<open>
  Besides the tasks, the state has the executor, the page tables, the frame allocator with
  the contents of the frames, the shared segments, and the frames that the cache of
  program images holds.  The registers the kernel code reads and writes by name come first.
\<close>

datatype TrapFrameArgs = SEPC | RA | SP | RET | ARG0 | ARG1 | ARG2 | TLS | SYSCALL

type_synonym TrapFrame = "TrapFrameArgs \<Rightarrow> usize"

text \<open>The permissions used for user pages; only \<open>URX\<close> forbids writing.\<close>

datatype MappingFlags = URX | URW | URWX

type_synonym ptab = "usize \<rightharpoonup> usize \<times> MappingFlags"

record ThreadControlBlock =
  cx :: TrapFrame
  sig :: SigTcb
  clear_child_tid :: usize
  set_child_tid :: usize
  tcb_exit_signal :: u8
  thread_exit_code :: "32 word option"
  robust_list_head :: usize
  robust_list_len :: usize

record ProcessControlBlock =
  pcb_memset :: "MemArea list"
  pcb_fds :: "nat option list"
  pcb_curr_dir :: nat
  pcb_heap :: usize
  pcb_entry :: usize
  children :: "nat list"
  pcb_rlimits :: "nat list"
  pcb_sigaction :: "SigAction list"
  futex_table :: FutexTable
  pcb_shms :: "MapedSharedMemory list"
  pcb_timer :: "ProcessTimer list"
  threads :: "nat list"
  exit_code :: "nat option"
  exit_signal :: "nat option"
  core_dumped :: bool
  pcb_umask :: nat

record UserTask =
  process_id :: nat
  parent :: "nat option"
  tcb :: ThreadControlBlock

record KState =
  exec :: "unit ExecState"
  tasks :: "nat \<rightharpoonup> UserTask"
  pcbs :: "nat \<rightharpoonup> ProcessControlBlock"
  ptabs :: "nat \<Rightarrow> ptab"
  frames :: FrameAllocator
  phys :: "usize \<Rightarrow> u8 list"
  shared_mem :: "SharedMemory list"
  cached :: "usize list"

text \<open>
  A task object lives while the executor holds it, queued or running, or while it is in
  the children of a process; a weak reference to it can be upgraded exactly then.
\<close>

definition alive :: "KState \<Rightarrow> nat \<Rightarrow> bool" where
  "alive ks t \<longleftrightarrow> t \<in> fst ` set (task_queue (exec ks)) \<or> Some t \<in> set (cores (exec ks)) \<or>
     (\<exists>p \<in> {..last_id (exec ks)}. case pcbs ks p of Some b \<Rightarrow> t \<in> set (children b) | None \<Rightarrow> False)"

definition upgrade :: "KState \<Rightarrow> nat option \<Rightarrow> nat option" where
  "upgrade ks w = (case w of Some t \<Rightarrow> if alive ks t then Some t else None | None \<Rightarrow> None)"

definition upd_pcb :: "nat \<Rightarrow> (ProcessControlBlock \<Rightarrow> ProcessControlBlock) \<Rightarrow> KState \<Rightarrow> KState" where
  "upd_pcb p f ks = ks\<lparr>pcbs := (pcbs ks)(p := map_option f (pcbs ks p))\<rparr>"

definition upd_tcb :: "nat \<Rightarrow> (ThreadControlBlock \<Rightarrow> ThreadControlBlock) \<Rightarrow> KState \<Rightarrow> KState" where
  "upd_tcb t f ks = ks\<lparr>tasks := (tasks ks)(t := map_option (\<lambda>x. x\<lparr>tcb := f (tcb x)\<rparr>) (tasks ks t))\<rparr>"

section \<open>Creation\<close>

definition tcb_new :: "TrapFrame \<Rightarrow> SigProcMask \<Rightarrow> ThreadControlBlock" where
  "tcb_new c m = \<lparr>cx = c, sig = sigtcb_new\<lparr>sigmask := m\<rparr>, clear_child_tid = 0, set_child_tid = 0,
     tcb_exit_signal = 0, thread_exit_code = None, robust_list_head = 0, robust_list_len = 0\<rparr>"

definition pcb_new :: "nat \<Rightarrow> nat \<Rightarrow> ProcessControlBlock" where
  "pcb_new tty home = \<lparr>pcb_memset = [], pcb_fds = file_table_new tty, pcb_curr_dir = home, pcb_heap = 0,
     pcb_entry = 0, children = [], pcb_rlimits = rlimits_new, pcb_sigaction = replicate 65 sigaction_new,
     futex_table = [], pcb_shms = [], pcb_timer = replicate 3 timer_zero, threads = [], exit_code = None,
     exit_signal = None, core_dumped = False, pcb_umask = 18\<rparr>"

text \<open>
  \<^verbatim>\<open>UserTask::new\<close>.  \<open>home\<close> is the open working directory, \<open>None\<close> when it cannot be
  opened, and \<open>cx0\<close> the fresh trap frame.
\<close>

definition task_new :: "KState \<Rightarrow> nat option \<Rightarrow> nat option \<Rightarrow> nat \<Rightarrow> TrapFrame \<Rightarrow> (KState \<times> nat) res" where
  "task_new ks par home tty cx0 =
     (case task_id_alloc (exec ks) of (e', tid) \<Rightarrow>
        case home of
          None \<Rightarrow> Panic
        | Some h \<Rightarrow>
            Ok (ks\<lparr>exec := e',
                   tasks := (tasks ks)(tid \<mapsto> \<lparr>process_id = tid, parent = par, tcb = tcb_new cx0 0\<rparr>),
                   pcbs := (pcbs ks)(tid \<mapsto> (pcb_new tty h)\<lparr>threads := [tid]\<rparr>),
                   ptabs := (ptabs ks)(tid := Map.empty)\<rparr>, tid))"

definition map_page :: "ptab \<Rightarrow> usize \<Rightarrow> usize \<Rightarrow> MappingFlags \<Rightarrow> ptab res" where
  "map_page p pa va fl = (if pa mod PAGE_SIZE \<noteq> 0 \<or> va mod PAGE_SIZE \<noteq> 0 then Panic else Ok (p(va \<mapsto> (pa, fl))))"

fun map_all :: "MappingFlags \<Rightarrow> (usize \<times> usize) list \<Rightarrow> ptab \<Rightarrow> ptab res" where
  "map_all fl [] p = Ok p"
| "map_all fl ((va, pa) # ms) p = rbind (map_page p pa va fl) (map_all fl ms)"

definition fork_flags :: "MemType \<Rightarrow> MappingFlags" where
  "fork_flags mt = (if mt = Shared \<or> mt = ShareFile then URWX else URX)"

text \<open>Every page of every area is mapped alike in the child and, again, in the parent.\<close>

fun fork_areas :: "MemArea list \<Rightarrow> ptab \<times> ptab \<Rightarrow> (ptab \<times> ptab) res" where
  "fork_areas [] pp = Ok pp"
| "fork_areas (a # as) pp =
     (let ms = map (\<lambda>t. (vaddr t, tracker t)) (mtrackers a); fl = fork_flags (mtype a)
      in rbind (map_all fl ms (fst pp)) (\<lambda>c. rbind (map_all fl ms (snd pp)) (\<lambda>p. fork_areas as (c, p))))"

definition shm_pages :: "KState \<Rightarrow> MapedSharedMemory list \<Rightarrow> (usize \<times> usize) list" where
  "shm_pages ks shs =
     concat (map (\<lambda>s. map (\<lambda>(i, f). (shm_start s + i * PAGE_SIZE, f)) (enumerate 0 (shm_trackers (shared_mem ks ! shm_mem s)))) shs)"

definition cow_fork :: "KState \<Rightarrow> nat \<Rightarrow> nat option \<Rightarrow> nat \<Rightarrow> TrapFrame \<Rightarrow> (KState \<times> nat) res" where
  "cow_fork ks t home tty cx0 =
     (case tasks ks t of
        None \<Rightarrow> Panic
      | Some self \<Rightarrow>
          (case pcbs ks (process_id self) of
             None \<Rightarrow> Panic
           | Some pcb \<Rightarrow>
               rbind (task_new ks (Some t) home tty cx0) (\<lambda>(ks1, new).
                 rbind (fork_areas (pcb_memset pcb) (Map.empty, ptabs ks (process_id self))) (\<lambda>(cpt, ppt).
                   rbind (map_all URWX (shm_pages ks (pcb_shms pcb)) cpt) (\<lambda>cpt'.
                     let ks2 = upd_pcb new (\<lambda>b. b\<lparr>pcb_fds := pcb_fds pcb, pcb_heap := pcb_heap pcb,
                                 pcb_curr_dir := pcb_curr_dir pcb, pcb_shms := pcb_shms pcb,
                                 pcb_memset := pcb_memset pcb\<rparr>) ks1;
                         ks3 = upd_pcb (process_id self) (\<lambda>b. b\<lparr>children := children b @ [new]\<rparr>) ks2;
                         ks4 = upd_tcb new (\<lambda>c. c\<lparr>cx := (cx (tcb self))(RET := 0)\<rparr>) ks3
                     in Ok (ks4\<lparr>ptabs := (ptabs ks4)(process_id self := ppt, new := cpt')\<rparr>, new))))))"

definition thread_clone :: "KState \<Rightarrow> nat \<Rightarrow> (KState \<times> nat) res" where
  "thread_clone ks t =
     (case tasks ks t of
        None \<Rightarrow> Panic
      | Some self \<Rightarrow>
          (case task_id_alloc (exec ks) of (e', tid) \<Rightarrow>
             let new = \<lparr>process_id = process_id self, parent = parent self,
                        tcb = tcb_new ((cx (tcb self))(RET := 0)) (sigmask (sig (tcb self)))\<rparr>;
                 ks1 = ks\<lparr>exec := e', tasks := (tasks ks)(tid \<mapsto> new)\<rparr>
             in Ok (upd_pcb (process_id self) (\<lambda>b. b\<lparr>threads := filter (alive ks) (threads b) @ [tid]\<rparr>) ks1, tid)))"

definition CLONE_THREAD :: u64 where "CLONE_THREAD = 0x10000"
definition CLONE_SETTLS :: u64 where "CLONE_SETTLS = 0x80000"
definition CLONE_PARENT_SETTID :: u64 where "CLONE_PARENT_SETTID = 0x100000"
definition CLONE_CHILD_CLEARTID :: u64 where "CLONE_CHILD_CLEARTID = 0x200000"
definition CLONE_CHILD_SETTID :: u64 where "CLONE_CHILD_SETTID = 0x1000000"

text \<open>
  The words written to user memory, by address, are part of the result; they go through
  the page table of the caller, which is the active one.
\<close>

definition sys_clone ::
  "KState \<Rightarrow> nat \<Rightarrow> u64 \<Rightarrow> usize \<Rightarrow> usize \<Rightarrow> usize \<Rightarrow> usize \<Rightarrow> nat option \<Rightarrow> nat \<Rightarrow> TrapFrame \<Rightarrow>
   (KState \<times> (usize \<times> nat) list \<times> nat) res" where
  "sys_clone ks t flgs stack ptid tls ctid home tty cx0 =
     rbind (if flgs AND CLONE_THREAD \<noteq> 0 then thread_clone ks t else cow_fork ks t home tty cx0) (\<lambda>(ks1, new).
       let clear = (if flgs AND CLONE_CHILD_CLEARTID \<noteq> 0 then ctid else 0);
           ks2 = upd_tcb new (\<lambda>c. c\<lparr>clear_child_tid := clear,
                   cx := (let c1 = (if stack \<noteq> 0 then (cx c)(SP := stack) else cx c)
                          in if flgs AND CLONE_SETTLS \<noteq> 0 then c1(TLS := tls) else c1),
                   tcb_exit_signal := ucast (flgs AND 0xff)\<rparr>) ks1;
           writes = (if flgs AND CLONE_PARENT_SETTID \<noteq> 0 then [(ptid, new)] else []) @
                    (if flgs AND CLONE_CHILD_SETTID \<noteq> 0 \<and> ctid \<noteq> 0 then [(ctid, new)] else [])
       in Ok (ks2\<lparr>exec := spawn (exec ks2) new ()\<rparr>, writes, new))"

section \<open>Exit\<close>

definition held :: "MemArea list \<Rightarrow> usize list" where
  "held ms = map tracker (trackers ms)"

text \<open>
  A frame is reference counted: the areas of the processes, the cached images and the
  shared segments hold it.  When the last of them drops it the frame goes back to the
  allocator, cleared.
\<close>

definition frame_refs :: "KState \<Rightarrow> usize \<Rightarrow> nat" where
  "frame_refs ks f = count_list (cached ks) f + count_list (concat (map shm_trackers (shared_mem ks))) f + sum_list (map (\<lambda>p. case pcbs ks p of None \<Rightarrow> 0
     | Some b \<Rightarrow> count_list (held (pcb_memset b)) f) [0..<Suc (last_id (exec ks))])"

definition zero_page :: "u8 list" where
  "zero_page = replicate PAGE_SIZE 0"

definition release_frames :: "KState \<Rightarrow> usize list \<Rightarrow> KState res" where
  "release_frames ks fs0 =
     (let dead = filter (\<lambda>f. frame_refs ks f = 0) (remdups fs0)
      in rmap (\<lambda>fa'. ks\<lparr>frames := fa', phys := (\<lambda>f. if f \<in> set dead then zero_page else phys ks f)\<rparr>)
           (drop_frames (frames ks) dead))"

definition translate :: "ptab \<Rightarrow> usize \<Rightarrow> (usize \<times> nat) option" where
  "translate p va = map_option (\<lambda>(f, _). (f, va mod PAGE_SIZE)) (p (va - va mod PAGE_SIZE))"

text \<open>The word at \<open>clear_child_tid\<close>, four bytes aligned, is cleared and one waiter on it woken.\<close>

definition clear_tid :: "KState \<Rightarrow> nat \<Rightarrow> UserTask \<Rightarrow> KState" where
  "clear_tid ks t self =
     (let uaddr = clear_child_tid (tcb self) in
      if uaddr \<noteq> 0 then
        (case translate (ptabs ks (process_id self)) uaddr of
           Some (f, off) \<Rightarrow>
             upd_pcb (process_id self) (\<lambda>b. b\<lparr>futex_table := fst (futex_wake (futex_table b) uaddr 1)\<rparr>)
               (ks\<lparr>phys := (phys ks)(f := overwrite (phys ks f) off [0, 0, 0, 0])\<rparr>)
         | None \<Rightarrow> ks)
      else ks)"

definition notify_parent :: "KState \<Rightarrow> UserTask \<Rightarrow> KState" where
  "notify_parent ks self =
     (case upgrade ks (parent self) of
        Some p \<Rightarrow>
          upd_tcb p (\<lambda>c. c\<lparr>sig := (sig c)\<lparr>signal := add_signal (signal (sig c))
            (if tcb_exit_signal (tcb self) \<noteq> 0 then from_num (unat (tcb_exit_signal (tcb self))) else SIGCHLD)\<rparr>\<rparr>) ks
      | None \<Rightarrow> ks)"

definition cleanup_process :: "KState \<Rightarrow> UserTask \<Rightarrow> nat \<Rightarrow> KState res" where
  "cleanup_process ks self code =
     (case pcbs ks (process_id self) of
        None \<Rightarrow> Panic
      | Some b \<Rightarrow>
          rbind (release_frames
                   (upd_pcb (process_id self) (\<lambda>b. b\<lparr>pcb_memset := []\<rparr>) ks)
                   (held (pcb_memset b))) (\<lambda>ks1.
            Ok (notify_parent
              (upd_pcb (process_id self) (\<lambda>b. b\<lparr>pcb_fds := [], children := [], exit_code := Some code\<rparr>) ks1) self)))"

definition leave_threads :: "KState \<Rightarrow> nat \<Rightarrow> nat list \<Rightarrow> nat list" where
  "leave_threads ks t ths = filter (\<lambda>x. alive ks x \<and> x \<noteq> t) ths"

definition thread_exit :: "KState \<Rightarrow> nat \<Rightarrow> nat \<Rightarrow> KState res" where
  "thread_exit ks t code =
     (case tasks ks t of
        None \<Rightarrow> Panic
      | Some self \<Rightarrow>
          let ks1 = clear_tid ks t self;
              ks2 = upd_tcb t (\<lambda>c. c\<lparr>thread_exit_code := Some (of_nat code)\<rparr>) ks1;
              ks3 = upd_pcb (process_id self) (\<lambda>b. b\<lparr>threads := leave_threads ks2 t (threads b)\<rparr>) ks2
          in case pcbs ks3 (process_id self) of
               None \<Rightarrow> Panic
             | Some b \<Rightarrow>
                 if t = process_id self \<and> length (threads b) = 0 then cleanup_process ks3 self code else Ok ks3)"

definition task_exit :: "KState \<Rightarrow> nat \<Rightarrow> nat \<Rightarrow> KState res" where
  "task_exit ks t code =
     (case tasks ks t of
        None \<Rightarrow> Panic
      | Some self \<Rightarrow>
          let ks1 = clear_tid ks t self;
              ks2 = upd_pcb (process_id self) (\<lambda>b. b\<lparr>exit_code := Some code, threads := leave_threads ks1 t (threads b)\<rparr>) ks1
          in case pcbs ks2 (process_id self) of
               None \<Rightarrow> Panic
             | Some b \<Rightarrow>
                 if t = process_id self \<and> length (threads b) = 0 then cleanup_process ks2 self code else Ok ks2)"

definition exit_with_signal :: "KState \<Rightarrow> nat \<Rightarrow> nat \<Rightarrow> KState res" where
  "exit_with_signal ks t sg =
     (case tasks ks t of
        None \<Rightarrow> Panic
      | Some self \<Rightarrow>
          task_exit (upd_pcb (process_id self)
            (\<lambda>b. b\<lparr>exit_signal := Some sg, exit_code := Some 0, core_dumped := sg \<in> {3, 4, 5, 6, 8, 10, 11}\<rparr>) ks) t 0)"

text \<open>The exit system calls: the code is the register, taken modulo the word size.\<close>

definition sys_exit :: "KState \<Rightarrow> nat \<Rightarrow> int \<Rightarrow> KState res" where
  "sys_exit ks t code = thread_exit ks t (nat (code mod 2 ^ 64))"

definition sys_exit_group :: "KState \<Rightarrow> nat \<Rightarrow> nat \<Rightarrow> KState res" where
  "sys_exit_group ks t code = task_exit ks t code"

definition check_thread_exit :: "KState \<Rightarrow> nat \<Rightarrow> nat option" where
  "check_thread_exit ks t =
     (case tasks ks t of
        None \<Rightarrow> None
      | Some self \<Rightarrow>
          (case pcbs ks (process_id self) of
             None \<Rightarrow> None
           | Some b \<Rightarrow> (case exit_code b of Some c \<Rightarrow> Some c | None \<Rightarrow> map_option unat (thread_exit_code (tcb self)))))"

section \<open>Waiting for children\<close>

definition task_exit_code :: "KState \<Rightarrow> nat \<Rightarrow> nat option" where
  "task_exit_code ks t =
     (case tasks ks t of None \<Rightarrow> None
      | Some self \<Rightarrow> (case pcbs ks (process_id self) of None \<Rightarrow> None | Some b \<Rightarrow> exit_code b))"

definition children_of :: "KState \<Rightarrow> nat \<Rightarrow> nat list" where
  "children_of ks t =
     (case tasks ks t of None \<Rightarrow> []
      | Some self \<Rightarrow> (case pcbs ks (process_id self) of None \<Rightarrow> [] | Some b \<Rightarrow> children b))"

definition usize_of :: "int \<Rightarrow> usize" where
  "usize_of i = nat (i mod 2 ^ 64)"

definition wait_pid_poll :: "KState \<Rightarrow> nat \<Rightarrow> int \<Rightarrow> nat Poll" where
  "wait_pid_poll ks t pid =
     (case List.find (\<lambda>x. (pid = -1 \<or> x = usize_of pid) \<and> task_exit_code ks x \<noteq> None) (children_of ks t) of
        Some c \<Rightarrow> Ready c
      | None \<Rightarrow> Pending)"

definition wait_status :: "ProcessControlBlock \<Rightarrow> 32 word" where
  "wait_status b =
     (case exit_signal b of
        Some sg \<Rightarrow> if core_dumped b then of_nat sg OR 0x80 else of_nat sg
      | None \<Rightarrow> push_bit 8 (of_nat (case exit_code b of Some c \<Rightarrow> c | None \<Rightarrow> 0)))"

text \<open>\<^verbatim>\<open>UserTask::release\<close> asserts that the task has exited.\<close>

definition task_release :: "KState \<Rightarrow> nat \<Rightarrow> KState res" where
  "task_release ks t = (if check_thread_exit ks t \<noteq> None then Ok (ks\<lparr>exec := release_task (exec ks) t\<rparr>) else Panic)"

text \<open>Reaping a child: the result is the status written when the pointer is valid.\<close>

definition reap :: "KState \<Rightarrow> nat \<Rightarrow> nat \<Rightarrow> bool \<Rightarrow> KState \<times> 32 word option \<times> nat res" where
  "reap ks t c valid =
     (case tasks ks t of
        None \<Rightarrow> (ks, None, Panic)
      | Some self \<Rightarrow>
          let ks1 = upd_pcb (process_id self) (\<lambda>b. b\<lparr>children := filter (\<lambda>x. x \<noteq> c) (children b)\<rparr>) ks
          in case task_release ks1 c of
               Ok ks2 \<Rightarrow>
                 (ks2,
                  if valid then
                    (case tasks ks c of None \<Rightarrow> None
                     | Some ch \<Rightarrow> map_option wait_status (pcbs ks (process_id ch)))
                  else None,
                  Ok c)
             | _ \<Rightarrow> (ks1, None, Panic))"

definition wait4_check :: "KState \<Rightarrow> nat \<Rightarrow> int \<Rightarrow> bool" where
  "wait4_check ks t pid \<longleftrightarrow> children_of ks t \<noteq> [] \<and> (pid = -1 \<or> usize_of pid \<in> set (children_of ks t))"

text \<open>A later poll of a blocked call.\<close>

definition wait4_resume :: "KState \<Rightarrow> nat \<Rightarrow> int \<Rightarrow> bool \<Rightarrow> KState \<times> 32 word option \<times> nat res Poll" where
  "wait4_resume ks t pid valid =
     (case wait_pid_poll ks t pid of
        Pending \<Rightarrow> (ks, None, Pending)
      | Ready c \<Rightarrow> (case reap ks t c valid of (ks', st, r) \<Rightarrow> (ks', st, Ready r)))"

definition sys_wait4 :: "KState \<Rightarrow> nat \<Rightarrow> int \<Rightarrow> bool \<Rightarrow> nat \<Rightarrow> KState \<times> 32 word option \<times> nat res Poll" where
  "sys_wait4 ks t pid valid options =
     (if \<not> wait4_check ks t pid then (ks, None, Ready (Err ECHILD))
      else if options = 0 \<or> options = 2 \<or> options = 3 \<or> options = 10 then wait4_resume ks t pid valid
      else if options = 1 then
        (case List.find (\<lambda>x. x = usize_of pid \<or> pid = -1) (children_of ks t) of
           Some c \<Rightarrow>
             (case task_exit_code ks c of
                Some _ \<Rightarrow> (case reap ks t c valid of (ks', st, r) \<Rightarrow> (ks', st, Ready r))
              | None \<Rightarrow> (ks, None, Ready (Ok 0)))
         | None \<Rightarrow> (ks, None, Ready (Ok 0)))
      else (ks, None, Ready (Err EPERM)))"

section \<open>Identity\<close>

definition sys_set_tid_address :: "KState \<Rightarrow> nat \<Rightarrow> usize \<Rightarrow> KState \<times> nat res" where
  "sys_set_tid_address ks t tid_ptr = (upd_tcb t (\<lambda>c. c\<lparr>clear_child_tid := tid_ptr\<rparr>) ks, Ok t)"

definition sys_getpid :: "KState \<Rightarrow> nat \<Rightarrow> nat res" where
  "sys_getpid ks t = (case tasks ks t of Some self \<Rightarrow> Ok (process_id self) | None \<Rightarrow> Panic)"

definition sys_getppid :: "KState \<Rightarrow> nat \<Rightarrow> nat res" where
  "sys_getppid ks t =
     (case tasks ks t of
        None \<Rightarrow> Panic
      | Some self \<Rightarrow>
          (case upgrade ks (parent self) of
             None \<Rightarrow> Err EPERM
           | Some p \<Rightarrow> (case tasks ks p of Some x \<Rightarrow> Ok (process_id x) | None \<Rightarrow> Err EPERM)))"

definition sys_gettid :: "nat \<Rightarrow> nat res" where
  "sys_gettid t = Ok t"

definition sys_setsid :: "KState \<Rightarrow> nat \<Rightarrow> KState \<times> nat res" where
  "sys_setsid ks t =
     (case tasks ks t of
        None \<Rightarrow> (ks, Panic)
      | Some self \<Rightarrow>
          (case upgrade ks (parent self) of
             Some p \<Rightarrow>
               (case tasks ks p of
                  Some x \<Rightarrow>
                    (let ks1 = upd_pcb (process_id x) (\<lambda>b. b\<lparr>children := filter (\<lambda>c. c \<noteq> t) (children b)\<rparr>) ks
                     in ks1\<lparr>tasks := (tasks ks1)(t \<mapsto> self\<lparr>parent := None\<rparr>)\<rparr>)
                | None \<Rightarrow> ks)
           | None \<Rightarrow> ks, Ok t))"

section \<open>What the operations change\<close>

lemma upd_pcb_simps [simp]:
  "pcbs (upd_pcb p f ks) = (pcbs ks)(p := map_option f (pcbs ks p))"
  "tasks (upd_pcb p f ks) = tasks ks" "exec (upd_pcb p f ks) = exec ks" "ptabs (upd_pcb p f ks) = ptabs ks"
  "frames (upd_pcb p f ks) = frames ks" "phys (upd_pcb p f ks) = phys ks" "shared_mem (upd_pcb p f ks) = shared_mem ks"
  "cached (upd_pcb p f ks) = cached ks"
  by (simp_all add: upd_pcb_def)

lemma upd_tcb_simps [simp]:
  "tasks (upd_tcb t g ks) = (tasks ks)(t := map_option (\<lambda>x. x\<lparr>tcb := g (tcb x)\<rparr>) (tasks ks t))"
  "pcbs (upd_tcb t g ks) = pcbs ks" "exec (upd_tcb t g ks) = exec ks" "ptabs (upd_tcb t g ks) = ptabs ks"
  "frames (upd_tcb t g ks) = frames ks" "phys (upd_tcb t g ks) = phys ks" "shared_mem (upd_tcb t g ks) = shared_mem ks"
  "cached (upd_tcb t g ks) = cached ks"
  by (simp_all add: upd_tcb_def)

text \<open>
  Two states with the same skeleton: the same tasks with the same process and parent, and the
  same processes up to \<open>r\<close>, which relates the control blocks.
\<close>

definition same_tasks :: "KState \<Rightarrow> KState \<Rightarrow> bool" where
  "same_tasks ks ks' \<longleftrightarrow> exec ks' = exec ks \<and>
     (\<forall>t. map_option (\<lambda>x. (process_id x, parent x)) (tasks ks' t) = map_option (\<lambda>x. (process_id x, parent x)) (tasks ks t))"

lemma same_tasks_refl [simp]: "same_tasks ks ks"
  by (simp add: same_tasks_def)

lemma same_tasks_trans: "same_tasks a b \<Longrightarrow> same_tasks b c \<Longrightarrow> same_tasks a c"
  by (simp add: same_tasks_def)

lemma same_tasks_upd [simp]: "same_tasks ks (upd_pcb p f ks')  = same_tasks ks ks'" "same_tasks ks (upd_tcb t g ks') = same_tasks ks ks'"
  by (auto simp: same_tasks_def option.map_comp comp_def)

lemma same_tasks_Some:
  assumes "same_tasks ks ks'" "tasks ks t = Some x"
  obtains x' where "tasks ks' t = Some x'" "process_id x' = process_id x" "parent x' = parent x"
proof -
  have "map_option (\<lambda>x. (process_id x, parent x)) (tasks ks' t) = Some (process_id x, parent x)"
    using assms by (simp add: same_tasks_def)
  then show ?thesis using that by auto
qed

lemma clear_tid_effect:
  "same_tasks ks (clear_tid ks t self)" "frames (clear_tid ks t self) = frames ks" "tasks (clear_tid ks t self) = tasks ks"
  "shared_mem (clear_tid ks t self) = shared_mem ks"
  "\<exists>f. pcbs (clear_tid ks t self) = (pcbs ks)(process_id self := map_option (\<lambda>b. b\<lparr>futex_table := f (futex_table b)\<rparr>) (pcbs ks (process_id self)))"
proof -
  have id: "(pcbs ks)(p := map_option (\<lambda>b. b\<lparr>futex_table := (\<lambda>x. x) (futex_table b)\<rparr>) (pcbs ks p)) = pcbs ks" for p
    by (cases "pcbs ks p") (auto simp: fun_eq_iff)
  show "\<exists>f. pcbs (clear_tid ks t self) = (pcbs ks)(process_id self := map_option (\<lambda>b. b\<lparr>futex_table := f (futex_table b)\<rparr>) (pcbs ks (process_id self)))"
  proof (cases "clear_child_tid (tcb self) \<noteq> 0 \<and> translate (ptabs ks (process_id self)) (clear_child_tid (tcb self)) \<noteq> None")
    case True
    then show ?thesis
      by (auto simp: clear_tid_def Let_def intro!: exI [of _ "\<lambda>x. fst (futex_wake x (clear_child_tid (tcb self)) 1)"])
  next
    case False
    then show ?thesis using id
      by (auto simp: clear_tid_def Let_def intro!: exI [of _ "\<lambda>x. x"] split: option.splits)
  qed
qed (auto simp: clear_tid_def Let_def same_tasks_def split: option.splits)

lemma notify_parent_effect [simp]:
  "same_tasks ks (notify_parent ks' self) = same_tasks ks ks'" "pcbs (notify_parent ks self) = pcbs ks"
  "frames (notify_parent ks self) = frames ks" "shared_mem (notify_parent ks self) = shared_mem ks"
  by (auto simp: notify_parent_def split: option.splits)

text \<open>The signal a process sends to its parent when it ends.\<close>

definition end_signal :: "UserTask \<Rightarrow> u64" where
  "end_signal self = (if tcb_exit_signal (tcb self) \<noteq> 0 then from_num (unat (tcb_exit_signal (tcb self))) else SIGCHLD)"

definition post_to :: "u64 \<Rightarrow> UserTask \<Rightarrow> UserTask" where
  "post_to sg x = x\<lparr>tcb := (tcb x)\<lparr>sig := (sig (tcb x))\<lparr>signal := add_signal (signal (sig (tcb x))) sg\<rparr>\<rparr>\<rparr>"

definition queued :: "KState \<Rightarrow> nat \<Rightarrow> bool" where
  "queued ks t \<longleftrightarrow> t \<in> fst ` set (task_queue (exec ks))"

lemma notify_parent_tasks:
  "parent self = Some q \<Longrightarrow> queued ks q \<Longrightarrow>
     tasks (notify_parent ks self) = (tasks ks)(q := map_option (post_to (end_signal self)) (tasks ks q))"
  by (simp add: notify_parent_def upgrade_def alive_def queued_def end_signal_def post_to_def [abs_def])

text \<open>Every frame an area holds is one of the allocator's.\<close>

definition frames_owned :: "KState \<Rightarrow> bool" where
  "frames_owned ks \<longleftrightarrow> fa_wf (frames ks) \<and>
     (\<forall>p b. pcbs ks p = Some b \<longrightarrow> set (held (pcb_memset b)) \<subseteq> managed_frames (frames ks))"

lemma frames_owned_upd: "frames_owned ks \<Longrightarrow> (\<And>b. pcb_memset (f b) = pcb_memset b) \<Longrightarrow> frames_owned (upd_pcb p f ks)"
  by (cases "pcbs ks p") (simp_all add: frames_owned_def)

lemma release_frames_Ok:
  assumes "fa_wf (frames ks)" "set fs0 \<subseteq> managed_frames (frames ks)"
  shows "\<exists>ks'. release_frames ks fs0 = Ok ks' \<and> fa_wf (frames ks') \<and> managed_frames (frames ks') = managed_frames (frames ks) \<and>
    tasks ks' = tasks ks \<and> pcbs ks' = pcbs ks \<and> exec ks' = exec ks \<and> shared_mem ks' = shared_mem ks"
proof -
  have "set (filter (\<lambda>f. frame_refs ks f = 0) (remdups fs0)) \<subseteq> managed_frames (frames ks)" using assms(2) by auto
  from drop_frames_Ok [OF assms(1) this] show ?thesis by (auto simp: release_frames_def Let_def)
qed

lemma cleanup_process_Ok:
  assumes "frames_owned ks" "pcbs ks (process_id self) = Some b"
  shows "\<exists>ks'. cleanup_process ks self code = Ok ks' \<and> same_tasks ks ks' \<and> frames_owned ks' \<and>
    pcbs ks' = (pcbs ks)(process_id self \<mapsto> b\<lparr>pcb_memset := [], pcb_fds := [], children := [], exit_code := Some code\<rparr>) \<and>
    (\<forall>q. parent self = Some q \<and> queued ks q \<longrightarrow> tasks ks' = (tasks ks)(q := map_option (post_to (end_signal self)) (tasks ks q)))"
proof -
  let ?k = "upd_pcb (process_id self) (\<lambda>b. b\<lparr>pcb_memset := []\<rparr>) ks" and ?h = "held (pcb_memset b)"
  have "set ?h \<subseteq> managed_frames (frames ?k)" using assms by (auto simp: frames_owned_def)
  with assms(1) obtain k1 where k1: "release_frames ?k ?h = Ok k1" "fa_wf (frames k1)"
    "managed_frames (frames k1) = managed_frames (frames ks)" "tasks k1 = tasks ks" "pcbs k1 = pcbs ?k" "exec k1 = exec ks"
    using release_frames_Ok [of ?k ?h] by (auto simp: frames_owned_def)
  have p: "pcbs k1 = (pcbs ks)(process_id self \<mapsto> b\<lparr>pcb_memset := []\<rparr>)" using k1(5) assms(2) by simp
  let ?r = "notify_parent (upd_pcb (process_id self) (\<lambda>b. b\<lparr>pcb_fds := [], children := [], exit_code := Some code\<rparr>) k1) self"
  have "cleanup_process ks self code = Ok ?r" using k1(1) assms(2) by (simp add: cleanup_process_def)
  moreover have "same_tasks ks k1" using k1(4,6) by (simp add: same_tasks_def)
  then have "same_tasks ks ?r" by simp
  moreover have q: "pcbs ?r = (pcbs ks)(process_id self \<mapsto> b\<lparr>pcb_memset := [], pcb_fds := [], children := [], exit_code := Some code\<rparr>)"
    by (simp add: p)
  moreover have "frames_owned ?r"
    using assms(1) k1(2,3) unfolding frames_owned_def q by (simp add: held_def trackers_def)
  moreover have "tasks ?r = (tasks ks)(q := map_option (post_to (end_signal self)) (tasks ks q))"
    if "parent self = Some q" "queued ks q" for q
    using notify_parent_tasks [of self q] that k1(4,6) by (simp add: queued_def)
  ultimately show ?thesis by blast
qed

lemma alive_exec:
  assumes "exec ks' = exec ks" "\<And>p. map_option children (pcbs ks' p) = map_option children (pcbs ks p)"
  shows "alive ks' t = alive ks t"
proof -
  have "(case pcbs ks' p of Some b \<Rightarrow> t \<in> set (children b) | None \<Rightarrow> False) = (case pcbs ks p of Some b \<Rightarrow> t \<in> set (children b) | None \<Rightarrow> False)" for p
    using assms(2) [of p] by (cases "pcbs ks p"; cases "pcbs ks' p") auto
  then show ?thesis by (simp add: alive_def assms(1))
qed

lemma clear_tid_pcb:
  assumes "pcbs ks (process_id self) = Some b"
  obtains fx where "pcbs (clear_tid ks t self) = (pcbs ks)(process_id self \<mapsto> b\<lparr>futex_table := fx\<rparr>)"
  using clear_tid_effect(5) [of ks t self] assms by auto

lemma clear_tid_owned: "frames_owned ks \<Longrightarrow> frames_owned (clear_tid ks t self)"
proof -
  assume o: "frames_owned ks"
  obtain f where "pcbs (clear_tid ks t self) =
      (pcbs ks)(process_id self := map_option (\<lambda>b. b\<lparr>futex_table := f (futex_table b)\<rparr>) (pcbs ks (process_id self)))"
    using clear_tid_effect(5) [of ks t self] by blast
  then show ?thesis using o clear_tid_effect(2) [of ks t self]
    by (cases "pcbs ks (process_id self)") (simp_all add: frames_owned_def)
qed

text \<open>The only thread of a process exits: its control block records the code and everything it held is dropped.\<close>

lemma task_exit_single:
  assumes "tasks ks c = Some self" "process_id self = c" "pcbs ks c = Some b" "set (threads b) \<subseteq> {c}" "frames_owned ks"
  shows "\<exists>ks' fx. task_exit ks c code = Ok ks' \<and> same_tasks ks ks' \<and>
    pcbs ks' = (pcbs ks)(c \<mapsto> b\<lparr>futex_table := fx, threads := [], pcb_memset := [], pcb_fds := [], children := [], exit_code := Some code\<rparr>) \<and>
    (\<forall>q. parent self = Some q \<and> queued ks q \<longrightarrow> tasks ks' = (tasks ks)(q := map_option (post_to (end_signal self)) (tasks ks q)))"
proof -
  obtain fx where c: "pcbs (clear_tid ks c self) = (pcbs ks)(c \<mapsto> b\<lparr>futex_table := fx\<rparr>)"
    using clear_tid_pcb [of ks self b c] assms(2,3) by metis
  define k1 where "k1 = clear_tid ks c self"
  define k2 where "k2 = upd_pcb c (\<lambda>b. b\<lparr>exit_code := Some code, threads := leave_threads k1 c (threads b)\<rparr>) k1"
  define b2 where "b2 = b\<lparr>futex_table := fx, exit_code := Some code, threads := []\<rparr>"
  have l: "leave_threads k1 c (threads b) = []" using assms(4) by (auto simp: leave_threads_def filter_empty_conv)
  have p2: "pcbs k2 = (pcbs ks)(c \<mapsto> b2)" using c l by (simp add: k2_def b2_def k1_def)
  have "frames_owned k2" unfolding k2_def k1_def by (rule frames_owned_upd [OF clear_tid_owned [OF assms(5)]]) simp
  from cleanup_process_Ok [OF this, of self b2 code, unfolded assms(2)]
  obtain ks' where ks': "cleanup_process k2 self code = Ok ks'" "same_tasks k2 ks'"
    "pcbs ks' = (pcbs k2)(c \<mapsto> b2\<lparr>pcb_memset := [], pcb_fds := [], children := [], exit_code := Some code\<rparr>)"
    "\<forall>q. parent self = Some q \<and> queued k2 q \<longrightarrow> tasks ks' = (tasks k2)(q := map_option (post_to (end_signal self)) (tasks k2 q))"
    unfolding p2 fun_upd_same by blast
  have e: "tasks k2 = tasks ks" "exec k2 = exec ks"
    using clear_tid_effect(1,3) [of ks c self] by (simp_all add: k2_def k1_def same_tasks_def)
  have "same_tasks ks k2" using clear_tid_effect(1) [of ks c self] by (simp add: k2_def k1_def)
  then have "same_tasks ks ks'" using ks'(2) same_tasks_trans by blast
  moreover have "task_exit ks c code = Ok ks'"
    unfolding task_exit_def assms(1) option.case Let_def assms(2) k1_def [symmetric] k2_def [symmetric] p2
    by (simp add: ks'(1) b2_def)
  moreover have "pcbs ks' = (pcbs ks)(c \<mapsto> b\<lparr>futex_table := fx, threads := [], pcb_memset := [], pcb_fds := [], children := [], exit_code := Some code\<rparr>)"
    unfolding ks'(3) p2 b2_def by simp
  moreover note ks'(4) [unfolded queued_def e, folded queued_def]
  ultimately show ?thesis by blast
qed

lemma usize_of_nat: "c < USIZE \<Longrightarrow> usize_of (int c) = c"
  by (simp add: usize_of_def USIZE_def)

lemma children_of_Some: "tasks ks t = Some self \<Longrightarrow> pcbs ks (process_id self) = Some b \<Longrightarrow> children_of ks t = children b"
  by (simp add: children_of_def)

lemma reap_Ok:
  assumes "tasks ks t = Some self" "pcbs ks (process_id self) = Some b" "tasks ks c = Some ch"
    "pcbs ks (process_id ch) = Some cb" "exit_code cb = Some code" "process_id ch \<noteq> process_id self"
  shows "reap ks t c valid =
    ((upd_pcb (process_id self) (\<lambda>b. b\<lparr>children := filter (\<lambda>x. x \<noteq> c) (children b)\<rparr>) ks)\<lparr>exec := release_task (exec ks) c\<rparr>,
     if valid then Some (wait_status cb) else None, Ok c)"
  using assms by (simp add: reap_def Let_def task_release_def check_thread_exit_def)

section \<open>Properties\<close>

lemma find_SomeD: "List.find P xs = Some x \<Longrightarrow> x \<in> set xs \<and> P x"
  by (auto simp: find_Some_iff)

text \<open>A child that has exited is reported by the next wait for it.\<close>

lemma wait4_dead_child:
  assumes "tasks ks p = Some self" "pcbs ks (process_id self) = Some pb" "c \<in> set (children pb)" "c < USIZE"
    "tasks ks c = Some ch" "process_id ch = c" "pcbs ks c = Some cb" "exit_code cb = Some code" "process_id self \<noteq> c"
    "sys_wait4 ks p (int c) True 0 = (ks', st, r)"
  shows "st = Some (wait_status cb) \<and> r = Ready (Ok c) \<and> children_of ks' p = filter (\<lambda>x. x \<noteq> c) (children pb) \<and>
    task_map (exec ks') c = None"
proof -
  have ch: "children_of ks p = children pb" using assms(1,2) by (rule children_of_Some)
  have ex: "task_exit_code ks c = Some code" using assms(5-8) by (simp add: task_exit_code_def)
  obtain d where d: "List.find (\<lambda>x. (int c = - 1 \<or> x = c) \<and> task_exit_code ks x \<noteq> None) (children pb) = Some d"
    using assms(3) ex by (cases "List.find (\<lambda>x. (int c = - 1 \<or> x = c) \<and> task_exit_code ks x \<noteq> None) (children pb)") (auto simp: find_None_iff)
  then have "d = c" by (auto dest!: find_SomeD)
  with d have "wait_pid_poll ks p (int c) = Ready c" by (simp add: wait_pid_poll_def ch usize_of_nat [OF assms(4)])
  moreover have "wait4_check ks p (int c)"
    using assms(3) by (auto simp: wait4_check_def ch usize_of_nat [OF assms(4)])
  moreover note reap_Ok [of ks p self pb c ch cb code True]
  ultimately show ?thesis using assms
    by (auto simp: sys_wait4_def wait4_resume_def children_of_def release_task_def)
qed


text \<open>A process and its only child, both single threaded and queued.\<close>

definition demo_task :: "nat \<Rightarrow> nat option \<Rightarrow> UserTask" where
  "demo_task p par = \<lparr>process_id = p, parent = par, tcb = tcb_new (\<lambda>_. 0) 0\<rparr>"

definition parent_and_child :: KState where
  "parent_and_child = \<lparr>
     exec = \<lparr>cores = [None], inited = True, task_queue = [(1, ()), (2, ())], task_map = [1 \<mapsto> 1, 2 \<mapsto> 2], last_id = 2\<rparr>,
     tasks = [1 \<mapsto> demo_task 1 None, 2 \<mapsto> demo_task 2 (Some 1)],
     pcbs = [1 \<mapsto> (pcb_new 0 0)\<lparr>threads := [1], children := [2]\<rparr>, 2 \<mapsto> (pcb_new 0 0)\<lparr>threads := [2]\<rparr>],
     ptabs = (\<lambda>_. Map.empty), frames = [], phys = (\<lambda>_. []), shared_mem = [], cached = []\<rparr>"

lemmas demo_defs = parent_and_child_def demo_task_def pcb_new_def

lemma demo_owned: "frames_owned parent_and_child"
  by (auto simp: frames_owned_def demo_defs held_def trackers_def fa_wf_def split: if_splits)





text \<open>The process 2 with two threads.\<close>

definition two_threads :: KState where
  "two_threads = parent_and_child\<lparr>
     exec := (exec parent_and_child)\<lparr>task_queue := [(1, ()), (2, ()), (3, ())], last_id := 3\<rparr>,
     tasks := (tasks parent_and_child)(3 \<mapsto> demo_task 2 (Some 1)),
     pcbs := (pcbs parent_and_child)(2 \<mapsto> (pcb_new 0 0)\<lparr>threads := [2, 3]\<rparr>)\<rparr>"


section \<open>The tree of processes\<close>

definition tree_wf :: "KState \<Rightarrow> bool" where
  "tree_wf ks \<longleftrightarrow>
     (\<forall>t x. tasks ks t = Some x \<longrightarrow> t \<le> last_id (exec ks) \<and> pcbs ks (process_id x) \<noteq> None) \<and>
     (\<forall>p b. pcbs ks p = Some b \<longrightarrow> p \<le> last_id (exec ks) \<and> distinct (children b) \<and>
        (\<forall>c \<in> set (children b). c \<noteq> p \<and> map_option process_id (tasks ks c) = Some c)) \<and>
     (\<forall>p q b b' c. pcbs ks p = Some b \<longrightarrow> pcbs ks q = Some b' \<longrightarrow> c \<in> set (children b) \<longrightarrow> c \<in> set (children b') \<longrightarrow> p = q)"

lemma tree_wfD:
  assumes "tree_wf ks"
  shows "tasks ks t = Some x \<Longrightarrow> t \<le> last_id (exec ks) \<and> pcbs ks (process_id x) \<noteq> None"
    "pcbs ks p = Some b \<Longrightarrow> p \<le> last_id (exec ks) \<and> distinct (children b)"
    "pcbs ks p = Some b \<Longrightarrow> c \<in> set (children b) \<Longrightarrow> c \<noteq> p \<and> map_option process_id (tasks ks c) = Some c"
    "pcbs ks p = Some b \<Longrightarrow> pcbs ks q = Some b' \<Longrightarrow> c \<in> set (children b) \<Longrightarrow> c \<in> set (children b') \<Longrightarrow> p = q"
proof -
  note wf = assms [unfolded tree_wf_def, THEN conjunct1] assms [unfolded tree_wf_def, THEN conjunct2, THEN conjunct1]
    assms [unfolded tree_wf_def, THEN conjunct2, THEN conjunct2]
  show "tasks ks t = Some x \<Longrightarrow> t \<le> last_id (exec ks) \<and> pcbs ks (process_id x) \<noteq> None" using wf(1) by blast
  show "pcbs ks p = Some b \<Longrightarrow> p \<le> last_id (exec ks) \<and> distinct (children b)"
    "pcbs ks p = Some b \<Longrightarrow> c \<in> set (children b) \<Longrightarrow> c \<noteq> p \<and> map_option process_id (tasks ks c) = Some c"
    using wf(2) by blast+
  show "pcbs ks p = Some b \<Longrightarrow> pcbs ks q = Some b' \<Longrightarrow> c \<in> set (children b) \<Longrightarrow> c \<in> set (children b') \<Longrightarrow> p = q"
    using wf(3) by blast
qed

lemma tree_wfI:
  assumes "\<And>t x. tasks ks t = Some x \<Longrightarrow> t \<le> last_id (exec ks) \<and> pcbs ks (process_id x) \<noteq> None"
    "\<And>p b. pcbs ks p = Some b \<Longrightarrow> p \<le> last_id (exec ks) \<and> distinct (children b)"
    "\<And>p b c. pcbs ks p = Some b \<Longrightarrow> c \<in> set (children b) \<Longrightarrow> c \<noteq> p \<and> map_option process_id (tasks ks c) = Some c"
    "\<And>p b q b' c. pcbs ks p = Some b \<Longrightarrow> pcbs ks q = Some b' \<Longrightarrow> c \<in> set (children b) \<Longrightarrow> c \<in> set (children b') \<Longrightarrow> p = q"
  shows "tree_wf ks"
  unfolding tree_wf_def by (intro conjI allI impI ballI) (fact assms | use assms in blast)+

text \<open>A state with the same tasks in which processes have lost children and gained none.\<close>

definition fewer :: "ProcessControlBlock \<Rightarrow> ProcessControlBlock \<Rightarrow> bool" where
  "fewer b b' \<longleftrightarrow> (\<exists>P. children b' = filter P (children b))"

lemma fewer_same: "children b' = children b \<Longrightarrow> fewer b b'"
  unfolding fewer_def by (rule exI [of _ "\<lambda>_. True"]) simp

lemma fewer_trans: "fewer a b \<Longrightarrow> fewer b c \<Longrightarrow> fewer a c"
  unfolding fewer_def by (metis filter_filter)

definition shrinks :: "KState \<Rightarrow> KState \<Rightarrow> bool" where
  "shrinks ks ks' \<longleftrightarrow> last_id (exec ks') = last_id (exec ks) \<and>
     (\<forall>t. map_option process_id (tasks ks' t) = map_option process_id (tasks ks t)) \<and>
     (\<forall>p. rel_option fewer (pcbs ks p) (pcbs ks' p))"

lemma shrinks_tree_wf:
  assumes "shrinks ks ks'" "tree_wf ks"
  shows "tree_wf ks'"
proof -
  have m: "map_option process_id (tasks ks' c) = map_option process_id (tasks ks c)" for c
    using assms(1) by (simp add: shrinks_def)
  have r: "rel_option fewer (pcbs ks p) (pcbs ks' p)" for p using assms(1) by (simp add: shrinks_def)
  have t: "\<exists>x0. tasks ks t = Some x0 \<and> process_id x = process_id x0" if "tasks ks' t = Some x" for t x
    using m [of t] that by (cases "tasks ks t") auto
  have b: "\<exists>b0 P. pcbs ks p = Some b0 \<and> children b = filter P (children b0)" if "pcbs ks' p = Some b" for p b
    using r [of p] that by (cases "pcbs ks p") (auto simp: fewer_def)
  have n: "pcbs ks' p \<noteq> None" if "pcbs ks p \<noteq> None" for p
    using r [of p] that by (cases "pcbs ks' p") auto
  have l: "last_id (exec ks') = last_id (exec ks)" using assms(1) by (simp add: shrinks_def)
  show ?thesis
  proof (rule tree_wfI)
    fix t x assume "tasks ks' t = Some x"
    from t [OF this] n show "t \<le> last_id (exec ks') \<and> pcbs ks' (process_id x) \<noteq> None"
      using tree_wfD(1) [OF assms(2), of t] l by auto
  next
    fix p c assume "pcbs ks' p = Some c"
    from b [OF this] obtain c0 P where c0: "pcbs ks p = Some c0" "children c = filter P (children c0)" by blast
    then show "p \<le> last_id (exec ks') \<and> distinct (children c)" using tree_wfD(2) [OF assms(2) c0(1)] l by simp
    fix d assume "d \<in> set (children c)"
    then show "d \<noteq> p \<and> map_option process_id (tasks ks' d) = Some d"
      using tree_wfD(3) [OF assms(2) c0(1), of d] c0(2) m by simp
  next
    fix p q c d e assume a: "pcbs ks' p = Some c" "pcbs ks' q = Some d" "e \<in> set (children c)" "e \<in> set (children d)"
    from b [OF a(1)] b [OF a(2)] obtain c0 P d0 Q where
      c0: "pcbs ks p = Some c0" "children c = filter P (children c0)" "pcbs ks q = Some d0" "children d = filter Q (children d0)" by blast
    show "p = q" by (rule tree_wfD(4) [OF assms(2) c0(1,3), of e]) (use a c0 in auto)
  qed
qed

lemma rel_option_fewer [simp]: "rel_option fewer x x"
  by (cases x) (simp_all add: fewer_same)

lemma shrinks_refl [simp]: "shrinks ks ks"
  by (simp add: shrinks_def)

lemma shrinks_trans: "shrinks a b \<Longrightarrow> shrinks b c \<Longrightarrow> shrinks a c"
proof -
  assume ab: "shrinks a b" and bc: "shrinks b c"
  have "rel_option fewer (pcbs a p) (pcbs c p)" for p
  proof -
    have "rel_option fewer (pcbs a p) (pcbs b p)" "rel_option fewer (pcbs b p) (pcbs c p)"
      using ab bc by (auto simp: shrinks_def)
    then show ?thesis by (cases "pcbs a p"; cases "pcbs b p"; cases "pcbs c p") (auto intro: fewer_trans)
  qed
  then show ?thesis using ab bc by (simp add: shrinks_def)
qed

lemma shrinks_upd_tcb: "shrinks ks (upd_tcb t g ks)"
  using shrinks_refl [of ks] by (auto simp: shrinks_def option.map_comp comp_def)

lemma shrinks_upd_pcb:
  assumes "\<And>b. fewer b (f b)"
  shows "shrinks ks (upd_pcb p f ks)"
  using shrinks_refl [of ks] assms by (cases "pcbs ks p") (auto simp: shrinks_def)

lemma shrinks_eq: "exec ks' = exec ks \<Longrightarrow> tasks ks' = tasks ks \<Longrightarrow> pcbs ks' = pcbs ks \<Longrightarrow> shrinks ks ks'"
  using shrinks_refl [of ks] by (simp add: shrinks_def)

lemma shrinks_clear_tid: "shrinks ks (clear_tid ks t self)"
proof -
  obtain f where f: "pcbs (clear_tid ks t self) =
      (pcbs ks)(process_id self := map_option (\<lambda>b. b\<lparr>futex_table := f (futex_table b)\<rparr>) (pcbs ks (process_id self)))"
    using clear_tid_effect(5) [of ks t self] by blast
  have "shrinks ks (upd_pcb (process_id self) (\<lambda>b. b\<lparr>futex_table := f (futex_table b)\<rparr>) ks)"
    by (rule shrinks_upd_pcb) (simp add: fewer_same)
  then show ?thesis using f clear_tid_effect(1,3) [of ks t self] by (simp add: shrinks_def same_tasks_def)
qed

lemma shrinks_cleanup: "cleanup_process ks self code = Ok ks' \<Longrightarrow> shrinks ks ks'"
proof -
  assume c: "cleanup_process ks self code = Ok ks'"
  then obtain b where b: "pcbs ks (process_id self) = Some b" by (cases "pcbs ks (process_id self)") (auto simp: cleanup_process_def)
  let ?k = "upd_pcb (process_id self) (\<lambda>b. b\<lparr>pcb_memset := []\<rparr>) ks"
  obtain k1 where k1: "release_frames ?k (held (pcb_memset b)) = Ok k1"
    using c b by (cases "release_frames ?k (held (pcb_memset b))") (auto simp: cleanup_process_def)
  have ks': "ks' = notify_parent (upd_pcb (process_id self) (\<lambda>b. b\<lparr>pcb_fds := [], children := [], exit_code := Some code\<rparr>) k1) self"
    using c b k1 by (simp add: cleanup_process_def)
  have 1: "shrinks ks (upd_pcb (process_id self) (\<lambda>b. b\<lparr>pcb_memset := []\<rparr>) ks)" by (rule shrinks_upd_pcb) (simp add: fewer_same)
  have 2: "shrinks (upd_pcb (process_id self) (\<lambda>b. b\<lparr>pcb_memset := []\<rparr>) ks) k1"
    using k1 by (intro shrinks_eq) (auto simp: release_frames_def Let_def res_simps)
  let ?k2 = "upd_pcb (process_id self) (\<lambda>b. b\<lparr>pcb_fds := [], children := [], exit_code := Some code\<rparr>) k1"
  have 3: "shrinks k1 ?k2" by (rule shrinks_upd_pcb) (auto simp: fewer_def intro: exI [of _ "\<lambda>_. False"])
  have 4: "shrinks ?k2 ks'" unfolding ks' notify_parent_def by (auto intro: shrinks_upd_tcb split: option.split)
  show ?thesis using 1 2 3 4 by (meson shrinks_trans)
qed

lemma shrinks_task_exit: "task_exit ks t code = Ok ks' \<Longrightarrow> shrinks ks ks'"
proof -
  assume e: "task_exit ks t code = Ok ks'"
  then obtain self where self: "tasks ks t = Some self" by (auto simp: task_exit_def split: option.splits)
  define k2 where "k2 = upd_pcb (process_id self)
    (\<lambda>b. b\<lparr>exit_code := Some code, threads := leave_threads (clear_tid ks t self) t (threads b)\<rparr>) (clear_tid ks t self)"
  have "shrinks (clear_tid ks t self) k2" unfolding k2_def by (rule shrinks_upd_pcb) (simp add: fewer_same)
  then have "shrinks ks k2" using shrinks_clear_tid shrinks_trans by blast
  moreover have "(case pcbs k2 (process_id self) of None \<Rightarrow> Panic
      | Some b \<Rightarrow> if t = process_id self \<and> length (threads b) = 0 then cleanup_process k2 self code else Ok k2) = Ok ks'"
    using e self by (simp only: task_exit_def option.case Let_def k2_def)
  then have "shrinks k2 ks'" by (auto intro: shrinks_cleanup split: option.splits if_splits)
  ultimately show ?thesis by (rule shrinks_trans)
qed

lemma shrinks_thread_exit: "thread_exit ks t code = Ok ks' \<Longrightarrow> shrinks ks ks'"
proof -
  assume e: "thread_exit ks t code = Ok ks'"
  then obtain self where self: "tasks ks t = Some self" by (auto simp: thread_exit_def split: option.splits)
  define k2 where "k2 = upd_tcb t (\<lambda>c. c\<lparr>thread_exit_code := Some (of_nat code)\<rparr>) (clear_tid ks t self)"
  define k3 where "k3 = upd_pcb (process_id self) (\<lambda>b. b\<lparr>threads := leave_threads k2 t (threads b)\<rparr>) k2"
  have "shrinks (clear_tid ks t self) k2" unfolding k2_def by (rule shrinks_upd_tcb)
  moreover have "shrinks k2 k3" unfolding k3_def by (rule shrinks_upd_pcb) (simp add: fewer_same)
  ultimately have "shrinks ks k3" using shrinks_clear_tid shrinks_trans by blast
  moreover have "(case pcbs k3 (process_id self) of None \<Rightarrow> Panic
      | Some b \<Rightarrow> if t = process_id self \<and> length (threads b) = 0 then cleanup_process k3 self code else Ok k3) = Ok ks'"
    using e self by (simp only: thread_exit_def option.case Let_def k2_def k3_def)
  then have "shrinks k3 ks'" by (auto intro: shrinks_cleanup split: option.splits if_splits)
  ultimately show ?thesis by (rule shrinks_trans)
qed

lemma fewer_filter: "fewer b (b\<lparr>children := filter P (children b)\<rparr>)"
  by (auto simp: fewer_def)

lemma shrinks_exec: "last_id e = last_id (exec ks) \<Longrightarrow> shrinks ks (ks\<lparr>exec := e\<rparr>)"
  using shrinks_refl [of ks] by (simp add: shrinks_def)

lemma shrinks_reap: "reap ks t c valid = (ks', st, r) \<Longrightarrow> shrinks ks ks'"
proof -
  assume r: "reap ks t c valid = (ks', st, r)"
  have "shrinks ks (upd_pcb p (\<lambda>b. b\<lparr>children := filter (\<lambda>x. x \<noteq> c) (children b)\<rparr>) ks)" for p
    by (rule shrinks_upd_pcb) (rule fewer_filter)
  moreover have "shrinks k (k\<lparr>exec := release_task (exec k) c\<rparr>)" for k by (rule shrinks_exec) (simp add: release_task_def)
  then have "shrinks ks ((upd_pcb p (\<lambda>b. b\<lparr>children := filter (\<lambda>x. x \<noteq> c) (children b)\<rparr>) ks)\<lparr>exec := release_task (exec ks) c\<rparr>)" for p
    using shrinks_trans [OF calculation [of p]] by (metis upd_pcb_simps(3))
  ultimately show ?thesis using r
    by (auto simp: reap_def Let_def task_release_def split: option.splits if_splits res.splits)
qed

lemma shrinks_wait4: "sys_wait4 ks t pid valid options = (ks', st, r) \<Longrightarrow> shrinks ks ks'"
  by (auto simp: sys_wait4_def wait4_resume_def intro: shrinks_reap
      split: if_splits option.splits Poll.splits prod.splits)

lemma shrinks_resume: "wait4_resume ks t pid valid = (ks', st, r) \<Longrightarrow> shrinks ks ks'"
  by (auto simp: wait4_resume_def intro: shrinks_reap split: Poll.splits prod.splits)

lemma shrinks_setsid: "shrinks ks (fst (sys_setsid ks t))"
proof -
  have "shrinks ks (upd_pcb p (\<lambda>b. b\<lparr>children := filter (\<lambda>x. x \<noteq> t) (children b)\<rparr>) ks)" for p
    by (rule shrinks_upd_pcb) (rule fewer_filter)
  then show ?thesis
    by (auto simp: sys_setsid_def Let_def shrinks_def split: option.splits)
qed

lemma shrinks_exit_with_signal: "exit_with_signal ks t sg = Ok ks' \<Longrightarrow> shrinks ks ks'"
proof -
  assume e: "exit_with_signal ks t sg = Ok ks'"
  have "shrinks ks (upd_pcb p (\<lambda>b. b\<lparr>exit_signal := Some sg, exit_code := Some 0, core_dumped := d\<rparr>) ks)" for p d
    by (rule shrinks_upd_pcb) (simp add: fewer_same)
  then show ?thesis using e shrinks_task_exit shrinks_trans
    by (auto simp: exit_with_signal_def split: option.splits) blast
qed

text \<open>What \<^verbatim>\<open>clone\<close> adds to the tree: a thread of the caller's process, or a process that is its child.\<close>

lemma thread_clone_tree:
  assumes "thread_clone ks t = Ok (ks', new)" "tree_wf ks" "last_id (exec ks) + 1 < USIZE"
  shows "tree_wf ks'"
proof -
  from assms(1) obtain self where self: "tasks ks t = Some self" by (auto simp: thread_clone_def split: option.splits)
  have id: "task_id_alloc (exec ks) = ((exec ks)\<lparr>last_id := last_id (exec ks) + 1\<rparr>, last_id (exec ks) + 1)"
    using assms(3) by (simp add: task_id_alloc_def uadd_le)
  define x where "x = \<lparr>process_id = process_id self, parent = parent self,
    tcb = tcb_new ((cx (tcb self))(RET := 0)) (sigmask (sig (tcb self)))\<rparr>"
  define f where "f b = filter (alive ks) (threads b) @ [new]" for b :: ProcessControlBlock
  have k: "new = last_id (exec ks) + 1" "process_id x = process_id self"
    "tasks ks' = (tasks ks)(new \<mapsto> x)" "last_id (exec ks') = last_id (exec ks) + 1"
    "pcbs ks' = (pcbs ks)(process_id self := map_option (\<lambda>b. b\<lparr>threads := f b\<rparr>) (pcbs ks (process_id self)))"
    using assms(1) self by (auto simp: thread_clone_def id Let_def x_def f_def)
  have fresh: "tasks ks (last_id (exec ks) + 1) = None"
    using tree_wfD(1) [OF assms(2), of "last_id (exec ks) + 1"] by (cases "tasks ks (last_id (exec ks) + 1)") auto
  define k0 where "k0 = ks'\<lparr>tasks := tasks ks, exec := exec ks\<rparr>"
  have "shrinks ks (upd_pcb (process_id self) (\<lambda>b. b\<lparr>threads := f b\<rparr>) ks)"
    by (rule shrinks_upd_pcb) (simp add: fewer_same)
  then have "shrinks ks k0" by (simp add: shrinks_def k0_def k(5))
  then have wf: "tree_wf k0" using shrinks_tree_wf assms(2) by blast
  have self': "pcbs ks' (process_id self) \<noteq> None" using tree_wfD(1) [OF assms(2) self] k(5) by auto
  show ?thesis
  proof (rule tree_wfI)
    fix u y assume "tasks ks' u = Some y"
    then show "u \<le> last_id (exec ks') \<and> pcbs ks' (process_id y) \<noteq> None"
      using tree_wfD(1) [OF wf, of u y] self' k(1-4) by (auto simp: k0_def split: if_splits)
  next
    fix p c assume c: "pcbs ks' p = Some c"
    then show "p \<le> last_id (exec ks') \<and> distinct (children c)" using tree_wfD(2) [OF wf, of p c] k(4) by (simp add: k0_def)
    fix d assume "d \<in> set (children c)"
    then show "d \<noteq> p \<and> map_option process_id (tasks ks' d) = Some d"
      using tree_wfD(3) [OF wf, of p c d] c k(1,3) fresh by (auto simp: k0_def)
  next
    fix p q c d e assume "pcbs ks' p = Some c" "pcbs ks' q = Some d" "e \<in> set (children c)" "e \<in> set (children d)"
    then show "p = q" using tree_wfD(4) [OF wf, of p c q d e] by (simp add: k0_def)
  qed
qed

lemma cow_fork_effect:
  assumes "cow_fork ks t home tty cx0 = Ok (ks', new)" "last_id (exec ks) + 1 < USIZE"
  obtains self x nb where "tasks ks t = Some self" "pcbs ks (process_id self) \<noteq> None" "new = last_id (exec ks) + 1"
    "process_id x = new" "tasks ks' = (tasks ks)(new \<mapsto> x)" "last_id (exec ks') = last_id (exec ks) + 1" "children nb = []"
    "process_id self = new \<or>
       pcbs ks' = ((pcbs ks)(new \<mapsto> nb))(process_id self := map_option (\<lambda>b. b\<lparr>children := children b @ [new]\<rparr>) (pcbs ks (process_id self)))"
proof -
  from assms(1) obtain self pcb where self: "tasks ks t = Some self" "pcbs ks (process_id self) = Some pcb"
    by (auto simp: cow_fork_def split: option.splits)
  have id: "task_id_alloc (exec ks) = ((exec ks)\<lparr>last_id := last_id (exec ks) + 1\<rparr>, last_id (exec ks) + 1)"
    using assms(2) by (simp add: task_id_alloc_def uadd_le)
  obtain h where h: "home = Some h" using assms(1) self by (cases home) (auto simp: cow_fork_def task_new_def id)
  obtain cpt ppt cpt' where "fork_areas (pcb_memset pcb) (Map.empty, ptabs ks (process_id self)) = Ok (cpt, ppt)"
    "map_all URWX (shm_pages ks (pcb_shms pcb)) cpt = Ok cpt'"
    using assms(1) self h by (auto simp: cow_fork_def task_new_def id rbind_eq_Ok)
  with assms(1) self h show ?thesis
    by (intro that [of self]) (auto simp: cow_fork_def task_new_def id Let_def pcb_new_def tcb_new_def)
qed

lemma cow_fork_tree:
  assumes "cow_fork ks t home tty cx0 = Ok (ks', new)" "tree_wf ks" "last_id (exec ks) + 1 < USIZE"
  shows "tree_wf ks'"
proof -
  obtain self x nb where k: "tasks ks t = Some self" "pcbs ks (process_id self) \<noteq> None" "new = last_id (exec ks) + 1"
    "process_id x = new" "tasks ks' = (tasks ks)(new \<mapsto> x)" "last_id (exec ks') = last_id (exec ks) + 1" "children nb = []"
    "process_id self = new \<or>
       pcbs ks' = ((pcbs ks)(new \<mapsto> nb))(process_id self := map_option (\<lambda>b. b\<lparr>children := children b @ [new]\<rparr>) (pcbs ks (process_id self)))"
    by (rule cow_fork_effect [OF assms(1,3)])
  obtain b where b: "pcbs ks (process_id self) = Some b" using k(2) by blast
  have ne: "process_id self \<noteq> new" using tree_wfD(2) [OF assms(2) b] k(3) by simp
  have fresh: "pcbs ks new = None" "tasks ks new = None"
    using tree_wfD(1,2) [OF assms(2), of new] k(3) by (cases "pcbs ks new"; cases "tasks ks new"; auto)+
  have no: "new \<notin> set (children c)" if "pcbs ks p = Some c" for p c
    using tree_wfD(3) [OF assms(2) that, of new] fresh(2) by auto
  have p': "pcbs ks' = ((pcbs ks)(new \<mapsto> nb))(process_id self \<mapsto> b\<lparr>children := children b @ [new]\<rparr>)" using k(8) ne b by simp
  have pc: "c = nb \<and> p = new \<or> (\<exists>c0. pcbs ks p = Some c0 \<and> p \<noteq> new \<and> (c = c0 \<and> p \<noteq> process_id self \<or>
      p = process_id self \<and> c = c0\<lparr>children := children c0 @ [new]\<rparr>))" if "pcbs ks' p = Some c" for p c
    using that ne b unfolding p' by (auto split: if_splits)
  show ?thesis
  proof (rule tree_wfI)
    fix u y assume "tasks ks' u = Some y"
    then show "u \<le> last_id (exec ks') \<and> pcbs ks' (process_id y) \<noteq> None"
      using tree_wfD(1) [OF assms(2), of u y] k(3-6) unfolding p' by (auto split: if_splits)
  next
    fix p c assume c: "pcbs ks' p = Some c"
    show "p \<le> last_id (exec ks') \<and> distinct (children c)"
      using pc [OF c] tree_wfD(2) [OF assms(2), of p] no [of p] k(3,6,7) by fastforce
    fix d assume d: "d \<in> set (children c)"
    show "d \<noteq> p \<and> map_option process_id (tasks ks' d) = Some d"
      using pc [OF c] tree_wfD(3) [OF assms(2), of p _ d] no [of p] d k(4,5,7) by auto
  next
    fix p q c d e assume a: "pcbs ks' p = Some c" "pcbs ks' q = Some d" "e \<in> set (children c)" "e \<in> set (children d)"
    show "p = q"
      using pc [OF a(1)] pc [OF a(2)] tree_wfD(4) [OF assms(2), of p _ q _ e] no [of p] no [of q] a(3,4) k(7) by (auto; blast)
  qed
qed

text \<open>The process system calls of any task, in any order; numbers of tasks do not run out.\<close>

inductive proc_step :: "KState \<Rightarrow> KState \<Rightarrow> bool" where
  clone_step: "last_id (exec ks) + 1 < USIZE \<Longrightarrow>
     sys_clone ks t flgs stack ptid tls ctid home tty cx0 = Ok (ks', writes, new) \<Longrightarrow> proc_step ks ks'"
| exit_step: "sys_exit ks t code = Ok ks' \<Longrightarrow> proc_step ks ks'"
| exit_group_step: "sys_exit_group ks t c = Ok ks' \<Longrightarrow> proc_step ks ks'"
| kill_step: "exit_with_signal ks t sg = Ok ks' \<Longrightarrow> proc_step ks ks'"
| wait_step: "sys_wait4 ks t pid valid options = (ks', st, r) \<Longrightarrow> proc_step ks ks'"
| resume_step: "wait4_resume ks t pid valid = (ks', st, r) \<Longrightarrow> proc_step ks ks'"
| setsid_step: "proc_step ks (fst (sys_setsid ks t))"

lemma sys_clone_tree:
  assumes "sys_clone ks t flgs stack ptid tls ctid home tty cx0 = Ok (ks', writes, new)" "tree_wf ks" "last_id (exec ks) + 1 < USIZE"
  shows "tree_wf ks'"
proof -
  from assms(1) obtain k1 where k1: "(if flgs AND CLONE_THREAD \<noteq> 0 then thread_clone ks t else cow_fork ks t home tty cx0) = Ok (k1, new)"
    by (auto simp: sys_clone_def rbind_eq_Ok split: prod.splits)
  have ks': "\<exists>g e. ks' = (upd_tcb new g k1)\<lparr>exec := e\<rparr> \<and> last_id e = last_id (exec k1)"
  proof -
    have "\<exists>g. ks' = (upd_tcb new g k1)\<lparr>exec := spawn (exec (upd_tcb new g k1)) new ()\<rparr>"
      using assms(1) unfolding sys_clone_def k1 rbind.simps prod.case Let_def by blast
    then obtain g where g: "ks' = (upd_tcb new g k1)\<lparr>exec := spawn (exec (upd_tcb new g k1)) new ()\<rparr>" ..
    have "last_id (spawn (exec (upd_tcb new g k1)) new ()) = last_id (exec k1)" by (simp add: spawn_def)
    with g show ?thesis by blast
  qed
  from k1 have "tree_wf k1" using thread_clone_tree cow_fork_tree assms(2,3) by (cases "flgs AND CLONE_THREAD \<noteq> 0") auto
  moreover obtain g e where e: "ks' = (upd_tcb new g k1)\<lparr>exec := e\<rparr>" "last_id e = last_id (exec k1)" using ks' by blast
  have "shrinks k1 ks'" unfolding e(1) by (rule shrinks_trans [OF shrinks_upd_tcb shrinks_exec]) (simp add: e(2))
  ultimately show ?thesis using shrinks_tree_wf by blast
qed

lemma proc_step_tree: "proc_step ks ks' \<Longrightarrow> tree_wf ks \<Longrightarrow> tree_wf ks'"
proof (induction rule: proc_step.induct)
  case clone_step
  then show ?case using sys_clone_tree by blast
qed (auto simp: sys_exit_def sys_exit_group_def intro: shrinks_tree_wf shrinks_thread_exit shrinks_task_exit
      shrinks_exit_with_signal shrinks_wait4 shrinks_resume shrinks_setsid)

text \<open>The first process, before any system call.\<close>

definition boot_state :: "nat \<Rightarrow> nat \<Rightarrow> FrameAllocator \<Rightarrow> KState" where
  "boot_state tty home fa0 = \<lparr>exec = spawn ((exec_init exec_new 1)\<lparr>last_id := 1\<rparr>) 1 (),
     tasks = [1 \<mapsto> \<lparr>process_id = 1, parent = None, tcb = tcb_new (\<lambda>_. 0) 0\<rparr>],
     pcbs = [1 \<mapsto> (pcb_new tty home)\<lparr>threads := [1]\<rparr>], ptabs = (\<lambda>_. Map.empty), frames = fa0,
     phys = (\<lambda>_. zero_page), shared_mem = [], cached = []\<rparr>"

lemma boot_tree: "tree_wf (boot_state tty home fa0)"
  by (auto simp: tree_wf_def boot_state_def spawn_def exec_init_def pcb_new_def split: if_splits)

text \<open>
  C4: the processes form a forest in every state that system calls can reach from the
  first process: each child in a list of children is the first thread of another process that
  exists, it is listed once, and no two processes list the same child, so none can be
  reaped twice.
\<close>

theorem process_tree_invariant:
  assumes "proc_step\<^sup>*\<^sup>* (boot_state tty home fa0) ks" "pcbs ks p = Some b"
  shows "distinct (children b) \<and>
    (\<forall>c \<in> set (children b). c \<noteq> p \<and> (\<exists>x. tasks ks c = Some x \<and> process_id x = c) \<and>
       (\<forall>q b'. pcbs ks q = Some b' \<and> c \<in> set (children b') \<longrightarrow> q = p))"
proof -
  have "tree_wf ks" using assms(1)
  proof (induction rule: rtranclp_induct)
    case base
    show ?case by (rule boot_tree)
  qed (rule proc_step_tree)
  note wf = tree_wfD [OF this]
  show ?thesis using wf(2) [OF assms(2)] wf(3,4) [OF assms(2)] by auto
qed

theorem process_tree_invariant_witness:
  "\<exists>ks w b. sys_clone (boot_state 0 0 []) 1 0x11 0 0 0 0 (Some 0) 0 (\<lambda>_. 0) = Ok (ks, w, 2) \<and>
     pcbs ks 1 = Some b \<and> children b = [2] \<and> distinct (children b)"
proof -
  obtain ks w where c: "sys_clone (boot_state 0 0 []) 1 0x11 0 0 0 0 (Some 0) 0 (\<lambda>_. 0) = Ok (ks, w, 2)"
    and b: "map_option children (pcbs ks 1) = Some [2]"
    by (simp add: sys_clone_def cow_fork_def boot_state_def spawn_def exec_init_def exec_new_def task_new_def task_id_alloc_def
        uadd_def USIZE_def shm_pages_def pcb_new_def CLONE_THREAD_def)
  then obtain b where b: "pcbs ks 1 = Some b" "children b = [2]" by auto
  have "proc_step (boot_state 0 0 []) ks"
    by (rule clone_step [OF _ c]) (simp add: boot_state_def spawn_def exec_init_def USIZE_def)
  then have "proc_step\<^sup>*\<^sup>* (boot_state 0 0 []) ks" by blast
  from process_tree_invariant [OF this b(1)] b c show ?thesis by auto
qed

end
