(* ===== verification/Page_Fault.thy ===== *)
theory Page_Fault
  imports Process
begin

text \<open>
  The page fault handler \<^verbatim>\<open>user_cow_int\<close> of \<^verbatim>\<open>kernel/src/user/mod.rs\<close>: copy on write, demand
  paging and the growth of the stack, heap and thread areas; with it the isolation of
  processes after \<^verbatim>\<open>cow_fork\<close>.
\<close>

section \<open>The handler\<close>

definition page_floor :: "usize \<Rightarrow> usize" where
  "page_floor va = va - va mod PAGE_SIZE"

definition send_signal :: "u64 \<Rightarrow> nat \<Rightarrow> KState \<Rightarrow> KState" where
  "send_signal sg t ks = upd_tcb t (\<lambda>c. c\<lparr>sig := (sig c)\<lparr>signal := add_signal (signal (sig c)) sg\<rparr>\<rparr>) ks"

text \<open>
  The files behind areas: \<open>fread\<close> is \<^verbatim>\<open>readat\<close> of the file's inode, at an offset into a
  buffer of a size, and \<open>fsize\<close> the size its \<^verbatim>\<open>stat\<close> reports.
\<close>

type_synonym fread = "nat \<Rightarrow> usize \<Rightarrow> nat \<Rightarrow> u8 list res"
type_synonym fsize = "nat \<Rightarrow> nat res"

definition set_phys :: "usize \<Rightarrow> u8 list \<Rightarrow> KState \<Rightarrow> KState" where
  "set_phys f d ks = ks\<lparr>phys := (phys ks)(f := d)\<rparr>"

definition set_area :: "nat \<Rightarrow> nat \<Rightarrow> MapTrack list \<Rightarrow> KState \<Rightarrow> KState" where
  "set_area p i ts ks = upd_pcb p (\<lambda>b. b\<lparr>pcb_memset := (pcb_memset b)[i := (pcb_memset b ! i)\<lparr>mtrackers := ts\<rparr>]\<rparr>) ks"

definition fault_flags :: "MemArea \<Rightarrow> usize \<Rightarrow> MappingFlags" where
  "fault_flags a va = (if mtype a = Mmap \<and> va \<ge> 0x200000000 then URW else URWX)"

definition install_page :: "nat \<Rightarrow> usize \<Rightarrow> usize \<Rightarrow> MappingFlags \<Rightarrow> KState \<Rightarrow> KState res" where
  "install_page p f v fl ks = rmap (\<lambda>pt'. ks\<lparr>ptabs := (ptabs ks)(p := pt')\<rparr>) (map_page (ptabs ks p) f v fl)"

text \<open>A page the area already has: private copy when the frame is shared.\<close>

definition cow_copy :: "KState \<Rightarrow> nat \<Rightarrow> nat \<Rightarrow> nat \<Rightarrow> MemArea \<Rightarrow> nat \<Rightarrow> usize \<Rightarrow> KState res" where
  "cow_copy ks t p i a j va =
     (let old = mtrackers a ! j in
      if mtype a = Shared then Ok (send_signal SIGSEGV t ks)
      else if frame_refs ks (tracker old) > 1 then
        (case frame_alloc (frames ks) of
           (fa', None) \<Rightarrow> Ok (send_signal SIGSEGV t (ks\<lparr>frames := fa'\<rparr>))
         | (fa', Some dst) \<Rightarrow>
             install_page p dst (page_floor va) (fault_flags a va)
               (set_area p i ((mtrackers a)[j := old\<lparr>tracker := dst\<rparr>])
                 (set_phys dst (phys ks (tracker old)) (ks\<lparr>frames := fa'\<rparr>))))
      else install_page p (tracker old) (page_floor va) (fault_flags a va) ks)"

text \<open>The first touch of a page of an area: a new frame, filled from the file if there is one.\<close>

definition demand_page :: "fread \<Rightarrow> KState \<Rightarrow> nat \<Rightarrow> nat \<Rightarrow> nat \<Rightarrow> MemArea \<Rightarrow> usize \<Rightarrow> KState res" where
  "demand_page rd ks t p i a va =
     (if get_free_page_count (frames ks) < 10 then Ok (send_signal SIGSEGV t ks)
      else
        (case frame_alloc (frames ks) of
           (fa', None) \<Rightarrow> Ok (send_signal SIGSEGV t (ks\<lparr>frames := fa'\<rparr>))
         | (fa', Some f) \<Rightarrow>
             (let off = uadd (offset a) (usub (page_floor va) (start a));
                  d = (case area_file a of
                         Some g \<Rightarrow> (case rd g off PAGE_SIZE of Ok bs \<Rightarrow> overwrite (phys ks f) 0 bs | _ \<Rightarrow> phys ks f)
                       | None \<Rightarrow> phys ks f)
              in install_page p f (page_floor va) (fault_flags a va)
                   (set_area p i (mtrackers a @ [\<lparr>vaddr = page_floor va, tracker = f, rwx = 7\<rparr>])
                     (set_phys f d (ks\<lparr>frames := fa'\<rparr>))))))"

definition fault_in_area :: "fread \<Rightarrow> KState \<Rightarrow> nat \<Rightarrow> nat \<Rightarrow> nat \<Rightarrow> MemArea \<Rightarrow> usize \<Rightarrow> KState res" where
  "fault_in_area rd ks t p i a va =
     (case position (\<lambda>x. vaddr x = page_floor va) (mtrackers a) of
        Some j \<Rightarrow> cow_copy ks t p i a j va
      | None \<Rightarrow> demand_page rd ks t p i a va)"

text \<open>\<^verbatim>\<open>UserTask::frame_alloc\<close> on the memory of a process, with the permissions of the new pages.\<close>

definition alloc_flags :: "MemType \<Rightarrow> MappingFlags" where
  "alloc_flags mt = (if mt = ShareFile then URW else URWX)"

definition mem_view :: "KState \<Rightarrow> nat \<Rightarrow> ProcessControlBlock \<Rightarrow> MemState" where
  "mem_view ks p b = \<lparr>fa = frames ks, pt = (\<lambda>v. map_option fst (ptabs ks p v)), memset = pcb_memset b, heap = pcb_heap b,
     shms = map (\<lambda>s. (shm_start s, shm_size s)) (pcb_shms b)\<rparr>"

definition grow :: "KState \<Rightarrow> nat \<Rightarrow> usize \<Rightarrow> MemType \<Rightarrow> nat \<Rightarrow> (KState \<times> usize option) res" where
  "grow ks p va mt n =
     (case pcbs ks p of
        None \<Rightarrow> Panic
      | Some b \<Rightarrow>
          rbind (task_frame_alloc (mem_view ks p b) va mt n) (\<lambda>(ms, r).
            let new = map (\<lambda>i. va + i * PAGE_SIZE) [0..<n];
                pt' = (if r = None \<or> va = 0 then ptabs ks p
                       else (\<lambda>v. if v \<in> set new then map_option (\<lambda>f. (f, alloc_flags mt)) (pt ms v) else ptabs ks p v))
            in Ok ((upd_pcb p (\<lambda>b. b\<lparr>pcb_memset := memset ms\<rparr>) ks)\<lparr>frames := fa ms, ptabs := (ptabs ks)(p := pt')\<rparr>, r)))"

text \<open>\<^verbatim>\<open>get_elf_segment_for_addr\<close>: a gap after an area with a file, else an area with a file.\<close>

fun find_gap :: "MemArea list \<Rightarrow> usize \<Rightarrow> (nat \<times> usize) option" where
  "find_gap (a # b # as) va =
     (let gs = start a + len a; ge = start b in
      if ge > gs \<and> va \<ge> gs \<and> va < ge \<and> area_file a \<noteq> None
      then Some (the (area_file a), uadd (offset a) (usub va (start a)))
      else find_gap (b # as) va)"
| "find_gap _ va = None"

definition get_elf_segment_for_addr :: "MemArea list \<Rightarrow> usize \<Rightarrow> (nat \<times> usize) option" where
  "get_elf_segment_for_addr ms va =
     (case find_gap ms va of
        Some r \<Rightarrow> Some r
      | None \<Rightarrow>
          (case List.find (\<lambda>a. area_contains a va \<and> area_file a \<noteq> None) ms of
             Some a \<Rightarrow> Some (the (area_file a), uadd (offset a) (usub (page_floor va) (start a)))
           | None \<Rightarrow> None))"

text \<open>Whether the handler returned, and the state it left.\<close>

datatype 's after_fault = Done 's | Continue 's

definition load_or_blank :: "fread \<Rightarrow> fsize \<Rightarrow> KState \<Rightarrow> nat \<Rightarrow> usize \<Rightarrow> KState after_fault res" where
  "load_or_blank rd sz ks p va =
     (case pcbs ks p of
        None \<Rightarrow> Panic
      | Some b \<Rightarrow>
          (let blank = (\<lambda>k. rmap (\<lambda>(k', r). if r = None then Continue k' else Done k') (grow k p (page_floor va) Mmap 1)) in
           case get_elf_segment_for_addr (pcb_memset b) va of
             None \<Rightarrow> blank ks
           | Some (g, off) \<Rightarrow>
               (case sz g of
                  Ok n \<Rightarrow>
                    if off \<ge> n then Ok (Done ks)
                    else rbind (grow ks p (page_floor va) Mmap 1) (\<lambda>(k1, r).
                      case r of
                        None \<Rightarrow> blank k1
                      | Some f \<Rightarrow>
                          (case rd g off (min PAGE_SIZE (n - off)) of
                             Ok bs \<Rightarrow> Ok (Done (set_phys f (overwrite (phys k1 f) 0 bs) k1))
                           | _ \<Rightarrow> blank k1))
                | _ \<Rightarrow> Ok (Done ks))))"

definition SIGSEGV_CODE :: nat where
  "SIGSEGV_CODE = 128 + 11"

text \<open>The handler's part for addresses in no area; \<open>tls\<close> is the last thread page and its count.\<close>

definition fault_outside :: "fread \<Rightarrow> fsize \<Rightarrow> KState \<Rightarrow> nat \<Rightarrow> nat \<Rightarrow> usize \<Rightarrow> usize \<times> nat \<Rightarrow> (KState \<times> usize \<times> nat) res" where
  "fault_outside rd sz ks t p va tls =
     rbind (if va \<ge> 0x70000000 \<and> va < 0x80000000
            then rmap (\<lambda>(k, r). if r = None then Continue k else Done k) (grow ks p (page_floor va) Stack 1)
            else Ok (Continue ks)) (\<lambda>s.
       case s of
         Done k \<Rightarrow> Ok (k, tls)
       | Continue k \<Rightarrow>
           let segv = (\<lambda>a. case a of Done k' \<Rightarrow> Ok (k', tls) | Continue k' \<Rightarrow> Ok (send_signal SIGSEGV t k', tls)) in
           if va < 0x1000 then
             (case tasks k t of
                None \<Rightarrow> Panic
              | Some x \<Rightarrow>
                  if \<not> has_sig (signal (sig (tcb x))) SIGSEGV then Ok (send_signal SIGSEGV t k, tls)
                  else rmap (\<lambda>k'. (upd_pcb p (\<lambda>b. b\<lparr>exit_code := Some SIGSEGV_CODE\<rparr>) k', tls)) (task_exit k t SIGSEGV_CODE))
           else if va \<ge> 0x10000 \<and> va < 0x100000 then rbind (load_or_blank rd sz k p va) segv
           else if va \<ge> 0x1000000 \<and> va < 0x2000000 then
             rbind (rmap (\<lambda>(k', r). if r = None then Continue k' else Done k') (grow k p (page_floor va) Mmap 12)) segv
           else if va \<ge> 0x200000000 \<and> va < 0x300000000 then
             (let tls1 = (if fst tls = page_floor va then (fst tls, snd tls + 1) else (page_floor va, 1)) in
              if fst tls = page_floor va \<and> snd tls1 > 3 then rmap (\<lambda>k'. (k', tls1)) (task_exit k t 1)
              else rbind (grow k p (page_floor va) Mmap 1) (\<lambda>(k', r).
                case r of
                  Some f \<Rightarrow> Ok (set_phys f zero_page k', (fst tls1, 0))
                | None \<Rightarrow> Ok (send_signal SIGSEGV t k', tls1)))
           else if va \<ge> 0x200a0000 \<and> va < 0x300b0000 then rbind (load_or_blank rd sz k p va) segv
           else Ok (send_signal SIGSEGV t k, tls))"

definition user_cow_int :: "fread \<Rightarrow> fsize \<Rightarrow> KState \<Rightarrow> nat \<Rightarrow> usize \<Rightarrow> usize \<times> nat \<Rightarrow> (KState \<times> usize \<times> nat) res" where
  "user_cow_int rd sz ks t va tls =
     (case tasks ks t of
        None \<Rightarrow> Panic
      | Some self \<Rightarrow>
          (case pcbs ks (process_id self) of
             None \<Rightarrow> Panic
           | Some b \<Rightarrow>
               (case position (\<lambda>x. area_contains x va) (pcb_memset b) of
                  Some i \<Rightarrow> rmap (\<lambda>k. (k, tls)) (fault_in_area rd ks t (process_id self) i (pcb_memset b ! i) va)
                | None \<Rightarrow> fault_outside rd sz ks t (process_id self) va tls)))"

text \<open>\<^verbatim>\<open>task_ilegal\<close>: an instruction that the page does not allow.\<close>

definition task_ilegal :: "KState \<Rightarrow> nat \<Rightarrow> usize \<Rightarrow> KState" where
  "task_ilegal ks t va =
     (case tasks ks t of
        None \<Rightarrow> ks
      | Some self \<Rightarrow>
          (case pcbs ks (process_id self) of
             None \<Rightarrow> ks
           | Some b \<Rightarrow>
               (case List.find (\<lambda>x. area_contains x va) (pcb_memset b) of
                  Some a \<Rightarrow>
                    (case List.find (\<lambda>x. vaddr x = va) (mtrackers a) of
                       Some _ \<Rightarrow> upd_tcb t (\<lambda>c. c\<lparr>cx := (cx c)(SEPC := uadd (cx c SEPC) 2)\<rparr>) ks
                     | None \<Rightarrow> send_signal SIGILL t ks)
                | None \<Rightarrow> send_signal SIGILL t ks)))"

section \<open>User accesses\<close>

definition user_read :: "KState \<Rightarrow> nat \<Rightarrow> usize \<Rightarrow> u8 option" where
  "user_read ks p va = map_option (\<lambda>(f, _). phys ks f ! (va mod PAGE_SIZE)) (ptabs ks p (page_floor va))"

text \<open>A store of a byte: it goes through when the page is mapped writable and faults otherwise.\<close>

definition user_write :: "KState \<Rightarrow> nat \<Rightarrow> usize \<Rightarrow> u8 \<Rightarrow> KState option" where
  "user_write ks p va v =
     (case ptabs ks p (page_floor va) of
        Some (f, fl) \<Rightarrow> if fl \<noteq> URX then Some (set_phys f ((phys ks f)[va mod PAGE_SIZE := v]) ks) else None
      | None \<Rightarrow> None)"

text \<open>The store with the fault handler: when it faults, the handler runs and the store is tried again.\<close>

definition store :: "fread \<Rightarrow> fsize \<Rightarrow> KState \<Rightarrow> nat \<Rightarrow> nat \<Rightarrow> usize \<Rightarrow> u8 \<Rightarrow> usize \<times> nat \<Rightarrow> KState option" where
  "store rd sz ks t p va v tls =
     (case user_write ks p va v of
        Some ks' \<Rightarrow> Some ks'
      | None \<Rightarrow>
          (case user_cow_int rd sz ks t va tls of
             Ok (ks', _) \<Rightarrow> user_write ks' p va v
           | _ \<Rightarrow> None))"

section \<open>Which process refers to which frame\<close>

text \<open>The pages of a memory with their frames and the kind of area they are in.\<close>

definition vpages :: "MemArea list \<Rightarrow> (usize \<times> usize \<times> MemType) list" where
  "vpages ms = concat (map (\<lambda>a. map (\<lambda>t. (vaddr t, tracker t, mtype a)) (mtrackers a)) ms)"

definition unshared :: "MemType \<Rightarrow> bool" where
  "unshared mt \<longleftrightarrow> mt \<noteq> Shared \<and> mt \<noteq> ShareFile"

definition seg_frames :: "KState \<Rightarrow> usize set" where
  "seg_frames ks = set (concat (map shm_trackers (shared_mem ks)))"

lemma held_pages: "held ms = map (\<lambda>(v, f, m). f) (vpages ms)"
  by (induction ms) (simp_all add: held_def trackers_def vpages_def)

definition proc_refs :: "KState \<Rightarrow> usize \<Rightarrow> nat \<Rightarrow> nat" where
  "proc_refs ks f p = (case pcbs ks p of None \<Rightarrow> 0 | Some b \<Rightarrow> count_list (held (pcb_memset b)) f)"

lemma frame_refs_sum:
  "frame_refs ks f = count_list (cached ks) f + count_list (concat (map shm_trackers (shared_mem ks))) f +
     (\<Sum>p \<le> last_id (exec ks). proc_refs ks f p)"
proof -
  have "frame_refs ks f = count_list (cached ks) f + count_list (concat (map shm_trackers (shared_mem ks))) f +
      sum_list (map (proc_refs ks f) [0..<Suc (last_id (exec ks))])"
    by (simp only: frame_refs_def proc_refs_def [abs_def])
  also have "sum_list (map (proc_refs ks f) [0..<Suc (last_id (exec ks))]) = (\<Sum>p \<le> last_id (exec ks). proc_refs ks f p)"
    by (simp only: interv_sum_list_conv_sum_set_nat set_upt atLeast0LessThan lessThan_Suc_atMost)
  finally show ?thesis .
qed

lemma proc_refs_Some: "pcbs ks p = Some b \<Longrightarrow> proc_refs ks f p = count_list (held (pcb_memset b)) f"
  by (simp add: proc_refs_def)

lemma frame_refs_two:
  assumes "p \<le> last_id (exec ks)" "q \<le> last_id (exec ks)" "p \<noteq> q"
  shows "proc_refs ks f p + proc_refs ks f q \<le> frame_refs ks f"
proof -
  have "sum (proc_refs ks f) {p, q} \<le> sum (proc_refs ks f) {..last_id (exec ks)}"
    by (rule sum_mono2) (use assms in auto)
  then show ?thesis using assms(3) by (simp add: frame_refs_sum)
qed

lemma frame_refs_one: "p \<le> last_id (exec ks) \<Longrightarrow> proc_refs ks f p \<le> frame_refs ks f"
proof -
  assume "p \<le> last_id (exec ks)"
  then have "sum (proc_refs ks f) {p} \<le> sum (proc_refs ks f) {..last_id (exec ks)}"
    by (intro sum_mono2) auto
  then show ?thesis by (simp add: frame_refs_sum)
qed

lemma frame_refs_upd:
  assumes "p \<le> last_id (exec ks)" "exec ks' = exec ks" "cached ks' = cached ks" "shared_mem ks' = shared_mem ks"
    "\<And>q. q \<noteq> p \<Longrightarrow> proc_refs ks' f q = proc_refs ks f q"
  shows "frame_refs ks' f + proc_refs ks f p = frame_refs ks f + proc_refs ks' f p"
proof -
  have "(\<Sum>q \<le> last_id (exec ks). proc_refs k f q) = proc_refs k f p + (\<Sum>q \<in> {..last_id (exec ks)} - {p}. proc_refs k f q)" for k
    using assms(1) by (simp add: sum.remove)
  moreover have "(\<Sum>q \<in> {..last_id (exec ks)} - {p}. proc_refs ks' f q) = (\<Sum>q \<in> {..last_id (exec ks)} - {p}. proc_refs ks f q)"
    by (rule sum.cong) (use assms(5) in auto)
  ultimately show ?thesis using assms(2-4) by (simp add: frame_refs_sum)
qed

section \<open>The invariant\<close>

text \<open>
  One address space: its pages lie in their areas, no page is in two areas, and every
  entry of the page table is a page of the memory or of a shared segment.  A private page
  is mapped writable only when nothing else refers to its frame.
\<close>

definition space_ok :: "KState \<Rightarrow> nat \<Rightarrow> ProcessControlBlock \<Rightarrow> bool" where
  "space_ok ks p b \<longleftrightarrow> p \<le> last_id (exec ks) \<and>
     distinct (map fst (vpages (pcb_memset b))) \<and> (\<forall>v. cover (pcb_memset b) v \<le> 1) \<and>
     (\<forall>a \<in> set (pcb_memset b). PAGE_SIZE dvd start a \<and> (\<forall>t \<in> set (mtrackers a). area_contains a (vaddr t))) \<and>
     (\<forall>s \<in> set (pcb_shms b). shm_mem s < length (shared_mem ks)) \<and>
     set (held (pcb_memset b)) \<subseteq> managed_frames (frames ks) - free_frames (frames ks) - seg_frames ks \<and>
     (\<forall>v f fl. ptabs ks p v = Some (f, fl) \<longrightarrow>
        f \<in> seg_frames ks \<and> fl \<noteq> URX \<or>
        (\<exists>mt. (v, f, mt) \<in> set (vpages (pcb_memset b)) \<and> (fl \<noteq> URX \<and> unshared mt \<longrightarrow> frame_refs ks f = 1)))"

definition cow_inv :: "KState \<Rightarrow> bool" where
  "cow_inv ks \<longleftrightarrow> fa_wf (frames ks) \<and> seg_frames ks \<inter> free_frames (frames ks) = {} \<and>
     set (cached ks) \<inter> free_frames (frames ks) = {} \<and> (\<forall>f \<in> managed_frames (frames ks). length (phys ks f) = PAGE_SIZE) \<and>
     (\<forall>p b. pcbs ks p = Some b \<longrightarrow> space_ok ks p b)"

lemma space_okD:
  assumes "space_ok ks p b"
  shows "p \<le> last_id (exec ks)" "distinct (map fst (vpages (pcb_memset b)))" "cover (pcb_memset b) v \<le> 1"
    "a \<in> set (pcb_memset b) \<Longrightarrow> PAGE_SIZE dvd start a" "a \<in> set (pcb_memset b) \<Longrightarrow> t \<in> set (mtrackers a) \<Longrightarrow> area_contains a (vaddr t)"
    "s \<in> set (pcb_shms b) \<Longrightarrow> shm_mem s < length (shared_mem ks)"
    "f \<in> set (held (pcb_memset b)) \<Longrightarrow> f \<in> managed_frames (frames ks) \<and> f \<notin> free_frames (frames ks) \<and> f \<notin> seg_frames ks"
    "ptabs ks p v = Some (f, fl) \<Longrightarrow>
       f \<in> seg_frames ks \<and> fl \<noteq> URX \<or>
       (\<exists>mt. (v, f, mt) \<in> set (vpages (pcb_memset b)) \<and> (fl \<noteq> URX \<and> unshared mt \<longrightarrow> frame_refs ks f = 1))"
  using assms unfolding space_ok_def by blast+

lemma cow_invD:
  assumes "cow_inv ks"
  shows "fa_wf (frames ks)" "seg_frames ks \<inter> free_frames (frames ks) = {}" "set (cached ks) \<inter> free_frames (frames ks) = {}"
    "f \<in> managed_frames (frames ks) \<Longrightarrow> length (phys ks f) = PAGE_SIZE" "pcbs ks p = Some b \<Longrightarrow> space_ok ks p b"
  using assms unfolding cow_inv_def by blast+

lemma pages_held: "(v, f, mt) \<in> set (vpages ms) \<Longrightarrow> f \<in> set (held ms)"
  by (force simp: held_pages)

lemma free_frame_unused:
  assumes "cow_inv ks" "f \<in> free_frames (frames ks)"
  shows "frame_refs ks f = 0"
proof -
  have "proc_refs ks f p = 0" for p
  proof (cases "pcbs ks p")
    case (Some b)
    have "f \<notin> set (held (pcb_memset b))" using space_okD(7) [OF cow_invD(5) [OF assms(1) Some], of f] assms(2) by blast
    then show ?thesis using Some by (simp add: proc_refs_def count_notin)
  qed (simp add: proc_refs_def)
  moreover have "f \<notin> set (cached ks)" "f \<notin> set (concat (map shm_trackers (shared_mem ks)))"
    using cow_invD(2,3) [OF assms(1)] assms(2) by (auto simp: seg_frames_def)
  ultimately show ?thesis by (simp add: frame_refs_sum count_notin)
qed

lemma count_list_two:
  assumes "x \<in> set xs" "y \<in> set xs" "x \<noteq> y" "g x = z" "g y = z"
  shows "2 \<le> count_list (map g xs) z"
  using assms
proof (induction xs)
  case (Cons a xs)
  have one: "0 < count_list (map g xs) z" if "w \<in> set xs" "g w = z" for w
    using that by (intro gr0I) (auto simp: count_list_0_iff)
  show ?case using Cons one by (cases "a = x"; cases "a = y") force+
qed simp

text \<open>A frame with a single reference is mapped at one page of one process.\<close>

lemma sole_mapping:
  assumes "cow_inv ks" "pcbs ks p = Some b" "(v, f, mt) \<in> set (vpages (pcb_memset b))" "frame_refs ks f = 1"
    "pcbs ks q = Some b'" "ptabs ks q v' = Some (f, fl)"
  shows "q = p \<and> v' = v"
proof -
  note p = cow_invD(5) [OF assms(1,2)] and q = cow_invD(5) [OF assms(1,5)]
  have "f \<notin> seg_frames ks" using space_okD(7) [OF p pages_held [OF assms(3)]] by blast
  then obtain mt' where m: "(v', f, mt') \<in> set (vpages (pcb_memset b'))" using space_okD(8) [OF q assms(6)] by blast
  have cp: "0 < proc_refs ks f p" "0 < proc_refs ks f q"
    using pages_held [OF assms(3)] pages_held [OF m] assms(2,5)
    by (auto simp: proc_refs_Some count_list_0_iff intro: gr0I)
  show ?thesis
  proof (cases "q = p")
    case True
    have "v' = v"
    proof (rule ccontr)
      assume "v' \<noteq> v"
      then have "(v, f, mt) \<noteq> (v', f, mt')" by simp
      then have "2 \<le> count_list (held (pcb_memset b)) f"
        unfolding held_pages by (rule count_list_two [rotated 2]) (use assms(2,3,5) m True in auto)
      then show False using frame_refs_one [OF space_okD(1) [OF p], of f] assms(2,4) by (simp add: proc_refs_Some)
    qed
    with True show ?thesis by simp
  next
    case False
    then show ?thesis using frame_refs_two [OF space_okD(1) [OF p] space_okD(1) [OF q], of f] cp assms(4) by simp
  qed
qed

section \<open>Changing one area\<close>

definition tagged :: "MemType \<Rightarrow> MapTrack list \<Rightarrow> (usize \<times> usize \<times> MemType) list" where
  "tagged mt ts = map (\<lambda>t. (vaddr t, tracker t, mt)) ts"

lemma vpages_tagged: "vpages ms = concat (map (\<lambda>a. tagged (mtype a) (mtrackers a)) ms)"
  by (simp add: vpages_def tagged_def)

lemma vpages_update:
  assumes "i < length ms"
  shows "mset (vpages (ms[i := (ms ! i)\<lparr>mtrackers := ts\<rparr>])) + mset (tagged (mtype (ms ! i)) (mtrackers (ms ! i))) =
    mset (vpages ms) + mset (tagged (mtype (ms ! i)) ts)"
  using assms
proof (induction ms arbitrary: i)
  case (Cons a ms)
  show ?case
  proof (cases i)
    case (Suc k)
    with Cons.IH [of k] Cons.prems show ?thesis by (simp add: vpages_tagged)
  qed (simp add: vpages_tagged)
qed simp

lemma cover_update: "i < length ms \<Longrightarrow> cover (ms[i := (ms ! i)\<lparr>mtrackers := ts\<rparr>]) v = cover ms v"
proof (induction ms arbitrary: i)
  case (Cons a ms)
  then show ?case by (cases i) (simp_all add: area_contains_def)
qed simp

lemma in_area_page:
  assumes "a \<in> set ms" "t \<in> set (mtrackers a)"
  shows "(vaddr t, tracker t, mtype a) \<in> set (vpages ms)"
  using assms by (auto simp: vpages_def)

lemma cover_two: "i < length ms \<Longrightarrow> j < length ms \<Longrightarrow> i \<noteq> j \<Longrightarrow> area_contains (ms ! i) v \<Longrightarrow> area_contains (ms ! j) v \<Longrightarrow> 2 \<le> cover ms v"
proof (induction ms arbitrary: i j)
  case (Cons a ms)
  have one: "1 \<le> cover ms v" if "k < length ms" "area_contains (ms ! k) v" for k
    using that by (induction ms arbitrary: k) (auto simp: nth_Cons split: nat.splits if_splits)
  show ?case using Cons one by (cases i; cases j) auto
qed simp

lemma page_floor_le: "page_floor va \<le> va"
  by (simp add: page_floor_def)

lemma page_floor_contains:
  assumes "area_contains a va" "PAGE_SIZE dvd start a"
  shows "area_contains a (page_floor va)"
proof -
  have "start a \<le> page_floor va"
  proof -
    from assms(2) obtain k where k: "start a = PAGE_SIZE * k" by blast
    have "page_floor va = PAGE_SIZE * (va div PAGE_SIZE)" by (simp add: page_floor_def minus_mod_eq_mult_div)
    moreover have "k \<le> va div PAGE_SIZE"
      using assms(1) k by (simp add: area_contains_def less_eq_div_iff_mult_less_eq PAGE_SIZE_def mult.commute)
    ultimately show ?thesis using k by simp
  qed
  then show ?thesis using assms(1) page_floor_le [of va] by (simp add: area_contains_def)
qed

text \<open>The invariant after a change of one address space.\<close>

lemma cow_inv_change:
  assumes inv: "cow_inv ks" and b: "pcbs ks p = Some b"
    and same: "exec ks' = exec ks" "cached ks' = cached ks" "shared_mem ks' = shared_mem ks"
    and p': "pcbs ks' = (pcbs ks)(p \<mapsto> b')" and pt': "\<And>q. q \<noteq> p \<Longrightarrow> ptabs ks' q = ptabs ks q"
    and fa: "fa_wf (frames ks')" "managed_frames (frames ks') = managed_frames (frames ks)" "free_frames (frames ks') \<subseteq> free_frames (frames ks)"
    and ph: "\<And>f. f \<in> managed_frames (frames ks) \<Longrightarrow> length (phys ks' f) = PAGE_SIZE"
    and h: "set (held (pcb_memset b')) \<subseteq> set (held (pcb_memset b)) \<union> free_frames (frames ks)" and ok: "space_ok ks' p b'"
  shows "cow_inv ks'"
proof -
  have seg: "seg_frames ks' = seg_frames ks" using same by (simp add: seg_frames_def)
  have "space_ok ks' q c" if q: "pcbs ks' q = Some c" for q c
  proof (cases "q = p")
    case True
    then show ?thesis using q ok p' by simp
  next
    case False
    then have c: "pcbs ks q = Some c" using q p' by simp
    note okq = cow_invD(5) [OF inv c] and okp = cow_invD(5) [OF inv b]
    have refs: "frame_refs ks' f = 1" if f: "f \<in> set (held (pcb_memset c))" "frame_refs ks f = 1" for f
    proof -
      have "0 < proc_refs ks f q" using f(1) c by (auto simp: proc_refs_Some count_list_0_iff intro!: gr0I)
      then have z: "proc_refs ks f p = 0"
        using frame_refs_two [OF space_okD(1) [OF okp] space_okD(1) [OF okq], of f] False f(2) by simp
      have "f \<notin> free_frames (frames ks)" using space_okD(7) [OF okq f(1)] by blast
      moreover have "f \<notin> set (held (pcb_memset b))" using z b by (simp add: proc_refs_Some count_list_0_iff)
      ultimately have "proc_refs ks' f p = 0" using h p' by (auto simp: proc_refs_def count_list_0_iff)
      moreover have "frame_refs ks' f + proc_refs ks f p = frame_refs ks f + proc_refs ks' f p"
        by (rule frame_refs_upd [OF space_okD(1) [OF okp] same]) (simp add: proc_refs_def p')
      ultimately show ?thesis using z f(2) by simp
    qed
    have "f \<in> seg_frames ks \<and> fl \<noteq> URX \<or> (\<exists>mt. (v, f, mt) \<in> set (vpages (pcb_memset c)) \<and> (fl \<noteq> URX \<and> unshared mt \<longrightarrow> frame_refs ks' f = 1))"
      if "ptabs ks' q v = Some (f, fl)" for v f fl
      using space_okD(8) [OF okq, of v f fl] that pt' [OF False] refs pages_held by metis
    then show ?thesis using okq fa same unfolding space_ok_def seg by auto
  qed
  then show ?thesis using inv fa ph unfolding cow_inv_def seg same(2) by blast
qed

lemma install_page_Ok:
  "install_page p f v fl ks = Ok ks' \<Longrightarrow> ks' = ks\<lparr>ptabs := (ptabs ks)(p := (ptabs ks p)(v \<mapsto> (f, fl)))\<rparr>"
  by (auto simp: install_page_def map_page_def rmap_eq_Ok split: if_splits)

lemma kstate_upd_simps [simp]:
  "tasks (set_phys f d ks) = tasks ks" "pcbs (set_phys f d ks) = pcbs ks" "ptabs (set_phys f d ks) = ptabs ks"
  "exec (set_phys f d ks) = exec ks" "frames (set_phys f d ks) = frames ks" "shared_mem (set_phys f d ks) = shared_mem ks"
  "cached (set_phys f d ks) = cached ks" "phys (set_phys f d ks) = (phys ks)(f := d)"
  "pcbs (send_signal sg t ks) = pcbs ks" "ptabs (send_signal sg t ks) = ptabs ks" "exec (send_signal sg t ks) = exec ks"
  "frames (send_signal sg t ks) = frames ks" "shared_mem (send_signal sg t ks) = shared_mem ks"
  "cached (send_signal sg t ks) = cached ks" "phys (send_signal sg t ks) = phys ks"
  by (simp_all add: set_phys_def send_signal_def)

text \<open>What every page fault in an area keeps and, when it ends with a mapping, provides.\<close>

definition fault_post :: "KState \<Rightarrow> nat \<Rightarrow> usize \<Rightarrow> MemType \<Rightarrow> KState \<Rightarrow> bool" where
  "fault_post ks p v mt ks' \<longleftrightarrow> cow_inv ks' \<and> dom (pcbs ks') = dom (pcbs ks) \<and>
     (\<forall>q va. pcbs ks q \<noteq> None \<and> user_read ks q va \<noteq> None \<longrightarrow> user_read ks' q va = user_read ks q va) \<and>
     (ptabs ks' p v = ptabs ks p v \<or>
      (\<exists>f fl b. ptabs ks' p v = Some (f, fl) \<and> pcbs ks' p = Some b \<and> (v, f, mt) \<in> set (vpages (pcb_memset b))))"

lemma mapped_not_free:
  assumes "cow_inv ks" "pcbs ks q = Some b" "ptabs ks q v = Some (f, fl)"
  shows "f \<notin> free_frames (frames ks)"
proof -
  note ok = cow_invD(5) [OF assms(1,2)]
  show ?thesis using space_okD(8) [OF ok assms(3)] space_okD(7) [OF ok] pages_held cow_invD(2) [OF assms(1)] by blast
qed

lemma segv_post:
  assumes "cow_inv ks" "pcbs ks p = Some b"
  shows "fault_post ks p v mt (send_signal sg t ks)"
proof -
  have "cow_inv (send_signal sg t ks)"
  proof (rule cow_inv_change [OF assms])
    show "pcbs (send_signal sg t ks) = (pcbs ks)(p \<mapsto> b)" using assms(2) by auto
    have "frame_refs (send_signal sg t ks) f = frame_refs ks f" for f by (simp add: frame_refs_def)
    then show "space_ok (send_signal sg t ks) p b"
      using cow_invD(5) [OF assms] by (simp add: space_ok_def seg_frames_def shm_pages_def)
  qed (use cow_invD [OF assms(1)] in auto)
  then show ?thesis by (simp add: fault_post_def user_read_def)
qed

text \<open>A page whose frame nobody else refers to is mapped as it is.\<close>

lemma remap_post:
  assumes inv: "cow_inv ks" and b: "pcbs ks p = Some b" and pg: "(v, f, mt) \<in> set (vpages (pcb_memset b))"
    and sole: "\<not> frame_refs ks f > 1" and nseg: "\<And>g fl. ptabs ks p v = Some (g, fl) \<Longrightarrow> g \<notin> seg_frames ks"
    and i: "install_page p f v fl ks = Ok ks'"
  shows "fault_post ks p v mt ks'"
proof -
  note ok = cow_invD(5) [OF inv b]
  have ks': "ks' = ks\<lparr>ptabs := (ptabs ks)(p := (ptabs ks p)(v \<mapsto> (f, fl)))\<rparr>" using i by (rule install_page_Ok)
  have r: "frame_refs ks' g = frame_refs ks g" for g by (simp add: frame_refs_def ks')
  have "0 < proc_refs ks f p" using pages_held [OF pg] b by (auto simp: proc_refs_Some count_list_0_iff intro!: gr0I)
  then have "frame_refs ks f = 1" using frame_refs_one [OF space_okD(1) [OF ok], of f] sole by simp
  then have sp: "space_ok ks' p b" using ok pg unfolding space_ok_def r by (auto simp: ks' seg_frames_def)
  have "cow_inv ks'"
    by (rule cow_inv_change [OF inv b _ _ _ _ _ _ _ _ _ _ sp]) (use cow_invD [OF inv] b in \<open>auto simp: ks'\<close>)
  moreover have "user_read ks' q va = user_read ks q va" if "user_read ks q va \<noteq> None" for q va
  proof (cases "q = p \<and> page_floor va = v")
    case True
    with that obtain g gl where g: "ptabs ks p v = Some (g, gl)" by (auto simp: user_read_def)
    then obtain mt' where "(v, g, mt') \<in> set (vpages (pcb_memset b))" using space_okD(8) [OF ok g] nseg by blast
    then have "g = f" using space_okD(2) [OF ok] pg by (metis Pair_inject eq_key_imp_eq_value)
    with True g show ?thesis by (simp add: user_read_def ks')
  qed (auto simp: user_read_def ks')
  moreover have "\<exists>b. pcbs ks' p = Some b \<and> (v, f, mt) \<in> set (vpages (pcb_memset b))" using b pg by (simp add: ks')
  ultimately show ?thesis by (auto simp: fault_post_def ks')
qed

text \<open>
  A page gets a fresh frame.  \<open>R\<close> is the page it replaces: none when the page is new, the
  page with the shared frame when it is copied.
\<close>

definition replaces :: "KState \<Rightarrow> MemArea list \<Rightarrow> usize \<Rightarrow> MemType \<Rightarrow> u8 list \<Rightarrow> (usize \<times> usize \<times> MemType) multiset \<Rightarrow> bool" where
  "replaces ks ms v mt d R \<longleftrightarrow>
     R = {#} \<and> v \<notin> fst ` set (vpages ms) \<or>
     (\<exists>g. R = {#(v, g, mt)#} \<and> (v, g, mt) \<in> set (vpages ms) \<and> frame_refs ks g > 1 \<and> d = phys ks g)"

lemma replaced_distinct:
  assumes "mset (vpages ms') + R = mset (vpages ms) + {#(v, f, mt)#}" "replaces ks ms v mt d R" "distinct (map fst (vpages ms))"
  shows "distinct (map fst (vpages ms'))"
proof -
  have e: "mset (map fst (vpages ms')) + image_mset fst R = mset (map fst (vpages ms)) + {#v#}"
    using arg_cong [OF assms(1), of "image_mset fst"] by simp
  from assms(2) consider "R = {#}" "v \<notin> fst ` set (vpages ms)" | g where "R = {#(v, g, mt)#}"
    unfolding replaces_def by blast
  then show ?thesis
  proof cases
    case 1
    then have "mset (map fst (vpages ms')) = mset (v # map fst (vpages ms))" using e by simp
    from mset_eq_imp_distinct_iff [OF this] 1 assms(3) show ?thesis by simp
  next
    case 2
    then have "mset (map fst (vpages ms')) = mset (map fst (vpages ms))" using e by simp
    from mset_eq_imp_distinct_iff [OF this] assms(3) show ?thesis by simp
  qed
qed

lemma replaced_sets:
  assumes "mset (vpages ms') + R = mset (vpages ms) + {#(v, f, mt)#}" "replaces ks ms v mt d R"
  shows "(v, f, mt) \<in> set (vpages ms')" "x \<in> set (vpages ms') \<Longrightarrow> x \<in> set (vpages ms) \<or> x = (v, f, mt)"
    "x \<in> set (vpages ms) \<Longrightarrow> fst x \<noteq> v \<Longrightarrow> x \<in> set (vpages ms')"
proof -
  have R: "y \<in># R \<Longrightarrow> fst y = v" for y using assms(2) by (auto simp: replaces_def)
  have s: "set (vpages ms') \<union> set_mset R = insert (v, f, mt) (set (vpages ms))"
    using arg_cong [OF assms(1), of set_mset] by auto
  show "x \<in> set (vpages ms') \<Longrightarrow> x \<in> set (vpages ms) \<or> x = (v, f, mt)" using s by blast
  show "x \<in> set (vpages ms) \<Longrightarrow> fst x \<noteq> v \<Longrightarrow> x \<in> set (vpages ms')" using s R by blast
  show "(v, f, mt) \<in> set (vpages ms')"
  proof (rule ccontr)
    assume "(v, f, mt) \<notin> set (vpages ms')"
    then have "count (mset (vpages ms')) (v, f, mt) = 0" by (simp add: count_eq_zero_iff)
    moreover have "count (mset (vpages ms')) (v, f, mt) + count R (v, f, mt) = Suc (count (mset (vpages ms)) (v, f, mt))"
      using arg_cong [OF assms(1), of "\<lambda>m. count m (v, f, mt)"] by simp
    ultimately have "count R (v, f, mt) = Suc (count (mset (vpages ms)) (v, f, mt))" by linarith
    moreover have "count R (v, f, mt) \<le> count (mset (vpages ms)) (v, f, mt)"
      using assms(2) by (auto simp: replaces_def Suc_le_eq)
    ultimately show False by simp
  qed
qed

lemma replaced_counts:
  assumes "mset (vpages ms') + R = mset (vpages ms) + {#(v, f, mt)#}"
  shows "count_list (held ms') h + count (image_mset (\<lambda>(v, f, m). f) R) h = count_list (held ms) h + (if h = f then 1 else 0)"
proof -
  have "mset (held ms') + image_mset (\<lambda>(v, f, m). f) R = mset (held ms) + {#f#}"
    using arg_cong [OF assms, of "image_mset (\<lambda>(v, f, m). f)"] by (simp add: held_pages)
  from arg_cong [OF this, of "\<lambda>m. count m h"] show ?thesis by (simp add: count_mset)
qed

lemma fresh_page_post:
  assumes inv: "cow_inv ks" and b: "pcbs ks p = Some b" and al: "frame_alloc (frames ks) = (fa', Some f)"
    and i: "i < length (pcb_memset b)" "a = pcb_memset b ! i" and ts: "\<forall>t \<in> set ts. area_contains a (vaddr t)"
    and R: "mset (tagged (mtype a) ts) + R = mset (tagged (mtype a) (mtrackers a)) + {#(v, f, mtype a)#}"
    and rep: "replaces ks (pcb_memset b) v (mtype a) d R" and d: "length d = PAGE_SIZE"
    and nseg: "\<And>g fl. ptabs ks p v = Some (g, fl) \<Longrightarrow> g \<notin> seg_frames ks"
    and inst: "install_page p f v fl (set_area p i ts (set_phys f d (ks\<lparr>frames := fa'\<rparr>))) = Ok ks'"
  shows "fault_post ks p v (mtype a) ks'"
proof -
  define ms ms' where "ms = pcb_memset b" and "ms' = (pcb_memset b)[i := a\<lparr>mtrackers := ts\<rparr>]"
  define b' where "b' = b\<lparr>pcb_memset := ms'\<rparr>"
  note ok = cow_invD(5) [OF inv b, folded ms_def] and fr = frame_alloc_spec [OF cow_invD(1) [OF inv] al]
  have f: "f \<in> free_frames (frames ks)" "free_frames fa' = free_frames (frames ks) - {f}" "fa_wf fa'"
    "managed_frames fa' = managed_frames (frames ks)" using fr by auto
  have ks': "exec ks' = exec ks" "cached ks' = cached ks" "shared_mem ks' = shared_mem ks" "frames ks' = fa'"
    "pcbs ks' = (pcbs ks)(p \<mapsto> b')" "ptabs ks' = (ptabs ks)(p := (ptabs ks p)(v \<mapsto> (f, fl)))" "phys ks' = (phys ks)(f := d)"
    using install_page_Ok [OF inst] b i(2) by (simp_all add: set_area_def b'_def ms'_def)
  have m: "mset (vpages ms') + R = mset (vpages ms) + {#(v, f, mtype a)#}"
  proof -
    have "(mset (vpages ms') + R) + mset (tagged (mtype a) (mtrackers a)) =
        (mset (vpages ms) + {#(v, f, mtype a)#}) + mset (tagged (mtype a) (mtrackers a))"
      using vpages_update [OF i(1), of ts] R i(2) by (simp add: ms_def ms'_def ac_simps)
    then show ?thesis by (rule add_right_imp_eq)
  qed
  note rep = rep [folded ms_def] and sets = replaced_sets [OF m rep [folded ms_def]] and cnt = replaced_counts [OF m]
  have ref: "frame_refs ks' h + proc_refs ks h p = frame_refs ks h + proc_refs ks' h p" for h
    by (rule frame_refs_upd [OF space_okD(1) [OF ok] ks'(1-3)]) (simp add: proc_refs_def ks'(5))
  have pr: "proc_refs ks h p = count_list (held ms) h" "proc_refs ks' h p = count_list (held ms') h" for h
    by (simp_all add: proc_refs_def b ks'(5) b'_def ms_def)
  have Rf: "g \<in> set (held ms) \<and> frame_refs ks g > 1" if "(v0, g, m0) \<in># R" for v0 g m0
    using rep that pages_held by (auto simp: replaces_def)
  have nof: "f \<notin> set (held ms)" using space_okD(7) [OF ok, of f] f(1) by (auto simp: ms_def)
  have new: "frame_refs ks' f = 1"
  proof -
    have "count (image_mset (\<lambda>(v, f, m). f) R) f = 0" using Rf nof by (force simp: count_eq_zero_iff)
    then show ?thesis using ref [of f] cnt [of f] pr [of f] free_frame_unused [OF inv f(1)] nof by (simp add: count_notin)
  qed
  have keep: "frame_refs ks' h = 1" if "frame_refs ks h = 1" "h \<in> set (held ms)" for h
  proof -
    have "count (image_mset (\<lambda>(v, f, m). f) R) h = 0" using Rf that(1) by (force simp: count_eq_zero_iff)
    moreover have "h \<noteq> f" using that(2) nof by blast
    ultimately show ?thesis using ref [of h] cnt [of h] pr [of h] that(1) by simp
  qed
  have seg: "seg_frames ks' = seg_frames ks" by (simp add: seg_frames_def ks')
  have fseg: "f \<notin> seg_frames ks" using cow_invD(2) [OF inv] f(1) by blast
  have sp: "space_ok ks' p b'"
    unfolding space_ok_def
  proof (intro conjI allI ballI impI)
    show "p \<le> last_id (exec ks')" using space_okD(1) [OF ok] ks'(1) by simp
    show "distinct (map fst (vpages (pcb_memset b')))"
      using replaced_distinct [OF m rep space_okD(2) [OF ok, folded ms_def]] by (simp add: b'_def)
    show "cover (pcb_memset b') w \<le> 1" for w
      using cover_update [OF i(1), of ts w] space_okD(3) [OF ok, of w] i(2) by (simp add: b'_def ms'_def)
    show "PAGE_SIZE dvd start c" "t \<in> set (mtrackers c) \<Longrightarrow> area_contains c (vaddr t)" if "c \<in> set (pcb_memset b')" for c t
    proof -
      have "c \<in> set ms \<or> c = a\<lparr>mtrackers := ts\<rparr>" using that set_update_subset_insert [of "pcb_memset b" i] by (auto simp: b'_def ms'_def ms_def)
      moreover have "a \<in> set ms" using i by (simp add: ms_def)
      ultimately show "PAGE_SIZE dvd start c" "t \<in> set (mtrackers c) \<Longrightarrow> area_contains c (vaddr t)"
        using space_okD(4,5) [OF ok] ts by (auto simp: ms_def area_contains_def)
    qed
    show "shm_mem s < length (shared_mem ks')" if "s \<in> set (pcb_shms b')" for s
      using space_okD(6) [OF ok] that by (simp add: b'_def ks'(3))
    have "set (held ms') \<subseteq> insert f (set (held ms))" using sets(2) by (force simp: held_pages)
    then show "set (held (pcb_memset b')) \<subseteq> managed_frames (frames ks') - free_frames (frames ks') - seg_frames ks'"
      using space_okD(7) [OF ok] f fseg free_frames_managed [of "frames ks"] unfolding seg ks'(4) by (auto simp: b'_def ms_def)
    fix w g gl assume w: "ptabs ks' p w = Some (g, gl)"
    show "g \<in> seg_frames ks' \<and> gl \<noteq> URX \<or>
        (\<exists>mt. (w, g, mt) \<in> set (vpages (pcb_memset b')) \<and> (gl \<noteq> URX \<and> unshared mt \<longrightarrow> frame_refs ks' g = 1))"
    proof (cases "w = v")
      case True
      then show ?thesis using w sets(1) new by (auto simp: ks'(6) b'_def)
    next
      case False
      then have "ptabs ks p w = Some (g, gl)" using w by (simp add: ks'(6))
      from space_okD(8) [OF ok this] show ?thesis using sets(3) False keep pages_held unfolding seg by (fastforce simp: b'_def ms_def)
    qed
  qed
  have inv': "cow_inv ks'"
  proof (rule cow_inv_change [OF inv b ks'(1-3,5) _ _ _ _ _ _ sp])
    show "set (held (pcb_memset b')) \<subseteq> set (held (pcb_memset b)) \<union> free_frames (frames ks)"
      using sets(2) f(1) by (force simp: held_pages b'_def ms_def)
  qed (use f d cow_invD(4) [OF inv] in \<open>auto simp: ks'\<close>)
  have "user_read ks' q va = user_read ks q va" if q: "pcbs ks q \<noteq> None" "user_read ks q va \<noteq> None" for q va
  proof -
    from q obtain c g gl where g: "pcbs ks q = Some c" "ptabs ks q (page_floor va) = Some (g, gl)" by (auto simp: user_read_def)
    have gf: "g \<noteq> f" using mapped_not_free [OF inv g] f(1) by blast
    show ?thesis
    proof (cases "q = p \<and> page_floor va = v")
      case False
      then show ?thesis using g(2) gf by (auto simp: user_read_def ks'(6,7))
    next
      case True
      then obtain mt' where mt': "(v, g, mt') \<in> set (vpages ms)" using space_okD(8) [OF ok, of v g gl] g nseg by (auto simp: ms_def)
      then have "v \<in> fst ` set (vpages ms)" by force
      then obtain h where h: "(v, h, mtype a) \<in> set (vpages ms)" "d = phys ks h" using rep by (auto simp: replaces_def)
      then have "g = h" using space_okD(2) [OF ok] mt' by (metis Pair_inject eq_key_imp_eq_value ms_def)
      then show ?thesis using True g(2) h(2) by (simp add: user_read_def ks'(6,7))
    qed
  qed
  moreover have "dom (pcbs ks') = dom (pcbs ks)" using b by (auto simp: ks'(5))
  moreover have "\<exists>b. pcbs ks' p = Some b \<and> (v, f, mtype a) \<in> set (vpages (pcb_memset b))" using sets(1) by (simp add: ks'(5) b'_def)
  ultimately show ?thesis using inv' by (auto simp: fault_post_def ks'(6))
qed

lemma cow_copy_post:
  assumes inv: "cow_inv ks" and b: "pcbs ks p = Some b" and i: "i < length (pcb_memset b)" "a = pcb_memset b ! i"
    and j: "j < length (mtrackers a)" "vaddr (mtrackers a ! j) = page_floor va"
    and nseg: "\<And>g fl. ptabs ks p (page_floor va) = Some (g, fl) \<Longrightarrow> g \<notin> seg_frames ks" and c: "cow_copy ks t p i a j va = Ok ks'"
  shows "fault_post ks p (page_floor va) (mtype a) ks'"
proof -
  let ?o = "mtrackers a ! j" and ?v = "page_floor va"
  have pg: "(?v, tracker ?o, mtype a) \<in> set (vpages (pcb_memset b))" using in_area_page [of a "pcb_memset b" ?o] i j by simp
  note ok = cow_invD(5) [OF inv b]
  consider (shared) "mtype a = Shared" | (sole) "mtype a \<noteq> Shared" "\<not> frame_refs ks (tracker ?o) > 1"
    | (fail) fa' where "mtype a \<noteq> Shared" "frame_refs ks (tracker ?o) > 1" "frame_alloc (frames ks) = (fa', None)"
    | (copy) fa' f where "mtype a \<noteq> Shared" "frame_refs ks (tracker ?o) > 1" "frame_alloc (frames ks) = (fa', Some f)"
    by (cases "frame_alloc (frames ks)"; cases "snd (frame_alloc (frames ks))") fastforce+
  then show ?thesis
  proof cases
    case shared
    then show ?thesis using c segv_post [OF inv b] by (auto simp: cow_copy_def)
  next
    case sole
    then show ?thesis using c remap_post [OF inv b pg sole(2) nseg] by (auto simp: cow_copy_def)
  next
    case fail
    have "fa' = frames ks" using frame_alloc_spec [OF cow_invD(1) [OF inv] fail(3)] by simp
    then show ?thesis using c fail segv_post [OF inv b] by (auto simp: cow_copy_def)
  next
    case copy
    let ?ts = "(mtrackers a)[j := ?o\<lparr>tracker := f\<rparr>]"
    have a: "a \<in> set (pcb_memset b)" using i by simp
    have ts: "\<forall>t \<in> set ?ts. area_contains a (vaddr t)"
      using space_okD(5) [OF ok a] j(1) set_update_subset_insert [of "mtrackers a" j] by fastforce
    have R: "mset (tagged (mtype a) ?ts) + {#(?v, tracker ?o, mtype a)#} = mset (tagged (mtype a) (mtrackers a)) + {#(?v, f, mtype a)#}"
    proof -
      have "(?v, tracker ?o, mtype a) = tagged (mtype a) (mtrackers a) ! j" using j by (simp add: tagged_def)
      then have "(?v, tracker ?o, mtype a) \<in># mset (tagged (mtype a) (mtrackers a))" using j(1) by (simp add: tagged_def)
      from insert_DiffM [OF this] show ?thesis using j by (simp add: tagged_def map_update mset_update)
    qed
    have rep: "replaces ks (pcb_memset b) ?v (mtype a) (phys ks (tracker ?o)) {#(?v, tracker ?o, mtype a)#}"
      using pg copy(2) by (auto simp: replaces_def)
    have d: "length (phys ks (tracker ?o)) = PAGE_SIZE" using space_okD(7) [OF ok pages_held [OF pg]] cow_invD(4) [OF inv] by blast
    have inst: "install_page p f ?v (fault_flags a va) (set_area p i ?ts (set_phys f (phys ks (tracker ?o)) (ks\<lparr>frames := fa'\<rparr>))) = Ok ks'"
      using c copy by (simp add: cow_copy_def Let_def)
    show ?thesis by (rule fresh_page_post [OF inv b copy(3) i ts R rep d nseg inst])
  qed
qed

definition reads_fit :: "fread \<Rightarrow> bool" where
  "reads_fit rd \<longleftrightarrow> (\<forall>g off n bs. rd g off n = Ok bs \<longrightarrow> length bs \<le> n)"

lemma demand_page_post:
  assumes inv: "cow_inv ks" and b: "pcbs ks p = Some b" and i: "i < length (pcb_memset b)" "a = pcb_memset b ! i"
    and va: "area_contains a va" "page_floor va \<notin> vaddr ` set (mtrackers a)" and rd: "reads_fit rd"
    and nseg: "\<And>g fl. ptabs ks p (page_floor va) = Some (g, fl) \<Longrightarrow> g \<notin> seg_frames ks" and c: "demand_page rd ks t p i a va = Ok ks'"
  shows "fault_post ks p (page_floor va) (mtype a) ks'"
proof -
  let ?v = "page_floor va"
  note ok = cow_invD(5) [OF inv b]
  have a: "a \<in> set (pcb_memset b)" using i by simp
  have av: "area_contains a ?v" using page_floor_contains [OF va(1) space_okD(4) [OF ok a]] .
  have nv: "?v \<notin> fst ` set (vpages (pcb_memset b))"
  proof
    assume "?v \<in> fst ` set (vpages (pcb_memset b))"
    then obtain c t where t: "c \<in> set (pcb_memset b)" "t \<in> set (mtrackers c)" "vaddr t = ?v" by (auto simp: vpages_def)
    then obtain k where k: "k < length (pcb_memset b)" "pcb_memset b ! k = c" by (auto simp: in_set_conv_nth)
    have "k \<noteq> i" using t k i va(2) by force
    moreover have "area_contains c ?v" using space_okD(5) [OF ok t(1,2)] t(3) by simp
    ultimately have "2 \<le> cover (pcb_memset b) ?v" using cover_two [OF k(1) i(1)] k(2) i(2) av by blast
    then show False using space_okD(3) [OF ok, of ?v] by simp
  qed
  show ?thesis
  proof (cases "get_free_page_count (frames ks) < 10")
    case True
    then show ?thesis using c segv_post [OF inv b] by (auto simp: demand_page_def)
  next
    case False
    obtain fa' r where al: "frame_alloc (frames ks) = (fa', r)" by fastforce
    note fr = frame_alloc_spec [OF cow_invD(1) [OF inv] al]
    show ?thesis
    proof (cases r)
      case None
      then have "fa' = frames ks" using fr by simp
      then show ?thesis using c False al None segv_post [OF inv b] by (auto simp: demand_page_def)
    next
      case (Some f)
      let ?ts = "mtrackers a @ [\<lparr>vaddr = ?v, tracker = f, rwx = 7\<rparr>]"
      define d where "d = (case area_file a of
         Some g \<Rightarrow> (case rd g (uadd (offset a) (usub ?v (start a))) PAGE_SIZE of Ok bs \<Rightarrow> overwrite (phys ks f) 0 bs | _ \<Rightarrow> phys ks f)
       | None \<Rightarrow> phys ks f)"
      have "f \<in> managed_frames (frames ks)" using fr Some free_frames_managed by fastforce
      then have l: "length (phys ks f) = PAGE_SIZE" using cow_invD(4) [OF inv] by blast
      then have d: "length d = PAGE_SIZE" using rd by (auto simp: d_def reads_fit_def split: option.splits res.splits)
      have ts: "\<forall>t \<in> set ?ts. area_contains a (vaddr t)" using space_okD(5) [OF ok a] av by auto
      have R: "mset (tagged (mtype a) ?ts) + {#} = mset (tagged (mtype a) (mtrackers a)) + {#(?v, f, mtype a)#}"
        by (simp add: tagged_def)
      have rep: "replaces ks (pcb_memset b) ?v (mtype a) d {#}" using nv by (simp add: replaces_def)
      have inst: "install_page p f ?v (fault_flags a va) (set_area p i ?ts (set_phys f d (ks\<lparr>frames := fa'\<rparr>))) = Ok ks'"
        using c False al Some by (simp add: demand_page_def d_def Let_def)
      show ?thesis by (rule fresh_page_post [OF inv b al [unfolded Some] i ts R rep d nseg inst])
    qed
  qed
qed

lemma fault_in_area_post:
  assumes "cow_inv ks" "pcbs ks p = Some b" "i < length (pcb_memset b)" "area_contains (pcb_memset b ! i) va" "reads_fit rd"
    "\<And>g fl. ptabs ks p (page_floor va) = Some (g, fl) \<Longrightarrow> g \<notin> seg_frames ks"
    "fault_in_area rd ks t p i (pcb_memset b ! i) va = Ok ks'"
  shows "fault_post ks p (page_floor va) (mtype (pcb_memset b ! i)) ks'"
proof (cases "position (\<lambda>x. vaddr x = page_floor va) (mtrackers (pcb_memset b ! i))")
  case None
  then have "page_floor va \<notin> vaddr ` set (mtrackers (pcb_memset b ! i))" by (auto simp: position_None)
  with None assms show ?thesis using demand_page_post [of ks p b i "pcb_memset b ! i" va rd t ks'] by (simp add: fault_in_area_def)
next
  case (Some j)
  then have "j < length (mtrackers (pcb_memset b ! i))" "vaddr (mtrackers (pcb_memset b ! i) ! j) = page_floor va"
    by (auto simp: position_Some)
  with Some assms show ?thesis using cow_copy_post [of ks p b i "pcb_memset b ! i" j va t ks'] by (simp add: fault_in_area_def)
qed

section \<open>Stores\<close>

lemma user_write_isolated:
  assumes inv: "cow_inv ks" and b: "pcbs ks p = Some b" and pg: "(page_floor va, f, mt) \<in> set (vpages (pcb_memset b))" "unshared mt"
    and pt: "ptabs ks p (page_floor va) = Some (f, fl)" and w: "user_write ks p va v = Some ks'"
  shows "cow_inv ks' \<and> user_read ks' p va = Some v \<and>
    (\<forall>q va'. pcbs ks q \<noteq> None \<and> (q, va') \<noteq> (p, va) \<longrightarrow> user_read ks' q va' = user_read ks q va')"
proof -
  note ok = cow_invD(5) [OF inv b]
  have fl: "fl \<noteq> URX" and ks': "ks' = set_phys f ((phys ks f)[va mod PAGE_SIZE := v]) ks"
    using w pt by (auto simp: user_write_def split: if_splits)
  have fm: "f \<in> managed_frames (frames ks)" "f \<notin> seg_frames ks" using space_okD(7) [OF ok pages_held [OF pg(1)]] by blast+
  obtain mt' where mt': "(page_floor va, f, mt') \<in> set (vpages (pcb_memset b))" "unshared mt' \<longrightarrow> frame_refs ks f = 1"
    using space_okD(8) [OF ok pt] fl fm(2) by blast
  have "mt' = mt" using mt'(1) pg(1) space_okD(2) [OF ok] by (metis Pair_inject eq_key_imp_eq_value)
  then have sole: "frame_refs ks f = 1" using mt' pg(2) by simp
  have ln: "length (phys ks f) = PAGE_SIZE" using cow_invD(4) [OF inv fm(1)] .
  have m: "va' mod PAGE_SIZE < PAGE_SIZE" for va' by (simp add: PAGE_SIZE_def)
  have r: "frame_refs ks' g = frame_refs ks g" for g by (simp add: frame_refs_def ks')
  have "cow_inv ks'"
  proof (rule cow_inv_change [OF inv b])
    show "space_ok ks' p b" using ok unfolding space_ok_def r by (simp add: ks' seg_frames_def)
    show "pcbs ks' = (pcbs ks)(p \<mapsto> b)" using b by (auto simp: ks')
  qed (use cow_invD [OF inv] ln in \<open>auto simp: ks'\<close>)
  moreover have "user_read ks' p va = Some v" using pt ln m [of va] by (simp add: user_read_def ks')
  moreover have "user_read ks' q va' = user_read ks q va'" if q: "pcbs ks q \<noteq> None" "(q, va') \<noteq> (p, va)" for q va'
  proof (cases "ptabs ks q (page_floor va')")
    case (Some gl)
    obtain g l where gl: "gl = (g, l)" by fastforce
    obtain c where c: "pcbs ks q = Some c" using q(1) by blast
    show ?thesis
    proof (cases "g = f")
      case True
      then have e: "q = p" "page_floor va' = page_floor va"
        using sole_mapping [OF inv b pg(1) sole c, of "page_floor va'" l] Some gl by auto
      have "va' mod PAGE_SIZE \<noteq> va mod PAGE_SIZE"
      proof
        assume x: "va' mod PAGE_SIZE = va mod PAGE_SIZE"
        have "va' = page_floor va' + va' mod PAGE_SIZE" "va = page_floor va + va mod PAGE_SIZE" by (simp_all add: page_floor_def)
        then show False using x e q(2) by simp
      qed
      then show ?thesis using Some gl True by (simp add: user_read_def ks')
    qed (use Some gl in \<open>simp add: user_read_def ks'\<close>)
  qed (simp add: user_read_def ks')
  ultimately show ?thesis by blast
qed

text \<open>
  C1: processes are isolated.  A store of a process to a page of a private area, with the page
  fault it may cause handled by copying a shared page or by allocating a new one, is seen
  at that address by that process and changes no other byte that any process can read.  The
  invariant that makes this so holds again afterwards.
\<close>

theorem private_stores_are_isolated:
  assumes "cow_inv ks" "tasks ks t = Some self" "process_id self = p" "pcbs ks p = Some b" "reads_fit rd"
    "a \<in> set (pcb_memset b)" "area_contains a va" "unshared (mtype a)"
    "\<forall>f fl. ptabs ks p (page_floor va) = Some (f, fl) \<longrightarrow> f \<notin> seg_frames ks"
    "store rd sz ks t p va v tls = Some ks'"
  shows "cow_inv ks' \<and> user_read ks' p va = Some v \<and>
    (\<forall>q va'. pcbs ks q \<noteq> None \<and> (q, va') \<noteq> (p, va) \<and> user_read ks q va' \<noteq> None \<longrightarrow> user_read ks' q va' = user_read ks q va')"
proof -
  have nseg: "\<And>f fl. ptabs ks p (page_floor va) = Some (f, fl) \<Longrightarrow> f \<notin> seg_frames ks" using assms(9) by blast
  note ok = cow_invD(5) [OF assms(1,4)] and fl = page_floor_contains [OF assms(7) space_okD(4) [OF cow_invD(5) [OF assms(1,4)] assms(6)]]
  obtain k where k: "k < length (pcb_memset b)" "pcb_memset b ! k = a" using assms(6) by (auto simp: in_set_conv_nth)
  have uniq: "i = k" if "i < length (pcb_memset b)" "area_contains (pcb_memset b ! i) w" "area_contains a w" for i w
    using cover_two [OF that(1) k(1) _ that(2)] space_okD(3) [OF ok, of w] that(3) k(2) by fastforce
  show ?thesis
  proof (cases "user_write ks p va v")
    case (Some k1)
    then obtain f l where f: "ptabs ks p (page_floor va) = Some (f, l)" by (auto simp: user_write_def split: option.splits)
    obtain mt where mt: "(page_floor va, f, mt) \<in> set (vpages (pcb_memset b))" using space_okD(8) [OF ok f] nseg [OF f] by blast
    then obtain x u where x: "x \<in> set (pcb_memset b)" "u \<in> set (mtrackers x)" "vaddr u = page_floor va" "mt = mtype x"
      by (auto simp: vpages_def)
    then obtain i where i: "i < length (pcb_memset b)" "pcb_memset b ! i = x" by (auto simp: in_set_conv_nth)
    have "area_contains x (page_floor va)" using space_okD(5) [OF ok x(1,2)] x(3) by simp
    then have "mt = mtype a" using uniq [OF i(1) _ fl] i(2) k(2) x(4) by auto
    then show ?thesis
      using user_write_isolated [OF assms(1,4) mt _ f, of v k1] Some assms(8,10) by (simp add: store_def)
  next
    case None
    then obtain k1 tls' where k1: "user_cow_int rd sz ks t va tls = Ok (k1, tls')" "user_write k1 p va v = Some ks'"
      using assms(10) by (auto simp: store_def split: res.splits)
    have "\<exists>x \<in> set (pcb_memset b). area_contains x va" using assms(6,7) by blast
    then obtain i where i: "position (\<lambda>x. area_contains x va) (pcb_memset b) = Some i"
      by (cases "position (\<lambda>x. area_contains x va) (pcb_memset b)") (auto simp: position_None)
    then have i': "i < length (pcb_memset b)" "area_contains (pcb_memset b ! i) va" by (auto simp: position_Some)
    then have a: "pcb_memset b ! i = a" using uniq [OF _ _ assms(7)] k(2) by blast
    have "fault_in_area rd ks t p i (pcb_memset b ! i) va = Ok k1"
      using k1(1) i assms(2-4) by (auto simp: user_cow_int_def rmap_eq_Ok)
    from fault_in_area_post [OF assms(1,4) i' assms(5) nseg this] have fp: "fault_post ks p (page_floor va) (mtype a) k1" unfolding a .
    have ne: "ptabs k1 p (page_floor va) \<noteq> ptabs ks p (page_floor va)"
      using None k1(2) by (auto simp: user_write_def split: option.splits if_splits)
    then obtain f l b1 where f: "ptabs k1 p (page_floor va) = Some (f, l)" "pcbs k1 p = Some b1"
      "(page_floor va, f, mtype a) \<in> set (vpages (pcb_memset b1))" and inv1: "cow_inv k1"
      using fp unfolding fault_post_def by blast
    from user_write_isolated [OF inv1 f(2,3) assms(8) f(1) k1(2)]
    have w: "cow_inv ks'" "user_read ks' p va = Some v"
      "\<And>q va'. pcbs k1 q \<noteq> None \<Longrightarrow> (q, va') \<noteq> (p, va) \<Longrightarrow> user_read ks' q va' = user_read k1 q va'" by blast+
    have "pcbs k1 q \<noteq> None \<longleftrightarrow> pcbs ks q \<noteq> None" for q using fp unfolding fault_post_def by blast
    then show ?thesis using w fp unfolding fault_post_def by metis
  qed
qed

section \<open>Fork\<close>

lemma map_all_lookup:
  assumes "map_all fl ms p = Ok p'"
  shows "p' v = p v \<and> v \<notin> fst ` set ms \<or> (\<exists>f. (v, f) \<in> set ms \<and> p' v = Some (f, fl))"
  using assms
proof (induction ms arbitrary: p)
  case (Cons m ms)
  obtain va pa where m: "m = (va, pa)" by fastforce
  with Cons.prems have "map_all fl ms (p(va \<mapsto> (pa, fl))) = Ok p'"
    by (auto simp: map_page_def rbind_eq_Ok split: if_splits)
  from Cons.IH [OF this] show ?case using m by (auto split: if_splits)
qed simp

lemma map_all_tagged:
  assumes "map_all fl (map (\<lambda>t. (vaddr t, tracker t)) ts) p = Ok p'" "distinct (map vaddr ts)"
  shows "(v, f, mt) \<in> set (tagged mt ts) \<Longrightarrow> p' v = Some (f, fl)" "v \<notin> fst ` set (tagged mt ts) \<Longrightarrow> p' v = p v"
proof -
  note l = map_all_lookup [OF assms(1), of v]
  show "p' v = Some (f, fl)" if "(v, f, mt) \<in> set (tagged mt ts)"
  proof -
    from that obtain t where t: "t \<in> set ts" "vaddr t = v" "tracker t = f" by (auto simp: tagged_def)
    then have "v \<in> fst ` set (map (\<lambda>t. (vaddr t, tracker t)) ts)" by force
    with l obtain u where u: "u \<in> set ts" "vaddr u = v" "p' v = Some (tracker u, fl)" by auto
    then have "u = t" using assms(2) t by (metis distinct_map inj_onD)
    with u t show ?thesis by simp
  qed
  show "p' v = p v" if "v \<notin> fst ` set (tagged mt ts)"
    using l that by (force simp: tagged_def)
qed

lemma fork_areas_lookup:
  assumes "fork_areas as (c, p) = Ok (c', p')" "distinct (map fst (vpages as))"
  shows "((v, f, mt) \<in> set (vpages as) \<longrightarrow> c' v = Some (f, fork_flags mt) \<and> p' v = Some (f, fork_flags mt)) \<and>
    (v \<notin> fst ` set (vpages as) \<longrightarrow> c' v = c v \<and> p' v = p v)"
  using assms
proof (induction as arbitrary: c p)
  case (Cons a as)
  let ?ms = "map (\<lambda>t. (vaddr t, tracker t)) (mtrackers a)" and ?T = "tagged (mtype a) (mtrackers a)"
  from Cons.prems(1) obtain c1 p1 where 1: "map_all (fork_flags (mtype a)) ?ms c = Ok c1" "map_all (fork_flags (mtype a)) ?ms p = Ok p1"
    "fork_areas as (c1, p1) = Ok (c', p')" by (auto simp: rbind_eq_Ok Let_def)
  have V: "vpages (a # as) = ?T @ vpages as" by (simp add: vpages_tagged)
  have "map vaddr (mtrackers a) = map fst ?T" by (simp add: tagged_def)
  then have d: "distinct (map vaddr (mtrackers a))" "distinct (map fst (vpages as))" "fst ` set ?T \<inter> fst ` set (vpages as) = {}"
    using Cons.prems(2) by (simp_all add: V)
  note mc = map_all_tagged [OF 1(1) d(1), where mt = "mtype a"] and mp = map_all_tagged [OF 1(2) d(1), where mt = "mtype a"]
  note IH = Cons.IH [OF 1(3) d(2)]
  show ?case
  proof (intro conjI impI)
    assume "(v, f, mt) \<in> set (vpages (a # as))"
    then consider "(v, f, mt) \<in> set ?T" | "(v, f, mt) \<in> set (vpages as)" by (auto simp: V)
    then have "c' v = Some (f, fork_flags mt) \<and> p' v = Some (f, fork_flags mt)"
    proof cases
      case 1
      then have "mt = mtype a" "v \<notin> fst ` set (vpages as)" using d(3) by (force simp: tagged_def)+
      then show ?thesis using IH mc(1) mp(1) 1 by simp
    qed (use IH in simp)
    then show "c' v = Some (f, fork_flags mt)" "p' v = Some (f, fork_flags mt)" by auto
  next
    assume "v \<notin> fst ` set (vpages (a # as))"
    then have n: "v \<notin> fst ` set ?T" "v \<notin> fst ` set (vpages as)" by (auto simp: V)
    show "c' v = c v" "p' v = p v" using IH mc(2) [OF n(1)] mp(2) [OF n(1)] n(2) by auto
  qed
qed (simp add: vpages_def)

lemma cow_fork_memory:
  assumes "cow_fork ks t home tty cx0 = Ok (ks', new)" "last_id (exec ks) + 1 < USIZE" "tasks ks t = Some self"
    "process_id self = p" "pcbs ks p = Some b" "p \<noteq> last_id (exec ks) + 1"
  obtains cpt ppt nb cpt' where "fork_areas (pcb_memset b) (Map.empty, ptabs ks p) = Ok (cpt, ppt)"
    "map_all URWX (shm_pages ks (pcb_shms b)) cpt = Ok cpt'" "new = last_id (exec ks) + 1" "last_id (exec ks') = new"
    "pcbs ks' = (pcbs ks)(new \<mapsto> nb, p \<mapsto> b\<lparr>children := children b @ [new]\<rparr>)" "pcb_memset nb = pcb_memset b" "pcb_shms nb = pcb_shms b"
    "ptabs ks' = (ptabs ks)(p := ppt, new := cpt')" "frames ks' = frames ks" "phys ks' = phys ks"
    "shared_mem ks' = shared_mem ks" "cached ks' = cached ks"
proof -
  have id: "task_id_alloc (exec ks) = ((exec ks)\<lparr>last_id := last_id (exec ks) + 1\<rparr>, last_id (exec ks) + 1)"
    using assms(2) by (simp add: task_id_alloc_def uadd_le)
  obtain h where h: "home = Some h" using assms(1,3-5) by (cases home) (auto simp: cow_fork_def task_new_def id)
  obtain cpt ppt cpt' where f: "fork_areas (pcb_memset b) (Map.empty, ptabs ks p) = Ok (cpt, ppt)"
    "map_all URWX (shm_pages ks (pcb_shms b)) cpt = Ok cpt'"
    using assms(1,3-5) h by (auto simp: cow_fork_def task_new_def id rbind_eq_Ok)
  define new' where "new' = last_id (exec ks) + 1"
  define nb where "nb = (pcb_new tty h)\<lparr>threads := [new'], pcb_fds := pcb_fds b, pcb_heap := pcb_heap b,
    pcb_curr_dir := pcb_curr_dir b, pcb_shms := pcb_shms b, pcb_memset := pcb_memset b\<rparr>"
  have r: "new = new'" "last_id (exec ks') = new'" "ptabs ks' = (ptabs ks)(p := ppt, new' := cpt')" "frames ks' = frames ks"
    "phys ks' = phys ks" "shared_mem ks' = shared_mem ks" "cached ks' = cached ks"
    "pcbs ks' = (pcbs ks)(new' \<mapsto> nb, p \<mapsto> b\<lparr>children := children b @ [new']\<rparr>)"
    using assms f h by (auto simp: cow_fork_def task_new_def id Let_def nb_def new'_def fun_eq_iff)
  show ?thesis
    by (rule that [OF f, of nb]) (use r in \<open>simp_all add: nb_def new'_def\<close>)
qed

lemma shm_pages_seg:
  assumes "(v, f) \<in> set (shm_pages ks shs)" "\<forall>s \<in> set shs. shm_mem s < length (shared_mem ks)"
  shows "f \<in> seg_frames ks"
proof -
  from assms(1) obtain s where s: "s \<in> set shs" "f \<in> set (shm_trackers (shared_mem ks ! shm_mem s))"
    by (auto simp: shm_pages_def in_set_enumerate_eq)
  then show ?thesis using assms(2) by (force simp: seg_frames_def)
qed

lemma fork_refs:
  assumes "cow_inv ks" "pcbs ks p = Some b" "new = last_id (exec ks) + 1" "last_id (exec ks') = new"
    "pcbs ks' = (pcbs ks)(new \<mapsto> nb, p \<mapsto> b\<lparr>children := cs\<rparr>)" "pcb_memset nb = pcb_memset b"
    "shared_mem ks' = shared_mem ks" "cached ks' = cached ks"
  shows "frame_refs ks' f = frame_refs ks f + count_list (held (pcb_memset b)) f"
proof -
  have p: "p \<le> last_id (exec ks)" using space_okD(1) [OF cow_invD(5) [OF assms(1,2)]] .
  have "proc_refs ks' f q = proc_refs ks f q" if "q \<le> last_id (exec ks)" for q
    using that assms(2,3,5) by (auto simp: proc_refs_def)
  then have "(\<Sum>q \<le> last_id (exec ks). proc_refs ks' f q) = (\<Sum>q \<le> last_id (exec ks). proc_refs ks f q)"
    by (intro sum.cong) auto
  moreover have "proc_refs ks' f (Suc (last_id (exec ks))) = count_list (held (pcb_memset b)) f"
    using p assms(3,5,6) by (simp add: proc_refs_def)
  ultimately show ?thesis using assms(3,4,7,8) by (simp add: frame_refs_sum)
qed

lemma cow_fork_inv:
  assumes inv: "cow_inv ks" and t: "tasks ks t = Some self" "process_id self = p" "pcbs ks p = Some b" "last_id (exec ks) + 1 < USIZE"
    and f: "cow_fork ks t home tty cx0 = Ok (ks', new)"
  shows "cow_inv ks'"
proof -
  note ok = cow_invD(5) [OF inv t(3)]
  have ne: "p \<noteq> last_id (exec ks) + 1" using space_okD(1) [OF ok] by simp
  obtain cpt ppt nb cpt' where k: "fork_areas (pcb_memset b) (Map.empty, ptabs ks p) = Ok (cpt, ppt)"
    "map_all URWX (shm_pages ks (pcb_shms b)) cpt = Ok cpt'" "new = last_id (exec ks) + 1" "last_id (exec ks') = new"
    "pcbs ks' = (pcbs ks)(new \<mapsto> nb, p \<mapsto> b\<lparr>children := children b @ [new]\<rparr>)" "pcb_memset nb = pcb_memset b" "pcb_shms nb = pcb_shms b"
    "ptabs ks' = (ptabs ks)(p := ppt, new := cpt')" "frames ks' = frames ks" "phys ks' = phys ks"
    "shared_mem ks' = shared_mem ks" "cached ks' = cached ks" by (rule cow_fork_memory [OF f t(4,1,2,3) ne])
  note look = fork_areas_lookup [OF k(1) space_okD(2) [OF ok]]
  have refs: "frame_refs ks' f = frame_refs ks f + count_list (held (pcb_memset b)) f" for f
    by (rule fork_refs [OF inv t(3) k(3,4,5,6,11,12)])
  have seg: "seg_frames ks' = seg_frames ks" by (simp add: seg_frames_def k)
  have ff: "unshared mt \<longrightarrow> fork_flags mt = URX" for mt by (simp add: unshared_def fork_flags_def)
  have "space_ok ks' q c" if q: "pcbs ks' q = Some c" for q c
  proof -
    consider (self) "q = p" "c = b\<lparr>children := children b @ [new]\<rparr>" | (new) "q = new" "q \<noteq> p" "c = nb" | (other) "q \<noteq> p" "q \<noteq> new" "pcbs ks q = Some c"
      using q k(5) by (auto split: if_splits)
    then show ?thesis
    proof cases
      case self
      have pt: "ptabs ks' p = ppt" using ne k(3,8) by simp
      have "f \<in> seg_frames ks \<and> fl \<noteq> URX \<or> (\<exists>mt. (v, f, mt) \<in> set (vpages (pcb_memset b)) \<and> (fl \<noteq> URX \<and> unshared mt \<longrightarrow> frame_refs ks' f = 1))"
        if "ppt v = Some (f, fl)" for v f fl
      proof (cases "v \<in> fst ` set (vpages (pcb_memset b))")
        case True
        then obtain g mt where g: "(v, g, mt) \<in> set (vpages (pcb_memset b))" by auto
        then have "ppt v = Some (g, fork_flags mt)" using look [of v g mt] by blast
        with that ff [of mt] g show ?thesis by auto
      next
        case False
        then have "ptabs ks p v = Some (f, fl)" using look that by simp
        from space_okD(8) [OF ok this] False show ?thesis by force
      qed
      then show ?thesis using ok k(3,4,9,11) pt self unfolding space_ok_def seg by auto
    next
      case new
      have "f \<in> seg_frames ks \<and> fl \<noteq> URX \<or> (\<exists>mt. (v, f, mt) \<in> set (vpages (pcb_memset b)) \<and> (fl \<noteq> URX \<and> unshared mt \<longrightarrow> frame_refs ks' f = 1))"
        if pt: "cpt' v = Some (f, fl)" for v f fl
      proof -
        consider "cpt v = Some (f, fl)" | "(v, f) \<in> set (shm_pages ks (pcb_shms b))" "fl = URWX"
          using map_all_lookup [OF k(2), of v] pt by auto
        then show ?thesis
        proof cases
          case 1
          then have "v \<in> fst ` set (vpages (pcb_memset b))" using look by fastforce
          then obtain g mt where g: "(v, g, mt) \<in> set (vpages (pcb_memset b))" by auto
          then have "cpt v = Some (g, fork_flags mt)" using look [of v g mt] by blast
          with 1 ff [of mt] g show ?thesis by auto
        next
          case 2
          then have "f \<in> seg_frames ks" using shm_pages_seg space_okD(6) [OF ok] by blast
          then show ?thesis using 2 by simp
        qed
      qed
      then show ?thesis using ok k(3,4,6-9,11) new unfolding space_ok_def seg by auto
    next
      case other
      note okq = cow_invD(5) [OF inv other(3)]
      have r: "frame_refs ks' f = 1" if "f \<in> set (held (pcb_memset c))" "frame_refs ks f = 1" for f
      proof -
        have "0 < proc_refs ks f q" using that(1) other(3) by (auto simp: proc_refs_Some count_list_0_iff intro!: gr0I)
        then have "proc_refs ks f p = 0"
          using frame_refs_two [OF space_okD(1) [OF ok] space_okD(1) [OF okq], of f] other(1) that(2) by simp
        then show ?thesis using refs [of f] that(2) t(3) by (simp add: proc_refs_Some)
      qed
      have "f \<in> seg_frames ks \<and> fl \<noteq> URX \<or> (\<exists>mt. (v, f, mt) \<in> set (vpages (pcb_memset c)) \<and> (fl \<noteq> URX \<and> unshared mt \<longrightarrow> frame_refs ks' f = 1))"
        if "ptabs ks' q v = Some (f, fl)" for v f fl
        using space_okD(8) [OF okq, of v f fl] that other(1,2) k(8) r pages_held by fastforce
      then show ?thesis using okq k(3,4,9,11) unfolding space_ok_def seg by auto
    qed
  qed
  then show ?thesis using inv unfolding cow_inv_def seg k(9,10,12) by blast
qed

text \<open>
  C2: \<^verbatim>\<open>fork\<close> gives the child a snapshot.  Every byte the parent could read in the pages of its
  areas has the same value for the child and, still, for the parent; no other process sees
  a change; and the isolation of private pages holds in the new state, so what either of
  them stores there later stays its own.
\<close>

theorem fork_gives_a_snapshot:
  assumes "cow_inv ks" "tasks ks t = Some self" "process_id self = p" "pcbs ks p = Some b" "last_id (exec ks) + 1 < USIZE"
    "cow_fork ks t home tty cx0 = Ok (ks', new)"
  shows "cow_inv ks' \<and>
    (\<forall>va f fl. ptabs ks p (page_floor va) = Some (f, fl) \<and> f \<notin> seg_frames ks \<and>
       page_floor va \<notin> fst ` set (shm_pages ks (pcb_shms b)) \<longrightarrow>
       user_read ks' new va = user_read ks p va \<and> user_read ks' p va = user_read ks p va) \<and>
    (\<forall>q va. q \<noteq> p \<and> q \<noteq> new \<longrightarrow> user_read ks' q va = user_read ks q va)"
proof -
  note ok = cow_invD(5) [OF assms(1,4)]
  have ne: "p \<noteq> last_id (exec ks) + 1" using space_okD(1) [OF ok] by simp
  obtain cpt ppt nb cpt' where k: "fork_areas (pcb_memset b) (Map.empty, ptabs ks p) = Ok (cpt, ppt)"
    "map_all URWX (shm_pages ks (pcb_shms b)) cpt = Ok cpt'" "new = last_id (exec ks) + 1" "last_id (exec ks') = new"
    "pcbs ks' = (pcbs ks)(new \<mapsto> nb, p \<mapsto> b\<lparr>children := children b @ [new]\<rparr>)" "pcb_memset nb = pcb_memset b" "pcb_shms nb = pcb_shms b"
    "ptabs ks' = (ptabs ks)(p := ppt, new := cpt')" "frames ks' = frames ks" "phys ks' = phys ks"
    "shared_mem ks' = shared_mem ks" "cached ks' = cached ks" by (rule cow_fork_memory [OF assms(6,5,2,3,4) ne])
  note look = fork_areas_lookup [OF k(1) space_okD(2) [OF ok]]
  have "user_read ks' new va = user_read ks p va \<and> user_read ks' p va = user_read ks p va"
    if pt: "ptabs ks p (page_floor va) = Some (f, fl)" "f \<notin> seg_frames ks" "page_floor va \<notin> fst ` set (shm_pages ks (pcb_shms b))" for va f fl
  proof -
    obtain mt where mt: "(page_floor va, f, mt) \<in> set (vpages (pcb_memset b))" using space_okD(8) [OF ok pt(1)] pt(2) by blast
    have "cpt' (page_floor va) = cpt (page_floor va)" using map_all_lookup [OF k(2), of "page_floor va"] pt(3) by force
    with look [of "page_floor va" f mt] mt show ?thesis
      using pt(1) ne k(3,8,10) by (simp add: user_read_def)
  qed
  moreover have "user_read ks' q va = user_read ks q va" if "q \<noteq> p" "q \<noteq> new" for q va
    using that k(8,10) by (simp add: user_read_def)
  ultimately show ?thesis using cow_fork_inv [OF assms] by blast
qed

section \<open>A concrete address space\<close>

definition demo_area :: MemArea where
  "demo_area = \<lparr>mtype = Mmap, mtrackers = [\<lparr>vaddr = 0x40000000, tracker = 0x1000, rwx = 7\<rparr>], area_file = None, offset = 0,
     start = 0x40000000, len = 0x2000\<rparr>"

definition demo_frames :: FrameAllocator where
  "demo_frames = [\<lparr>bits = [1], paddr = 0x1000, paddr_end = 0x41000\<rparr>]"

definition one_page :: KState where
  "one_page = (boot_state 0 0 demo_frames)\<lparr>
     pcbs := [1 \<mapsto> (pcb_new 0 0)\<lparr>threads := [1], pcb_memset := [demo_area]\<rparr>],
     ptabs := (\<lambda>_. Map.empty)(1 := [0x40000000 \<mapsto> (0x1000, URWX)])\<rparr>"

lemma demo_frames_facts: "fa_wf demo_frames" "0x1000 \<in> managed_frames demo_frames" "0x1000 \<notin> free_frames demo_frames"
proof -
  let ?m = "\<lparr>bits = [0], paddr = 0x1000, paddr_end = 0x41000\<rparr>"
  have wf: "fa_wf [?m]" by (simp add: frame_wf_eval)
  have a: "frame_alloc [?m] = (demo_frames, Some 0x1000)" by (simp add: frame_eval demo_frames_def)
  note f = frame_alloc_spec [OF wf a]
  show "fa_wf demo_frames" "0x1000 \<notin> free_frames demo_frames" using f by auto
  show "0x1000 \<in> managed_frames demo_frames" using f free_frames_managed [of "[?m]"] by auto
qed

lemma one_page_simps:
  "exec one_page = spawn ((exec_init exec_new 1)\<lparr>last_id := 1\<rparr>) 1 ()" "last_id (exec one_page) = 1" "frames one_page = demo_frames"
  "tasks one_page = [1 \<mapsto> \<lparr>process_id = 1, parent = None, tcb = tcb_new (\<lambda>_. 0) 0\<rparr>]"
  "pcbs one_page = [1 \<mapsto> (pcb_new 0 0)\<lparr>threads := [1], pcb_memset := [demo_area]\<rparr>]" "phys one_page = (\<lambda>_. zero_page)"
  "ptabs one_page = (\<lambda>_. Map.empty)(1 := [0x40000000 \<mapsto> (0x1000, URWX)])" "shared_mem one_page = []" "cached one_page = []"
  by (simp_all add: one_page_def boot_state_def spawn_def)

lemma demo_vpages: "vpages [demo_area] = [(0x40000000, 0x1000, Mmap)]" "held [demo_area] = [0x1000]"
  by (simp_all add: vpages_def demo_area_def held_def trackers_def)

lemma one_page_inv: "cow_inv one_page"
proof -
  have r: "frame_refs one_page 0x1000 = 1" by (simp add: frame_refs_def one_page_simps(2-) demo_vpages)
  have "space_ok one_page 1 ((pcb_new 0 0)\<lparr>threads := [1], pcb_memset := [demo_area]\<rparr>)"
    using demo_frames_facts r
    by (simp add: space_ok_def one_page_simps(2-) demo_vpages seg_frames_def pcb_new_def)
      (simp add: demo_area_def area_contains_def PAGE_SIZE_def)
  then show ?thesis
    using demo_frames_facts by (auto simp: cow_inv_def one_page_simps seg_frames_def zero_page_def split: if_splits)
qed

theorem private_stores_are_isolated_witness:
  "\<exists>ks'. store (\<lambda>_ _ _. Ok []) (\<lambda>_. Ok 0) one_page 1 1 0x40000005 7 (0, 0) = Some ks' \<and> user_read ks' 1 0x40000005 = Some 7 \<and>
     user_read ks' 1 0x40000006 = user_read one_page 1 0x40000006"
proof -
  let ?b = "(pcb_new 0 0)\<lparr>threads := [1], pcb_memset := [demo_area]\<rparr>"
  have fl: "page_floor 0x40000005 = 0x40000000" "page_floor 0x40000006 = 0x40000000" by (simp_all add: page_floor_def PAGE_SIZE_def)
  obtain ks' where s: "store (\<lambda>_ _ _. Ok []) (\<lambda>_. Ok 0) one_page 1 1 0x40000005 7 (0, 0) = Some ks'"
    by (simp add: store_def user_write_def fl one_page_simps)
  have u: "user_read one_page 1 0x40000006 \<noteq> None" by (simp add: user_read_def fl one_page_simps)
  have "cow_inv ks' \<and> user_read ks' 1 0x40000005 = Some 7 \<and>
    (\<forall>q va'. pcbs one_page q \<noteq> None \<and> (q, va') \<noteq> (1, 0x40000005) \<and> user_read one_page q va' \<noteq> None \<longrightarrow>
       user_read ks' q va' = user_read one_page q va')"
    by (rule private_stores_are_isolated [OF one_page_inv _ _ _ _ _ _ _ _ s, of "\<lparr>process_id = 1, parent = None, tcb = tcb_new (\<lambda>_. 0) 0\<rparr>" ?b demo_area])
      (simp_all add: one_page_simps reads_fit_def demo_area_def area_contains_def unshared_def seg_frames_def)
  moreover have "pcbs one_page 1 \<noteq> None" by (simp add: one_page_simps)
  moreover have "(1::nat, 0x40000006::nat) \<noteq> (1, 0x40000005)" by simp
  ultimately show ?thesis using s u by blast
qed

theorem fork_gives_a_snapshot_witness:
  "\<exists>ks'. cow_fork one_page 1 (Some 0) 0 (\<lambda>_. 0) = Ok (ks', 2) \<and> cow_inv ks' \<and> user_read ks' 2 0x40000005 = Some 0"
proof -
  let ?b = "(pcb_new 0 0)\<lparr>threads := [1], pcb_memset := [demo_area]\<rparr>"
  have fl: "page_floor 0x40000005 = 0x40000000" by (simp add: page_floor_def PAGE_SIZE_def)
  obtain ks' where s: "cow_fork one_page 1 (Some 0) 0 (\<lambda>_. 0) = Ok (ks', 2)"
    by (simp add: cow_fork_def one_page_simps spawn_def exec_init_def exec_new_def task_new_def task_id_alloc_def uadd_def USIZE_def
        demo_area_def map_page_def PAGE_SIZE_def shm_pages_def pcb_new_def Let_def)
  have "cow_inv ks' \<and>
    (\<forall>va f fl. ptabs one_page 1 (page_floor va) = Some (f, fl) \<and> f \<notin> seg_frames one_page \<and>
       page_floor va \<notin> fst ` set (shm_pages one_page (pcb_shms ?b)) \<longrightarrow>
       user_read ks' 2 va = user_read one_page 1 va \<and> user_read ks' 1 va = user_read one_page 1 va) \<and>
    (\<forall>q va. q \<noteq> 1 \<and> q \<noteq> 2 \<longrightarrow> user_read ks' q va = user_read one_page q va)"
    by (rule fork_gives_a_snapshot [OF one_page_inv _ _ _ _ s, of "\<lparr>process_id = 1, parent = None, tcb = tcb_new (\<lambda>_. 0) 0\<rparr>"])
      (simp_all add: one_page_simps(2-) USIZE_def)
  moreover have "ptabs one_page 1 (page_floor 0x40000005) = Some (0x1000, URWX)" by (simp add: fl one_page_simps)
  moreover have "0x1000 \<notin> seg_frames one_page" "page_floor 0x40000005 \<notin> fst ` set (shm_pages one_page (pcb_shms ?b))"
    by (simp_all add: seg_frames_def one_page_simps shm_pages_def pcb_new_def)
  ultimately have "cow_inv ks'" "user_read ks' 2 0x40000005 = user_read one_page 1 0x40000005" by blast+
  moreover have "user_read one_page 1 0x40000005 = Some 0"
    by (simp add: user_read_def fl one_page_simps zero_page_def PAGE_SIZE_def)
  ultimately show ?thesis using s by auto
qed

section \<open>Growing the heap\<close>

text \<open>
  Growth maps fresh pages without looking at what is there: a fault in the heap region maps
  twelve pages from the faulting one on, and each of them afterwards holds a frame that
  was free, also where the process had a page.
\<close>

lemma growth_takes_over_pages:
  assumes "fa_wf (frames ks)" "pcbs ks p = Some b" "PAGE_SIZE dvd va" "va \<noteq> 0" "0 < n" "grow ks p va Mmap n = Ok (ks', Some r)" "i < n"
  shows "\<exists>f \<in> free_frames (frames ks). ptabs ks' p (va + i * PAGE_SIZE) = Some (f, URWX)"
proof -
  let ?m = "mem_view ks p b"
  have "fa_wf (fa ?m)" using assms(1) by (simp add: mem_view_def)
  from task_frame_alloc_post [OF this assms(3,4,5), of Mmap] obtain ms r' where
    t: "task_frame_alloc ?m va Mmap n = Ok (ms, r')" "frame_alloc_post ?m va Mmap n ms r'" by auto
  then have r': "r' = Some r" using assms(2,6) by (auto simp: grow_def Let_def)
  with t(2) obtain ts where ts: "fresh_trackers (frames ks) (fa ms) va n ts" "\<forall>x \<in> set ts. pt ms (vaddr x) = Some (tracker x)"
    by (auto simp: frame_alloc_post_def mem_view_def)
  have "va + i * PAGE_SIZE \<in> set (map vaddr ts)" using ts(1) assms(7) by (auto simp: fresh_trackers_def)
  then obtain x where x: "x \<in> set ts" "vaddr x = va + i * PAGE_SIZE" by auto
  have "tracker x \<in> free_frames (frames ks)" using ts(1) x(1) by (auto simp: fresh_trackers_def)
  moreover have "ptabs ks' p (va + i * PAGE_SIZE) = Some (tracker x, URWX)"
  proof -
    have "pt ms (va + i * PAGE_SIZE) = Some (tracker x)" using ts(2) x by metis
    moreover have "va + i * PAGE_SIZE \<in> (\<lambda>x. va + x * PAGE_SIZE) ` {0..<n}" by (rule image_eqI [of _ _ i]) (use assms(7) in simp_all)
    ultimately show ?thesis using assms(2,4,6) t(1) r' by (auto simp: grow_def Let_def alloc_flags_def)
  qed
  ultimately show ?thesis by blast
qed

end
