(* ===== verification/Signal_Delivery.thy ===== *)
theory Signal_Delivery
  imports Page_Fault
begin

text \<open>
  Running signal handlers, \<^verbatim>\<open>handle_signal\<close> of \<^verbatim>\<open>kernel/src/user/signal.rs\<close> (the variant without
  the LoongArch trampoline) with the context of \<^verbatim>\<open>kernel/src/syscall/types/signal.rs\<close> for
  riscv64, and \<^verbatim>\<open>sys_sigreturn\<close>.  The function has two parts: up to the first instruction of the
  user's handler, and from its return on; between them the handler runs as user code.
\<close>

section \<open>The saved context\<close>

text \<open>The registers except the program counter, which has its own field, and the signal mask.\<close>

record SignalUserContext =
  uc_regs :: TrapFrame
  uc_pc :: usize
  uc_sig_mask :: SigProcMask

definition store_ctx :: "TrapFrame \<Rightarrow> SignalUserContext \<Rightarrow> SignalUserContext" where
  "store_ctx c uc = uc\<lparr>uc_regs := c\<rparr>"

definition set_pc :: "usize \<Rightarrow> SignalUserContext \<Rightarrow> SignalUserContext" where
  "set_pc v uc = uc\<lparr>uc_pc := v\<rparr>"

definition restore_ctx :: "SignalUserContext \<Rightarrow> TrapFrame \<Rightarrow> TrapFrame" where
  "restore_ctx uc c = (uc_regs uc)(SEPC := c SEPC)"

text \<open>The size of the context structure on riscv64.\<close>

definition UC_SIZE :: nat where
  "UC_SIZE = 960"

section \<open>Starting a handler\<close>

definition default_terminates :: "u64 \<Rightarrow> bool" where
  "default_terminates sg \<longleftrightarrow> sg \<in> {SIGCANCEL, SIGSEGV, SIGILL, SIGABRT, SIGQUIT, SIGTERM, SIGHUP, SIGINT, SIGPIPE, SIGALRM,
     SIGFPE, SIGBUS, SIGTRAP, SIGXCPU, SIGXFSZ, SIGVTALRM, SIGPROF}"

definition in_code :: "MemArea list \<Rightarrow> usize \<Rightarrow> bool" where
  "in_code ms addr \<longleftrightarrow> (\<exists>a \<in> set ms. area_contains a addr \<and> mtype a \<in> {Mmap, Stack, CodeSection})"

definition in_stack :: "MemArea list \<Rightarrow> usize \<Rightarrow> bool" where
  "in_stack ms sp \<longleftrightarrow> (\<exists>a \<in> set ms. area_contains a sp \<and> area_contains a (uadd sp UC_SIZE) \<and> mtype a \<in> {Stack, Mmap})"

definition user_addr :: "usize \<Rightarrow> usize \<Rightarrow> bool" where
  "user_addr low a \<longleftrightarrow> low \<le> a \<and> a < 0x800000000000"

text \<open>The delivery is over, or the handler runs with the mask, registers and context that were saved.\<close>

datatype delivery = Delivered KState | InHandler KState SigProcMask TrapFrame usize SignalUserContext

definition set_sigmask :: "nat \<Rightarrow> SigProcMask \<Rightarrow> KState \<Rightarrow> KState" where
  "set_sigmask t m ks = upd_tcb t (\<lambda>c. c\<lparr>sig := (sig c)\<lparr>sigmask := m\<rparr>\<rparr>) ks"

definition set_cx :: "nat \<Rightarrow> TrapFrame \<Rightarrow> KState \<Rightarrow> KState" where
  "set_cx t c ks = upd_tcb t (\<lambda>x. x\<lparr>cx := c\<rparr>) ks"

definition finish_exit :: "KState \<Rightarrow> nat \<Rightarrow> u64 \<Rightarrow> delivery res" where
  "finish_exit ks t sg = rmap Delivered (exit_with_signal ks t (sig_num sg))"

text \<open>The frame on the user stack.\<close>

definition frame_sp :: "usize \<Rightarrow> usize" where
  "frame_sp sp = usub (usub sp 128) UC_SIZE div 16 * 16"

text \<open>From the point where the new mask is set; \<open>uc0\<close> is what was on the stack.\<close>

definition enter_handler :: "KState \<Rightarrow> nat \<Rightarrow> u64 \<Rightarrow> UserTask \<Rightarrow> ProcessControlBlock \<Rightarrow> SigAction \<Rightarrow> SignalUserContext \<Rightarrow> delivery res" where
  "enter_handler ks t sg self b act uc0 =
     (let c = cx (tcb self);
          ks1 = set_sigmask t (act_mask act) ks;
          sp = frame_sp (c SP);
          user_sig = (sg = SIGUSR1 \<or> sg = SIGUSR2)
      in if sp \<ge> c SP \<or> c SP - sp > 65536 then Ok (Delivered ks1)
         else if \<not> user_addr 0x1000 sp then Ok (Delivered ks1)
         else if \<not> in_stack (pcb_memset b) sp then Ok (Delivered ks1)
         else if translate (ptabs ks (process_id self)) sp = None then Ok (Delivered ks1)
         else
           let uc = (set_pc (c SEPC) (store_ctx c uc0))\<lparr>uc_sig_mask := act_mask act\<rparr>;
               c1 = c(SP := sp, SEPC := handler act);
               ks2 = set_cx t c1 ks1
           in if restorer act = 0 \<and> \<not> user_sig then
                (if sg \<in> {SIGCHLD, SIGURG, SIGWINCH, SIGIO} then Ok (Delivered ks2) else finish_exit ks2 t sg)
              else if restorer act \<noteq> 0 \<and> \<not> in_code (pcb_memset b) (restorer act) \<and> \<not> user_sig then
                (if default_terminates sg then finish_exit ks2 t sg else Ok (Delivered ks2))
              else
                let c2 = c1(RA := (if restorer act = 0 then c SEPC else restorer act),
                            ARG0 := sig_num sg, ARG1 := 0, ARG2 := sp)
                in Ok (InHandler (set_cx t c2 ks2) (sigmask (sig (tcb self))) c sp uc))"

definition handle_signal :: "KState \<Rightarrow> nat \<Rightarrow> u64 \<Rightarrow> SignalUserContext \<Rightarrow> delivery res" where
  "handle_signal ks0 t sg uc0 =
     rbind (if sg = SIGKILL then exit_with_signal ks0 t (sig_num sg) else Ok ks0) (\<lambda>ks.
       case tasks ks t of
         None \<Rightarrow> Panic
       | Some self \<Rightarrow>
           (case pcbs ks (process_id self) of
              None \<Rightarrow> Panic
            | Some b \<Rightarrow>
                rbind (index_res (pcb_sigaction b) (sig_num sg)) (\<lambda>act.
                  if handler act = 0 then
                    (if default_terminates sg \<or> sg = SIGUSR1 \<or> sg = SIGUSR2 then finish_exit ks t sg else Ok (Delivered ks))
                  else if handler act = 1 then Ok (Delivered ks)
                  else if \<not> user_addr 0x10000 (handler act) then finish_exit ks t sg
                  else if \<not> in_code (pcb_memset b) (handler act) then finish_exit ks t sg
                  else if sg = SIGTIMER then Ok (Delivered ks)
                  else if sg = SIGCHLD then Ok (Delivered ks)
                  else enter_handler ks t sg self b act uc0)))"

section \<open>Returning from a handler\<close>

text \<open>\<open>uc\<close> is the context as the handler left it on the stack.\<close>

definition leave_handler :: "KState \<Rightarrow> nat \<Rightarrow> SigProcMask \<Rightarrow> TrapFrame \<Rightarrow> usize \<Rightarrow> SignalUserContext \<Rightarrow> KState" where
  "leave_handler ks t task_mask store_cx sp uc =
     (let ks1 = set_cx t store_cx (set_sigmask t task_mask ks) in
      case tasks ks t of
        None \<Rightarrow> ks1
      | Some self \<Rightarrow>
          if translate (ptabs ks (process_id self)) sp = None then ks1
          else if \<not> user_addr 0x10000 (uc_pc uc) then ks1
          else set_cx t (restore_ctx uc (store_cx(SEPC := uc_pc uc))) ks1)"

text \<open>\<^verbatim>\<open>sys_sigreturn\<close>; the context is read at the stack pointer.\<close>

definition sys_sigreturn :: "KState \<Rightarrow> nat \<Rightarrow> SignalUserContext \<Rightarrow> KState \<times> nat res" where
  "sys_sigreturn ks t uc =
     (case tasks ks t of
        None \<Rightarrow> (ks, Panic)
      | Some self \<Rightarrow>
          (let c = cx (tcb self) in
           if \<not> user_addr 0x1000 (c SP) then (ks, Err EFAULT)
           else if translate (ptabs ks (process_id self)) (c SP) = None then (ks, Err EFAULT)
           else (set_cx t ((restore_ctx uc c)(SEPC := uc_pc uc)) (set_sigmask t (uc_sig_mask uc) ks), Ok 0)))"

section \<open>Properties\<close>

lemma set_simps [simp]:
  "tasks (set_sigmask t m ks) = (tasks ks)(t := map_option (\<lambda>x. x\<lparr>tcb := (tcb x)\<lparr>sig := (sig (tcb x))\<lparr>sigmask := m\<rparr>\<rparr>\<rparr>) (tasks ks t))"
  "pcbs (set_sigmask t m ks) = pcbs ks" "ptabs (set_sigmask t m ks) = ptabs ks"
  "tasks (set_cx t c ks) = (tasks ks)(t := map_option (\<lambda>x. x\<lparr>tcb := (tcb x)\<lparr>cx := c\<rparr>\<rparr>) (tasks ks t))"
  "pcbs (set_cx t c ks) = pcbs ks" "ptabs (set_cx t c ks) = ptabs ks"
  by (simp_all add: set_sigmask_def set_cx_def)

lemma restore_same: "restore_ctx uc (c(SEPC := c SEPC)) = c" if "uc_regs uc = c"
  using that by (auto simp: restore_ctx_def fun_eq_iff)

text \<open>What a started handler sees and what was saved for it.\<close>

lemma handle_signal_InHandler:
  assumes "handle_signal ks t sg uc0 = Ok (InHandler ks1 m c sp uc)" "tasks ks t = Some self" "sg \<noteq> SIGKILL"
  shows "\<exists>b act. pcbs ks (process_id self) = Some b \<and> pcb_sigaction b ! sig_num sg = act \<and> m = sigmask (sig (tcb self)) \<and>
    c = cx (tcb self) \<and> sp = frame_sp (c SP) \<and> uc_regs uc = c \<and> uc_pc uc = c SEPC \<and>
    in_code (pcb_memset b) (handler act) \<and> in_stack (pcb_memset b) sp \<and> sp mod 16 = 0 \<and> sp + UC_SIZE + 128 \<le> c SP \<and>
    pcbs ks1 = pcbs ks \<and> ptabs ks1 = ptabs ks \<and>
    (\<exists>x. tasks ks1 = (tasks ks)(t \<mapsto> x) \<and> process_id x = process_id self \<and> sigmask (sig (tcb x)) = act_mask act \<and>
       cx (tcb x) SEPC = handler act \<and> cx (tcb x) SP = sp \<and> cx (tcb x) ARG0 = sig_num sg \<and> cx (tcb x) ARG2 = sp)"
proof -
  obtain b act where b: "pcbs ks (process_id self) = Some b" "index_res (pcb_sigaction b) (sig_num sg) = Ok act"
    and e: "enter_handler ks t sg self b act uc0 = Ok (InHandler ks1 m c sp uc)" "in_code (pcb_memset b) (handler act)"
    using assms by (auto simp: handle_signal_def rbind_eq_Ok finish_exit_def rmap_eq_Ok split: option.splits if_splits)
  let ?c = "cx (tcb self)"
  have r: "m = sigmask (sig (tcb self))" "c = ?c" "sp = frame_sp (?c SP)" "uc_regs uc = ?c" "uc_pc uc = ?c SEPC" "in_stack (pcb_memset b) sp"
    "sp < ?c SP" "?c SP - sp \<le> 65536"
    "\<exists>ra. ks1 = set_cx t (?c(SP := sp, SEPC := handler act, RA := ra, ARG0 := sig_num sg, ARG1 := 0, ARG2 := sp))
       (set_cx t (?c(SP := sp, SEPC := handler act)) (set_sigmask t (act_mask act) ks))"
    using e(1) by (auto simp: enter_handler_def Let_def finish_exit_def rmap_eq_Ok store_ctx_def set_pc_def split: if_splits)
  have big: "128 + UC_SIZE \<le> ?c SP"
  proof (rule ccontr)
    assume "\<not> 128 + UC_SIZE \<le> ?c SP"
    then show False using r(3,7) by (auto simp: frame_sp_def usub_def UC_SIZE_def USIZE_def split: if_splits)
  qed
  then have "sp = (?c SP - 128 - UC_SIZE) div 16 * 16" using r(3) by (simp add: frame_sp_def usub_le)
  then have "sp mod 16 = 0" "sp + UC_SIZE + 128 \<le> ?c SP"
    using big div_times_less_eq_dividend [of "?c SP - 128 - UC_SIZE" 16] by auto
  moreover have "pcb_sigaction b ! sig_num sg = act" using b(2) by (auto simp: index_res_def split: if_splits)
  ultimately show ?thesis using r b(1) e(2) assms(2) by auto
qed


definition demo_action :: SigAction where
  "demo_action = \<lparr>handler = 0x40000100, flags = 0, restorer = 0x40000200, act_mask = 0xff\<rparr>"

definition with_handler :: KState where
  "with_handler = one_page\<lparr>
     tasks := [1 \<mapsto> \<lparr>process_id = 1, parent = None, tcb = tcb_new (\<lambda>r. if r = SP then 0x40001000 else if r = SEPC then 0x40000050 else 0) 0\<rparr>],
     pcbs := [1 \<mapsto> (pcb_new 0 0)\<lparr>threads := [1], pcb_memset := [demo_area], pcb_sigaction := (replicate 65 sigaction_new)[10 := demo_action]\<rparr>]\<rparr>"


text \<open>
  A signal whose frame does not fit in an area for stacks is dropped: the handler does not
  run and no register changes, but the mask of the action stays in force and the mask the
  thread had is lost.
\<close>

theorem failed_delivery_loses_the_mask:
  assumes "tasks ks t = Some self" "pcbs ks (process_id self) = Some b" "sig_num sg < length (pcb_sigaction b)"
    "act = pcb_sigaction b ! sig_num sg" "user_addr 0x10000 (handler act)" "in_code (pcb_memset b) (handler act)"
    "sg \<notin> {SIGKILL, SIGTIMER, SIGCHLD}" "\<not> in_stack (pcb_memset b) (frame_sp (cx (tcb self) SP))"
  shows "\<exists>ks1 x. handle_signal ks t sg uc0 = Ok (Delivered ks1) \<and> tasks ks1 t = Some x \<and>
    cx (tcb x) = cx (tcb self) \<and> sigmask (sig (tcb x)) = act_mask act"
proof -
  have "handler act \<noteq> 0" "handler act \<noteq> 1" using assms(5) by (auto simp: user_addr_def)
  then have "handle_signal ks t sg uc0 = Ok (Delivered (set_sigmask t (act_mask act) ks))"
    using assms by (simp add: handle_signal_def index_res_def enter_handler_def Let_def)
  then show ?thesis using assms(1) by simp
qed

theorem failed_delivery_loses_the_mask_witness:
  "\<exists>ks1 x. handle_signal (set_cx 1 (\<lambda>_. 0x20000) with_handler) 1 SIGUSR1 \<lparr>uc_regs = (\<lambda>_. 0), uc_pc = 0, uc_sig_mask = 0\<rparr> =
     Ok (Delivered ks1) \<and> tasks ks1 1 = Some x \<and> sigmask (sig (tcb x)) = 0xff"
proof -
  have n: "sig_num SIGUSR1 = 10" by (simp add: sig_num_def SIGUSR1_def upt_conv_Cons)
  have d: "SIGUSR1 \<notin> {SIGKILL, SIGTIMER, SIGCHLD}"
    by (simp add: SIGUSR1_def SIGKILL_def SIGTIMER_def SIGCHLD_def)
  obtain self where s: "tasks (set_cx 1 (\<lambda>_. 0x20000) with_handler) 1 = Some self" "process_id self = 1"
    "cx (tcb self) SP = 0x20000" by (simp add: with_handler_def)
  obtain b where b: "pcbs (set_cx 1 (\<lambda>_. 0x20000) with_handler) (process_id self) = Some b" "pcb_memset b = [demo_area]"
    "length (pcb_sigaction b) = 65" "pcb_sigaction b ! 10 = demo_action" using s(2) by (simp add: with_handler_def)
  have v: "sig_num SIGUSR1 < length (pcb_sigaction b)" "demo_action = pcb_sigaction b ! sig_num SIGUSR1"
    "user_addr 0x10000 (handler demo_action)" "in_code (pcb_memset b) (handler demo_action)"
    using b by (simp_all add: n user_addr_def demo_action_def in_code_def demo_area_def area_contains_def)
  have "\<not> in_stack (pcb_memset b) (frame_sp (cx (tcb self) SP))"
    by (simp add: b s in_stack_def demo_area_def area_contains_def frame_sp_def usub_def UC_SIZE_def USIZE_def)
  from failed_delivery_loses_the_mask [OF s(1) b(1) v d this, of "\<lparr>uc_regs = (\<lambda>_. 0), uc_pc = 0, uc_sig_mask = 0\<rparr>"]
  show ?thesis by (auto simp: demo_action_def)
qed

end
