(* ===== verification/User_Stack.thy ===== *)
theory User_Stack
  imports Page_Fault Byte_Order
begin

text \<open>
  The initial stack of a program: \<^verbatim>\<open>init_task_stack\<close> of \<^verbatim>\<open>kernel/src/tasks/elf.rs\<close> and the
  pushes onto the user stack of \<^verbatim>\<open>kernel/src/tasks/task.rs\<close>.  The pages of the stack are taken from the
  frame allocator, and every byte is stored through the page table of the process.
\<close>

section \<open>The kernel writes to user memory\<close>

text \<open>
  The kernel stores through the page table of the process; a store that faults runs the
  fault handler and is repeated.  A fault the handler does not resolve repeats for ever.
\<close>

fun store_bytes :: "fread \<Rightarrow> fsize \<Rightarrow> nat \<Rightarrow> nat \<Rightarrow> usize \<Rightarrow> u8 list \<Rightarrow> KState \<Rightarrow> KState res" where
  "store_bytes rd sz t p va [] ks = Ok ks"
| "store_bytes rd sz t p va (v # vs) ks =
     (case store rd sz ks t p va v (0, 0) of
        Some ks' \<Rightarrow> store_bytes rd sz t p (uadd va 1) vs ks'
      | None \<Rightarrow> Panic)"

definition virt_bytes :: "KState \<Rightarrow> nat \<Rightarrow> usize \<Rightarrow> nat \<Rightarrow> u8 list" where
  "virt_bytes ks p va n = map (\<lambda>i. case user_read ks p (va + i) of Some v \<Rightarrow> v | None \<Rightarrow> 0) [0..<n]"

definition phys_bytes :: "KState \<Rightarrow> usize \<Rightarrow> nat \<Rightarrow> u8 list" where
  "phys_bytes ks pa n = map (\<lambda>i. phys ks (page_floor (pa + i)) ! ((pa + i) mod PAGE_SIZE)) [0..<n]"

section \<open>Pushing onto the user stack\<close>

definition sp_of :: "KState \<Rightarrow> nat \<Rightarrow> usize" where
  "sp_of ks t = (case tasks ks t of Some x \<Rightarrow> cx (tcb x) SP | None \<Rightarrow> 0)"

definition set_sp :: "nat \<Rightarrow> usize \<Rightarrow> KState \<Rightarrow> KState" where
  "set_sp t sp ks = upd_tcb t (\<lambda>c. c\<lparr>cx := (cx c)(SP := sp)\<rparr>) ks"

definition push_arr :: "fread \<Rightarrow> fsize \<Rightarrow> nat \<Rightarrow> nat \<Rightarrow> u8 list \<Rightarrow> KState \<Rightarrow> (KState \<times> usize) res" where
  "push_arr rd sz t p buffer ks =
     (let sp = usub (sp_of ks t) (alignup (length buffer + 1) 8)
      in rmap (\<lambda>ks'. (set_sp t sp ks', sp)) (store_bytes rd sz t p sp buffer ks))"

definition str_bytes :: "string \<Rightarrow> u8 list" where
  "str_bytes s = map of_char s"

definition push_str :: "fread \<Rightarrow> fsize \<Rightarrow> nat \<Rightarrow> nat \<Rightarrow> string \<Rightarrow> KState \<Rightarrow> (KState \<times> usize) res" where
  "push_str rd sz t p s ks = push_arr rd sz t p (str_bytes s) ks"

definition push_num :: "fread \<Rightarrow> fsize \<Rightarrow> nat \<Rightarrow> nat \<Rightarrow> usize \<Rightarrow> KState \<Rightarrow> (KState \<times> usize) res" where
  "push_num rd sz t p num ks =
     (let sp = usub (sp_of ks t) 8
      in rmap (\<lambda>ks'. (set_sp t sp ks', sp)) (store_bytes rd sz t p sp (le_bytes 8 num) ks))"

fun push_list :: "('b \<Rightarrow> 's \<Rightarrow> ('s \<times> usize) res) \<Rightarrow> 'b list \<Rightarrow> 's \<Rightarrow> ('s \<times> usize list) res" where
  "push_list push [] s = Ok (s, [])"
| "push_list push (b # bs) s =
     rbind (push b s) (\<lambda>(s1, a). rmap (\<lambda>(s2, as). (s2, a # as)) (push_list push bs s1))"

section \<open>The initial stack\<close>

definition USER_DYN_ADDR :: usize where "USER_DYN_ADDR = 0x20000000"
definition USER_STACK_TOP :: usize where "USER_STACK_TOP = 0x80000000"
definition USER_STACK_INIT_SIZE :: usize where "USER_STACK_INIT_SIZE = 0x20000"

definition AT_PHDR :: usize where "AT_PHDR = 3"
definition AT_PHENT :: usize where "AT_PHENT = 4"
definition AT_PHNUM :: usize where "AT_PHNUM = 5"
definition AT_PAGESZ :: usize where "AT_PAGESZ = 6"
definition AT_ENTRY :: usize where "AT_ENTRY = 9"
definition AT_UID :: usize where "AT_UID = 11"
definition AT_EUID :: usize where "AT_EUID = 12"
definition AT_GID :: usize where "AT_GID = 13"
definition AT_EGID :: usize where "AT_EGID = 14"
definition AT_PLATFORM :: usize where "AT_PLATFORM = 15"
definition AT_SECURE :: usize where "AT_SECURE = 23"
definition AT_RANDOM :: usize where "AT_RANDOM = 25"
definition AT_EXECFN :: usize where "AT_EXECFN = 31"

text \<open>The environment every program gets; the terminal prompt contains escape characters.\<close>

definition ESC :: string where
  "ESC = [CHR 0x1B]"

definition init_env :: "string \<Rightarrow> string list" where
  "init_env libc =
     [''LD_LIBRARY_PATH='' @ libc,
      ''PS1='' @ ESC @ ''[1m'' @ ESC @ ''[32mMonkeyOS'' @ ESC @ ''[0m:'' @ ESC @ ''[1m'' @ ESC @ ''[34m'' @
        [CHR 0x5C, CHR ''w''] @ ESC @ ''[0m'' @ [CHR 0x5C] @ ''$ '' @ [CHR 0x00],
      ''PATH=/:/bin:/usr/bin'',
      ''UB_BINDIR=./'']"

text \<open>What a program header table says, as \<^verbatim>\<open>init_task_stack\<close> is told.\<close>

record Image =
  im_base :: usize
  im_entry :: usize
  im_ph_count :: usize
  im_ph_entry_size :: usize
  im_ph_addr :: usize
  im_heap_bottom :: usize

definition auxv :: "Image \<Rightarrow> usize \<Rightarrow> usize \<Rightarrow> usize \<Rightarrow> (usize \<times> usize) list" where
  "auxv im platform execfn random =
     fold (\<lambda>(k, v) m. bm_insert k v m)
       [(AT_PLATFORM, platform), (AT_EXECFN, execfn), (AT_PHNUM, im_ph_count im), (AT_PAGESZ, PAGE_SIZE),
        (AT_ENTRY, uadd (im_base im) (im_entry im)), (AT_PHENT, im_ph_entry_size im),
        (AT_PHDR, uadd (im_base im) (im_ph_addr im)), (AT_GID, 0), (AT_EGID, 0), (AT_UID, 0), (AT_EUID, 0),
        (AT_SECURE, 0), (AT_RANDOM, random)] []"

text \<open>The mapping of the stack, whose failure is not looked at, the registers, and the pushes.\<close>

definition stack_setup :: "KState \<Rightarrow> nat \<Rightarrow> nat \<Rightarrow> Image \<Rightarrow> TrapFrame \<Rightarrow> KState res" where
  "stack_setup ks t p im cx0 =
     rbind (grow ks p (USER_STACK_TOP - USER_STACK_INIT_SIZE) Stack (USER_STACK_INIT_SIZE div PAGE_SIZE)) (\<lambda>(ks1, _).
       Ok (upd_tcb t (\<lambda>c. c\<lparr>cx := cx0(SP := USER_STACK_TOP, SEPC := uadd (im_base im) (im_entry im))\<rparr>)
            (upd_pcb p (\<lambda>b. b\<lparr>pcb_heap := im_heap_bottom im, pcb_entry := uadd (im_base im) (im_entry im)\<rparr>) ks1)))"

definition stack_words :: "Image \<Rightarrow> usize \<Rightarrow> usize \<Rightarrow> usize \<Rightarrow> usize list \<Rightarrow> usize list \<Rightarrow> usize list" where
  "stack_words im platform execfn random envp argv =
     [0] @ concat (map (\<lambda>(k, v). [v, k]) (auxv im platform execfn random)) @ [0] @ envp @ [0] @ argv @ [length argv]"

definition push_image :: "fread \<Rightarrow> fsize \<Rightarrow> nat \<Rightarrow> nat \<Rightarrow> string list \<Rightarrow> string list \<Rightarrow> Image \<Rightarrow> string \<Rightarrow> KState \<Rightarrow> KState res" where
  "push_image rd sz t p env args im path ks =
     rbind (push_list (push_str rd sz t p) (rev env) ks) (\<lambda>(ks1, envp).
     rbind (push_list (push_str rd sz t p) (rev args) ks1) (\<lambda>(ks2, argv).
     rbind (push_arr rd sz t p (replicate 16 0) ks2) (\<lambda>(ks3, random).
     rbind (push_str rd sz t p ''riscv'' ks3) (\<lambda>(ks4, platform).
     rbind (push_str rd sz t p path ks4) (\<lambda>(ks5, execfn).
       rmap fst (push_list (push_num rd sz t p) (stack_words im platform execfn random envp argv) ks5))))))"

definition init_task_stack :: "fread \<Rightarrow> fsize \<Rightarrow> KState \<Rightarrow> nat \<Rightarrow> nat \<Rightarrow> string list \<Rightarrow> Image \<Rightarrow> string \<Rightarrow> string \<Rightarrow> TrapFrame \<Rightarrow> KState res" where
  "init_task_stack rd sz ks t p args im path libc cx0 =
     rbind (stack_setup ks t p im cx0) (push_image rd sz t p (init_env libc) args im path)"


section \<open>Pages a process owns alone\<close>

text \<open>
  The pages \<open>V\<close> of a process are mapped writable to frames of their own.  Free frames
  are clear, as dropping a frame clears it.
\<close>

definition frame_of :: "KState \<Rightarrow> nat \<Rightarrow> usize \<Rightarrow> usize" where
  "frame_of ks p v = fst (the (ptabs ks p v))"

definition owned :: "KState \<Rightarrow> nat \<Rightarrow> usize set \<Rightarrow> bool" where
  "owned ks p V \<longleftrightarrow> fa_wf (frames ks) \<and> (\<forall>f \<in> free_frames (frames ks). phys ks f = zero_page) \<and>
     (\<forall>v \<in> V. (\<exists>f fl. ptabs ks p v = Some (f, fl) \<and> fl \<noteq> URX) \<and> frame_of ks p v \<notin> free_frames (frames ks) \<and>
        length (phys ks (frame_of ks p v)) = PAGE_SIZE) \<and>
     inj_on (frame_of ks p) V"

lemma ownedD:
  assumes "owned ks p V"
  shows "fa_wf (frames ks)" "f \<in> free_frames (frames ks) \<Longrightarrow> phys ks f = zero_page"
    "v \<in> V \<Longrightarrow> \<exists>fl. ptabs ks p v = Some (frame_of ks p v, fl) \<and> fl \<noteq> URX"
    "v \<in> V \<Longrightarrow> frame_of ks p v \<notin> free_frames (frames ks)" "v \<in> V \<Longrightarrow> length (phys ks (frame_of ks p v)) = PAGE_SIZE"
    "inj_on (frame_of ks p) V"
  using assms unfolding owned_def by (fastforce simp: frame_of_def)+

lemma owned_mono: "owned ks p V \<Longrightarrow> W \<subseteq> V \<Longrightarrow> owned ks p W"
  unfolding owned_def by (meson inj_on_subset subsetD)

lemma PAGE_pos: "0 < PAGE_SIZE"
  by (simp add: PAGE_SIZE_def)

text \<open>A store to an owned page changes that byte of the memory and nothing else.\<close>

lemma user_write_owned:
  fixes v :: u8
  assumes o: "owned ks p V" and va: "page_floor va \<in> V"
  defines "g \<equiv> frame_of ks p (page_floor va)"
  defines "ks' \<equiv> set_phys g ((phys ks g)[va mod PAGE_SIZE := v]) ks"
  shows "user_write ks p va v = Some ks'" "owned ks' p V"
    "page_floor x \<in> V \<Longrightarrow> user_read ks' p x = (if x = va then Some v else user_read ks p x)"
proof -
  from ownedD(3) [OF o va] obtain fl where pg: "ptabs ks p (page_floor va) = Some (g, fl)" "fl \<noteq> URX"
    unfolding g_def by blast
  then show w: "user_write ks p va v = Some ks'" by (simp add: user_write_def ks'_def)
  have fo: "frame_of ks' p = frame_of ks p" by (simp add: fun_eq_iff frame_of_def ks'_def set_phys_def)
  have ph: "phys ks' f = (if f = g then (phys ks g)[va mod PAGE_SIZE := v] else phys ks f)" for f
    by (simp add: ks'_def set_phys_def)
  have rest: "frames ks' = frames ks" "ptabs ks' = ptabs ks" by (simp_all add: ks'_def set_phys_def)
  have "g \<notin> free_frames (frames ks)" using ownedD(4) [OF o va] unfolding g_def .
  then show "owned ks' p V" using o unfolding owned_def fo rest ph by auto
  assume x: "page_floor x \<in> V"
  from ownedD(3) [OF o x] obtain fl2 where px: "ptabs ks p (page_floor x) = Some (frame_of ks p (page_floor x), fl2)" by blast
  have len: "length (phys ks g) = PAGE_SIZE" using ownedD(5) [OF o va] unfolding g_def .
  have same: "frame_of ks p (page_floor x) = g \<longleftrightarrow> page_floor x = page_floor va"
    using inj_onD [OF ownedD(6) [OF o] _ x va] unfolding g_def by auto
  have "va mod PAGE_SIZE < PAGE_SIZE" "x mod PAGE_SIZE < PAGE_SIZE" using PAGE_pos by simp_all
  moreover have "x = va" if "page_floor x = page_floor va" "x mod PAGE_SIZE = va mod PAGE_SIZE"
  proof -
    have "x = page_floor x + x mod PAGE_SIZE" "va = page_floor va + va mod PAGE_SIZE" by (simp_all add: page_floor_def)
    then show ?thesis using that by metis
  qed
  ultimately show "user_read ks' p x = (if x = va then Some v else user_read ks p x)"
    using px same len by (auto simp: user_read_def rest ph nth_list_update)
qed

lemma store_owned: "owned ks p V \<Longrightarrow> page_floor va \<in> V \<Longrightarrow> user_write ks p va v = Some ks' \<Longrightarrow> store rd sz ks t p va v tls = Some ks'"
  by (simp add: store_def)

definition pages_of :: "usize \<Rightarrow> nat \<Rightarrow> usize set" where
  "pages_of va n = page_floor ` {va..<va + n}"

lemma store_bytes_owned:
  assumes "owned ks p V" "pages_of va (length bs) \<subseteq> V" "va + length bs < USIZE"
  shows "\<exists>h. store_bytes rd sz t p va bs ks = Ok (ks\<lparr>phys := h\<rparr>) \<and> owned (ks\<lparr>phys := h\<rparr>) p V \<and>
    (\<forall>x. page_floor x \<in> V \<longrightarrow>
       user_read (ks\<lparr>phys := h\<rparr>) p x = (if va \<le> x \<and> x < va + length bs then Some (bs ! (x - va)) else user_read ks p x))"
  using assms
proof (induction bs arbitrary: va ks)
  case Nil
  then show ?case by (auto intro!: exI [of _ "phys ks"])
next
  case (Cons b bs)
  have va: "page_floor va \<in> V" using Cons.prems(2) by (auto simp: pages_of_def)
  note w = user_write_owned [OF Cons.prems(1) va, where v = b]
  let ?g = "frame_of ks p (page_floor va)"
  let ?k = "set_phys ?g ((phys ks ?g)[va mod PAGE_SIZE := b]) ks"
  have "pages_of (va + 1) (length bs) \<subseteq> V" using Cons.prems(2) by (auto simp: pages_of_def)
  from Cons.IH [OF w(2) this] Cons.prems(3) obtain h where
    h: "store_bytes rd sz t p (va + 1) bs ?k = Ok (?k\<lparr>phys := h\<rparr>)" "owned (?k\<lparr>phys := h\<rparr>) p V"
      "\<And>x. page_floor x \<in> V \<Longrightarrow>
         user_read (?k\<lparr>phys := h\<rparr>) p x = (if va + 1 \<le> x \<and> x < va + 1 + length bs then Some (bs ! (x - (va + 1))) else user_read ?k p x)"
    by auto
  have k: "?k\<lparr>phys := h\<rparr> = ks\<lparr>phys := h\<rparr>" by (simp add: set_phys_def)
  have "uadd va 1 = va + 1" using Cons.prems(3) by (simp add: uadd_def)
  then have "store_bytes rd sz t p va (b # bs) ks = Ok (ks\<lparr>phys := h\<rparr>)"
    using h(1) store_owned [OF Cons.prems(1) va w(1)] by (simp add: k)
  moreover have "user_read (ks\<lparr>phys := h\<rparr>) p x = (if va \<le> x \<and> x < va + length (b # bs) then Some ((b # bs) ! (x - va)) else user_read ks p x)"
    if "page_floor x \<in> V" for x
    using h(3) [OF that] w(3) [OF that] unfolding k by (auto simp: nth_Cons')
  ultimately show ?case using h(2) unfolding k by auto
qed

section \<open>Stacks that grow downwards\<close>

text \<open>
  What a push promises: the bytes of the item lie below the old stack pointer, the new one
  points to them, and no other readable byte changes.
\<close>

locale downward_stack =
  fixes push :: "'b \<Rightarrow> 's \<Rightarrow> ('s \<times> usize) res" and enc :: "'b \<Rightarrow> u8 list" and valid :: "'s \<Rightarrow> bool"
    and sp :: "'s \<Rightarrow> usize" and peek :: "'s \<Rightarrow> usize \<Rightarrow> u8 option" and rest :: "'s \<Rightarrow> 'r" and D :: "usize set" and lo :: usize
  assumes push: "valid s \<Longrightarrow> lo + length (enc b) \<le> sp s \<Longrightarrow>
    \<exists>s'. push b s = Ok (s', sp s - length (enc b)) \<and> valid s' \<and> sp s' = sp s - length (enc b) \<and> rest s' = rest s \<and>
      (\<forall>x \<in> D. peek s' x = (if sp s - length (enc b) \<le> x \<and> x < sp s then Some (enc b ! (x - (sp s - length (enc b)))) else peek s x))"
begin

lemma push_list:
  assumes "valid s" "lo + length (concat (map enc bs)) \<le> sp s"
  shows "\<exists>s'. push_list push bs s = Ok (s', map (\<lambda>i. sp s - length (concat (map enc (take (Suc i) bs)))) [0..<length bs]) \<and>
    valid s' \<and> sp s' = sp s - length (concat (map enc bs)) \<and> rest s' = rest s \<and>
    (\<forall>x \<in> D. peek s' x =
       (if sp s - length (concat (map enc bs)) \<le> x \<and> x < sp s
        then Some (concat (map enc (rev bs)) ! (x - (sp s - length (concat (map enc bs))))) else peek s x))"
  using assms
proof (induction bs arbitrary: s)
  case (Cons b bs)
  have b: "lo + length (enc b) \<le> sp s" using Cons.prems(2) by simp
  from push [OF Cons.prems(1) b] obtain s1 where
    s1: "push b s = Ok (s1, sp s - length (enc b))" "valid s1" "sp s1 = sp s - length (enc b)" "rest s1 = rest s"
      "\<And>x. x \<in> D \<Longrightarrow> peek s1 x = (if sp s - length (enc b) \<le> x \<and> x < sp s then Some (enc b ! (x - (sp s - length (enc b)))) else peek s x)"
    by blast
  have r: "lo + length (concat (map enc bs)) \<le> sp s1" using Cons.prems(2) s1(3) by simp
  from Cons.IH [OF s1(2) r] obtain s2 where
    s2: "push_list push bs s1 = Ok (s2, map (\<lambda>i. sp s1 - length (concat (map enc (take (Suc i) bs)))) [0..<length bs])" "valid s2"
      "sp s2 = sp s1 - length (concat (map enc bs))" "rest s2 = rest s1"
      "\<And>x. x \<in> D \<Longrightarrow> peek s2 x =
       (if sp s1 - length (concat (map enc bs)) \<le> x \<and> x < sp s1
        then Some (concat (map enc (rev bs)) ! (x - (sp s1 - length (concat (map enc bs))))) else peek s1 x)"
    by blast
  let ?n = "length (concat (map enc bs))"
  have n: "length (concat (map enc (rev bs))) = ?n" by (simp add: length_concat rev_map [symmetric] comp_def)
  have adr: "map (\<lambda>i. sp s - length (concat (map enc (take (Suc i) (b # bs))))) [0..<length (b # bs)] =
      (sp s - length (enc b)) # map (\<lambda>i. sp s1 - length (concat (map enc (take (Suc i) bs)))) [0..<length bs]"
    by (simp add: map_upt_Suc s1(3) del: upt_Suc)
  have "peek s2 x = (if sp s - length (concat (map enc (b # bs))) \<le> x \<and> x < sp s
        then Some (concat (map enc (rev (b # bs))) ! (x - (sp s - length (concat (map enc (b # bs)))))) else peek s x)"
    if "x \<in> D" for x
    using s2(5) [OF that] s1(5) [OF that] s1(3) Cons.prems(2) n by (auto simp: nth_append)
  then show ?case using s1 s2 adr by auto
qed auto

lemma push_list_items:
  assumes "valid s" "lo + length (concat (map enc bs)) \<le> sp s"
  obtains s' as where "push_list push bs s = Ok (s', as)" "valid s'" "sp s' = sp s - length (concat (map enc bs))" "rest s' = rest s"
    "length as = length bs" "\<And>i. i < length bs \<Longrightarrow> as ! i = sp s - length (concat (map enc (take (Suc i) bs)))"
    "\<And>i j. i < length bs \<Longrightarrow> j < length (enc (bs ! i)) \<Longrightarrow> as ! i + j \<in> D \<Longrightarrow> peek s' (as ! i + j) = Some (enc (bs ! i) ! j)"
    "\<And>i. i < length bs \<Longrightarrow> lo \<le> as ! i \<and> as ! i + length (enc (bs ! i)) \<le> sp s"
    "\<And>x. x \<in> D \<Longrightarrow> sp s \<le> x \<Longrightarrow> peek s' x = peek s x"
proof -
  let ?n = "length (concat (map enc bs))"
  let ?as = "map (\<lambda>i. sp s - length (concat (map enc (take (Suc i) bs)))) [0..<length bs]"
  from push_list [OF assms] obtain s' where s': "push_list push bs s = Ok (s', ?as)" "valid s'" "sp s' = sp s - ?n" "rest s' = rest s"
    "\<And>x. x \<in> D \<Longrightarrow> peek s' x = (if sp s - ?n \<le> x \<and> x < sp s then Some (concat (map enc (rev bs)) ! (x - (sp s - ?n))) else peek s x)"
    by blast
  have "peek s' (?as ! i + j) = Some (enc (bs ! i) ! j)" if "i < length bs" "j < length (enc (bs ! i))" "?as ! i + j \<in> D" for i j
  proof -
    define A where "A = concat (map enc (rev (drop (Suc i) bs)))"
    have tot: "concat (map enc bs) = concat (map enc (take (Suc i) bs)) @ concat (map enc (drop (Suc i) bs))"
      by (simp only: concat_append [symmetric] map_append [symmetric] append_take_drop_id)
    have lA: "length A = length (concat (map enc (drop (Suc i) bs)))"
      by (simp add: A_def length_concat rev_map [symmetric] comp_def)
    have "rev bs = rev (drop (Suc i) bs) @ bs ! i # rev (take i bs)"
      by (subst (1) id_take_nth_drop [OF that(1)]) simp
    then have img: "concat (map enc (rev bs)) = A @ enc (bs ! i) @ concat (map enc (rev (take i bs)))" by (simp add: A_def)
    have tk: "length (concat (map enc (take (Suc i) bs))) = length (concat (map enc (take i bs))) + length (enc (bs ! i))"
      using that(1) by (simp add: take_Suc_conv_app_nth)
    have a: "?as ! i = sp s - length (concat (map enc (take (Suc i) bs)))" using that(1) by simp
    have n: "?n = length (concat (map enc (take (Suc i) bs))) + length A" by (simp add: tot lA)
    have r: "sp s - ?n \<le> ?as ! i + j" "?as ! i + j < sp s" "?as ! i + j - (sp s - ?n) = length A + j"
      using assms(2) that(2) tk unfolding a n by auto
    show ?thesis using s'(5) [OF that(3)] r that(2) by (simp add: img nth_append)
  qed
  moreover have "lo \<le> ?as ! i \<and> ?as ! i + length (enc (bs ! i)) \<le> sp s" if "i < length bs" for i
  proof -
    have tot: "concat (map enc bs) = concat (map enc (take (Suc i) bs)) @ concat (map enc (drop (Suc i) bs))"
      by (simp only: concat_append [symmetric] map_append [symmetric] append_take_drop_id)
    have "length (concat (map enc (take (Suc i) bs))) = length (concat (map enc (take i bs))) + length (enc (bs ! i))"
      using that by (simp add: take_Suc_conv_app_nth)
    then show ?thesis using that assms(2) by (simp add: tot)
  qed
  ultimately show ?thesis using that [OF s'(1-4)] s'(5) by auto
qed

end

section \<open>The pushes of the kernel\<close>

definition str_image :: "string \<Rightarrow> u8 list" where
  "str_image s = str_bytes s @ replicate (alignup (length s + 1) 8 - length s) 0"

abbreviation stack_low :: usize where
  "stack_low \<equiv> USER_STACK_TOP - USER_STACK_INIT_SIZE"

definition stack_ok :: "nat \<Rightarrow> nat \<Rightarrow> usize set \<Rightarrow> KState \<Rightarrow> bool" where
  "stack_ok t p V ks \<longleftrightarrow> owned ks p V \<and> pages_of stack_low USER_STACK_INIT_SIZE \<subseteq> V \<and> tasks ks t \<noteq> None \<and>
     stack_low \<le> sp_of ks t \<and> sp_of ks t \<le> USER_STACK_TOP \<and>
     (\<forall>x. stack_low \<le> x \<and> x < sp_of ks t \<longrightarrow> user_read ks p x = Some 0)"

definition but_stack :: "nat \<Rightarrow> KState \<Rightarrow> KState" where
  "but_stack t ks = (set_sp t 0 ks)\<lparr>phys := (\<lambda>_. [])\<rparr>"

lemma frame_of_set_sp: "frame_of (set_sp t a ks) = frame_of ks"
  by (simp add: fun_eq_iff frame_of_def set_sp_def)

lemma set_sp_simps [simp]:
  "phys (set_sp t a ks) = phys ks" "ptabs (set_sp t a ks) = ptabs ks" "frames (set_sp t a ks) = frames ks"
  "pcbs (set_sp t a ks) = pcbs ks" "tasks (set_sp t a ks) t = None \<longleftrightarrow> tasks ks t = None"
  "tasks ks t \<noteq> None \<Longrightarrow> sp_of (set_sp t a ks) t = a" "user_read (set_sp t a ks) p x = user_read ks p x"
  "owned (set_sp t a ks) p V = owned ks p V"
  by (simp_all add: owned_def frame_of_set_sp) (auto simp: set_sp_def sp_of_def user_read_def)

lemma but_stack_store: "but_stack t (set_sp t a (ks\<lparr>phys := h\<rparr>)) = but_stack t ks"
  by (simp add: but_stack_def set_sp_def upd_tcb_def fun_eq_iff option.map_comp comp_def)

lemma alignup_ge: "0 < b \<Longrightarrow> a \<le> alignup a b"
  unfolding alignup_def by (rule div_ceil_bounds(1))

lemma length_str_image: "length (str_image s) = alignup (length s + 1) 8" "length s < length (str_image s)"
  using alignup_ge [of 8 "length s + 1"] by (auto simp: str_image_def str_bytes_def)

lemma push_bytes:
  assumes ok: "stack_ok t p V ks" and room: "stack_low + n \<le> sp_of ks t" "length bs \<le> n"
  defines "a \<equiv> sp_of ks t - n"
  shows "\<exists>h. store_bytes rd sz t p (usub (sp_of ks t) n) bs ks = Ok (ks\<lparr>phys := h\<rparr>) \<and> usub (sp_of ks t) n = a \<and>
    stack_ok t p V (set_sp t a (ks\<lparr>phys := h\<rparr>)) \<and>
    (\<forall>x \<in> {x. page_floor x \<in> V}. user_read (set_sp t a (ks\<lparr>phys := h\<rparr>)) p x =
       (if a \<le> x \<and> x < sp_of ks t then Some ((bs @ replicate (n - length bs) 0) ! (x - a)) else user_read ks p x))"
proof -
  have sp: "sp_of ks t \<le> USER_STACK_TOP" using ok by (simp add: stack_ok_def)
  have ua: "usub (sp_of ks t) n = a" using room(1) by (simp add: a_def usub_le)
  have al: "stack_low \<le> a" "a + n = sp_of ks t" using room(1) by (auto simp: a_def)
  have "pages_of a (length bs) \<subseteq> pages_of stack_low USER_STACK_INIT_SIZE"
    using al room(2) sp by (auto simp: pages_of_def USER_STACK_TOP_def USER_STACK_INIT_SIZE_def)
  then have pg: "pages_of a (length bs) \<subseteq> V" using ok by (auto simp: stack_ok_def)
  have sm: "a + length bs < USIZE" using al room(2) sp by (simp add: USER_STACK_TOP_def USIZE_def)
  have o: "owned ks p V" using ok by (simp add: stack_ok_def)
  from store_bytes_owned [OF o pg sm, of rd sz t] obtain h where
    h: "store_bytes rd sz t p a bs ks = Ok (ks\<lparr>phys := h\<rparr>)" "owned (ks\<lparr>phys := h\<rparr>) p V"
      "\<And>x. page_floor x \<in> V \<Longrightarrow>
       user_read (ks\<lparr>phys := h\<rparr>) p x = (if a \<le> x \<and> x < a + length bs then Some (bs ! (x - a)) else user_read ks p x)"
    by blast
  have inV: "page_floor x \<in> V" if "stack_low \<le> x" "x < USER_STACK_TOP" for x
    using that ok unfolding stack_ok_def pages_of_def USER_STACK_TOP_def USER_STACK_INIT_SIZE_def by auto
  have z: "user_read ks p x = Some 0" if "stack_low \<le> x" "x < sp_of ks t" for x
    using ok that unfolding stack_ok_def by blast
  have t: "tasks (ks\<lparr>phys := h\<rparr>) t \<noteq> None" using ok by (simp add: stack_ok_def)
  have rd: "user_read (set_sp t a (ks\<lparr>phys := h\<rparr>)) p x =
       (if a \<le> x \<and> x < sp_of ks t then Some ((bs @ replicate (n - length bs) 0) ! (x - a)) else user_read ks p x)" if "page_floor x \<in> V" for x
    using h(3) [OF that] al room(2) z [of x] by (auto simp: nth_append)
  have "stack_ok t p V (set_sp t a (ks\<lparr>phys := h\<rparr>))"
  proof -
    have "user_read (set_sp t a (ks\<lparr>phys := h\<rparr>)) p x = Some 0" if "stack_low \<le> x" "x < a" for x
      using rd [OF inV [OF that(1)]] that al sp z [of x] by auto
    then show ?thesis using ok h(2) t al sp unfolding stack_ok_def by auto
  qed
  then show ?thesis using h(1) ua rd by auto
qed

interpretation words: downward_stack "push_num rd sz t p" "le_bytes 8" "stack_ok t p V" "\<lambda>ks. sp_of ks t"
    "\<lambda>ks. user_read ks p" "but_stack t" "{x. page_floor x \<in> V}" stack_low
proof unfold_locales
  fix ks b
  assume ok: "stack_ok t p V ks" and room: "stack_low + length (le_bytes 8 b) \<le> sp_of ks t"
  have t: "tasks ks t \<noteq> None" using ok by (simp add: stack_ok_def)
  from push_bytes [OF ok, of 8 "le_bytes 8 b" rd sz] room show "\<exists>s'. push_num rd sz t p b ks = Ok (s', sp_of ks t - length (le_bytes 8 b)) \<and>
       stack_ok t p V s' \<and> sp_of s' t = sp_of ks t - length (le_bytes 8 b) \<and> but_stack t s' = but_stack t ks \<and>
       (\<forall>x \<in> {x. page_floor x \<in> V}. user_read s' p x = (if sp_of ks t - length (le_bytes 8 b) \<le> x \<and> x < sp_of ks t
          then Some (le_bytes 8 b ! (x - (sp_of ks t - length (le_bytes 8 b)))) else user_read ks p x))"
    using t by (auto simp: push_num_def Let_def but_stack_store)
qed

interpretation strings: downward_stack "push_str rd sz t p" str_image "stack_ok t p V" "\<lambda>ks. sp_of ks t"
    "\<lambda>ks. user_read ks p" "but_stack t" "{x. page_floor x \<in> V}" stack_low
proof unfold_locales
  fix ks s
  assume ok: "stack_ok t p V ks" and room: "stack_low + length (str_image s) \<le> sp_of ks t"
  have t: "tasks ks t \<noteq> None" using ok by (simp add: stack_ok_def)
  have l: "length (str_bytes s) = length s" by (simp add: str_bytes_def)
  have r: "stack_low + alignup (length s + 1) 8 \<le> sp_of ks t" "length (str_bytes s) \<le> alignup (length s + 1) 8"
    using room length_str_image [of s] by (auto simp: l)
  from push_bytes [OF ok r, of rd sz] show "\<exists>s'. push_str rd sz t p s ks = Ok (s', sp_of ks t - length (str_image s)) \<and>
       stack_ok t p V s' \<and> sp_of s' t = sp_of ks t - length (str_image s) \<and> but_stack t s' = but_stack t ks \<and>
       (\<forall>x \<in> {x. page_floor x \<in> V}. user_read s' p x = (if sp_of ks t - length (str_image s) \<le> x \<and> x < sp_of ks t
          then Some (str_image s ! (x - (sp_of ks t - length (str_image s)))) else user_read ks p x))"
    using t by (auto simp: push_str_def push_arr_def Let_def but_stack_store l length_str_image(1) str_image_def [symmetric])
      (simp add: str_image_def l)
qed

section \<open>Growing by fresh pages\<close>

lemma task_frame_alloc_fresh:
  assumes wf: "fa_wf (fa st)" and va: "PAGE_SIZE dvd va" "va \<noteq> 0" and n: "0 < n"
    and r: "task_frame_alloc st va mt n = Ok (ms, Some r)"
  shows "\<exists>ts. fresh_trackers (fa st) (fa ms) va n ts \<and> r = tracker (hd ts) \<and> (\<forall>t \<in> set ts. pt ms (vaddr t) = Some (tracker t)) \<and>
    (\<forall>v. v \<notin> vaddr ` set ts \<longrightarrow> pt ms v = pt st v)"
proof (cases "mt = Stack")
  case False
  from task_frame_alloc_post [OF wf va n False] r show ?thesis by (auto simp: frame_alloc_post_def)
next
  case True
  from much_fresh [OF wf n va(2)] obtain f' q where
    q: "frame_alloc_much (fa st) n = Ok (f', q)" "case q of None \<Rightarrow> f' = fa st | Some fr \<Rightarrow> fresh_trackers (fa st) f' va n (make_trackers va fr)"
    by blast
  with r True n va(2) obtain fr where fr: "q = Some fr" by (cases q) (auto simp: task_frame_alloc_def map_frames_def)
  with q(2) have f: "fresh_trackers (fa st) f' va n (make_trackers va fr)" by simp
  from map_fresh [OF wf f va(1), of "pt st"] obtain p' where
    p': "map_pages (pt st) (make_trackers va fr) = Ok p'" "\<forall>t \<in> set (make_trackers va fr). p' (vaddr t) = Some (tracker t)"
      "\<forall>v. v \<notin> vaddr ` set (make_trackers va fr) \<longrightarrow> p' v = pt st v" by blast
  have ms: "fa ms = f'" "pt ms = p'" "r = hd fr"
    using r True n va(2) q(1) fr p'(1) by (auto simp: task_frame_alloc_def map_frames_def Let_def)
  have "fr \<noteq> []" using f n by (auto simp: fresh_trackers_def make_trackers_def)
  then have "r = tracker (hd (make_trackers va fr))" using ms(3) by (cases fr) (simp_all add: make_trackers_def)
  then show ?thesis using f p'(2,3) ms(1,2) by (intro exI [of _ "make_trackers va fr"]) simp
qed

text \<open>A run of free pages is enough for the allocation to succeed.\<close>

definition free_run :: "FrameAllocator \<Rightarrow> nat \<Rightarrow> bool" where
  "free_run f n \<longleftrightarrow> (\<exists>m \<in> set f. \<exists>s. {s..<s + n} \<subseteq> free_pages m)"

lemma grow_succeeds:
  assumes "fa_wf (frames ks)" "pcbs ks p = Some b" "PAGE_SIZE dvd va" "va \<noteq> 0" "0 < n" "free_run (frames ks) n"
  obtains k r where "grow ks p va mt n = Ok (k, Some r)"
proof -
  let ?m = "mem_view ks p b"
  have fr: "fa ?m = frames ks" by (simp add: mem_view_def)
  obtain f' fr where f: "frame_alloc_much (frames ks) n = Ok (f', Some fr)"
    using frame_alloc_much_spec [OF assms(1,5)] assms(6) by (auto simp: much_post_def free_run_def split: option.splits)
  from much_fresh [OF assms(1,5,4)] f have ts: "fresh_trackers (frames ks) f' va n (make_trackers va fr)" by auto
  from map_fresh [OF assms(1) ts assms(3), of "pt ?m"] obtain p' where "map_pages (pt ?m) (make_trackers va fr) = Ok p'" by blast
  then have "\<exists>ms r. task_frame_alloc ?m va mt n = Ok (ms, Some r)"
    using f assms(4,5) by (auto simp: task_frame_alloc_def map_frames_def push_mmap_area_def Let_def fr)
  then show ?thesis using that assms(2) by (auto simp: grow_def Let_def)
qed

definition new_pages :: "usize \<Rightarrow> nat \<Rightarrow> usize set" where
  "new_pages va n = (\<lambda>i. va + i * PAGE_SIZE) ` {..<n}"

lemma pages_of_new: "PAGE_SIZE dvd va \<Longrightarrow> pages_of va (n * PAGE_SIZE) = new_pages va n"
proof (rule set_eqI, rule iffI)
  fix v
  assume d: "PAGE_SIZE dvd va"
  { assume "v \<in> pages_of va (n * PAGE_SIZE)"
    then obtain x where x: "va \<le> x" "x < va + n * PAGE_SIZE" "v = page_floor x" by (auto simp: pages_of_def)
    define y where "y = x - va"
    have y: "x = va + y" "y < n * PAGE_SIZE" using x by (auto simp: y_def)
    have m: "x mod PAGE_SIZE = y mod PAGE_SIZE" using d y(1) by (auto elim!: dvdE)
    have "v = va + y div PAGE_SIZE * PAGE_SIZE"
      using x(3) y(1) m by (simp add: page_floor_def minus_mod_eq_div_mult [symmetric])
    moreover have "y div PAGE_SIZE < n" using y(2) by (simp add: less_mult_imp_div_less)
    ultimately show "v \<in> new_pages va n" by (auto simp: new_pages_def) }
  { assume "v \<in> new_pages va n"
    then obtain i where i: "i < n" "v = va + i * PAGE_SIZE" by (auto simp: new_pages_def)
    have "page_floor v = v" using d i(2) by (auto simp: page_floor_def elim!: dvdE)
    moreover have "v < va + n * PAGE_SIZE" using i PAGE_pos by simp
    ultimately show "v \<in> pages_of va (n * PAGE_SIZE)" using i(2) by (auto simp: pages_of_def intro!: image_eqI [of _ _ v]) }
qed

text \<open>Fresh pages are owned, read as zero, and leave what the process owned as it was.\<close>

lemma grow_owned:
  assumes o: "owned ks p V" and b: "pcbs ks p = Some b" and va: "PAGE_SIZE dvd va" "va \<noteq> 0" and n: "0 < n"
    and g: "grow ks p va mt n = Ok (ks', Some r)" and disj: "V \<inter> new_pages va n = {}"
  shows "owned ks' p (V \<union> new_pages va n)" "phys ks' = phys ks" "tasks ks' = tasks ks" "pcbs ks' p \<noteq> None"
    "page_floor x \<in> V \<Longrightarrow> user_read ks' p x = user_read ks p x"
    "page_floor x \<in> new_pages va n \<Longrightarrow> user_read ks' p x = Some 0"
    "frame_of ks' p va = r"
proof -
  let ?m = "mem_view ks p b"
  have wf: "fa_wf (fa ?m)" using ownedD(1) [OF o] by (simp add: mem_view_def)
  from g b obtain ms where t: "task_frame_alloc ?m va mt n = Ok (ms, Some r)"
    by (auto simp: grow_def Let_def rbind_eq_Ok)
  from task_frame_alloc_fresh [OF wf va n t] obtain ts where
    ts: "fresh_trackers (frames ks) (fa ms) va n ts" "r = tracker (hd ts)" "\<forall>x \<in> set ts. pt ms (vaddr x) = Some (tracker x)"
    by (auto simp: mem_view_def)
  have new: "vaddr ` set ts = new_pages va n" "fa_wf (fa ms)" "distinct (map tracker ts)" "distinct (map vaddr ts)" "length ts = n"
    "tracker ` set ts \<subseteq> free_frames (frames ks)" "free_frames (fa ms) = free_frames (frames ks) - tracker ` set ts"
  proof -
    have v: "map vaddr ts = map (\<lambda>i. va + i * PAGE_SIZE) [0..<n]" using ts(1) by (simp add: fresh_trackers_def)
    then have "set (map vaddr ts) = (\<lambda>i. va + i * PAGE_SIZE) ` {..<n}" by (simp only: set_map set_upt atLeast0LessThan)
    then show "vaddr ` set ts = new_pages va n" by (simp add: new_pages_def)
    show "distinct (map vaddr ts)" unfolding v by (simp add: distinct_map inj_on_def PAGE_SIZE_def)
  qed (use ts(1) in \<open>simp_all add: fresh_trackers_def\<close>)
  have ks': "frames ks' = fa ms" "phys ks' = phys ks" "tasks ks' = tasks ks" "pcbs ks' p \<noteq> None"
    "ptabs ks' p v = (if v \<in> new_pages va n then map_option (\<lambda>f. (f, alloc_flags mt)) (pt ms v) else ptabs ks p v)" for v
    using g b t va(2) by (auto simp: grow_def Let_def new_pages_def atLeast0LessThan)
  show "phys ks' = phys ks" "tasks ks' = tasks ks" "pcbs ks' p \<noteq> None" by (fact ks')+
  have new_frame: "\<exists>t \<in> set ts. vaddr t = v \<and> ptabs ks' p v = Some (tracker t, alloc_flags mt) \<and> frame_of ks' p v = tracker t"
    if "v \<in> new_pages va n" for v
  proof -
    from that obtain t where t: "t \<in> set ts" "vaddr t = v" unfolding new(1) [symmetric] by blast
    then have "pt ms v = Some (tracker t)" using ts(3) by blast
    then have "ptabs ks' p v = Some (tracker t, alloc_flags mt)" using that ks'(5) [of v] by simp
    then show ?thesis using t by (auto simp: frame_of_def)
  qed
  have old: "ptabs ks' p v = ptabs ks p v" "frame_of ks' p v = frame_of ks p v" if "v \<in> V" for v
    using disj that ks'(5) [of v] by (auto simp: frame_of_def)
  have fl: "alloc_flags mt \<noteq> URX" by (simp add: alloc_flags_def)
  show own: "owned ks' p (V \<union> new_pages va n)"
  proof -
    have "\<exists>f fl. ptabs ks' p v = Some (f, fl) \<and> fl \<noteq> URX" "frame_of ks' p v \<notin> free_frames (fa ms)"
      "length (phys ks (frame_of ks' p v)) = PAGE_SIZE" if "v \<in> V \<union> new_pages va n" for v
    proof -
      show "\<exists>f fl. ptabs ks' p v = Some (f, fl) \<and> fl \<noteq> URX"
      proof (cases "v \<in> V")
        case True
        with ownedD(3) [OF o True] old(1) show ?thesis by auto
      next
        case False
        with that new_frame [of v] fl show ?thesis by auto
      qed
      show "frame_of ks' p v \<notin> free_frames (fa ms)"
      proof (cases "v \<in> V")
        case True
        with ownedD(4) [OF o True] old(2) new(7) show ?thesis by auto
      next
        case False
        with that new_frame [of v] new(7) show ?thesis by auto
      qed
      show "length (phys ks (frame_of ks' p v)) = PAGE_SIZE"
      proof (cases "v \<in> V")
        case True
        with ownedD(5) [OF o True] old(2) show ?thesis by auto
      next
        case False
        with that new_frame [of v] obtain t where "t \<in> set ts" "frame_of ks' p v = tracker t" by auto
        then show ?thesis using new(6) ownedD(2) [OF o, of "tracker t"] by (auto simp: Process.zero_page_def)
      qed
    qed
    moreover have "inj_on (frame_of ks' p) (V \<union> new_pages va n)"
    proof (rule inj_onI)
      fix v w
      assume vw: "v \<in> V \<union> new_pages va n" "w \<in> V \<union> new_pages va n" "frame_of ks' p v = frame_of ks' p w"
      have cross: False if "a \<in> V" "c \<in> new_pages va n" "frame_of ks' p a = frame_of ks' p c" for a c
        using that ownedD(4) [OF o that(1)] old(2) [OF that(1)] new_frame [OF that(2)] new(6) by auto
      consider "v \<in> V" "w \<in> V" | "v \<in> new_pages va n" "w \<in> new_pages va n"
        using vw cross [of v w] cross [of w v] by fastforce
      then show "v = w"
      proof cases
        case 1
        then show ?thesis using inj_onD [OF ownedD(6) [OF o]] vw(3) old(2) by metis
      next
        case 2
        then show ?thesis using new_frame [of v] new_frame [of w] vw(3) new(3) by (auto simp: distinct_map dest: inj_onD)
      qed
    qed
    ultimately show ?thesis
      using new(2,7) ownedD(2) [OF o] unfolding owned_def ks'(1,2) by blast
  qed
  show "user_read ks' p x = user_read ks p x" if "page_floor x \<in> V"
    using old(1) [OF that] by (simp add: user_read_def ks'(2))
  show "user_read ks' p x = Some 0" if "page_floor x \<in> new_pages va n"
  proof -
    from new_frame [OF that] obtain t where t: "t \<in> set ts" "ptabs ks' p (page_floor x) = Some (tracker t, alloc_flags mt)" by blast
    have "phys ks (tracker t) = Process.zero_page" using t(1) new(6) ownedD(2) [OF o] by blast
    then show ?thesis using t(2) PAGE_pos by (simp add: user_read_def ks'(2) Process.zero_page_def)
  qed
  show "frame_of ks' p va = r"
  proof -
    have nz: "ts \<noteq> []" using new(5) n by auto
    have "vaddr (hd ts) = va"
    proof -
      have "map vaddr ts = map (\<lambda>i. va + i * PAGE_SIZE) [0..<n]" using ts(1) by (simp add: fresh_trackers_def)
      then have "hd (map vaddr ts) = hd (map (\<lambda>i. va + i * PAGE_SIZE) [0..<n])" by simp
      then show ?thesis using nz n by (simp add: hd_map)
    qed
    moreover have "va \<in> new_pages va n" using n by (auto simp: new_pages_def intro!: image_eqI [of _ _ 0])
    ultimately have "pt ms va = Some r" using ts(2,3) nz by auto
    then show ?thesis using ks'(5) [of va] \<open>va \<in> new_pages va n\<close> by (simp add: frame_of_def)
  qed
qed

section \<open>The stack a program finds\<close>

definition read_word :: "KState \<Rightarrow> nat \<Rightarrow> usize \<Rightarrow> usize" where
  "read_word ks p a = le_nat (virt_bytes ks p a 8)"

definition is_cstr :: "KState \<Rightarrow> nat \<Rightarrow> usize \<Rightarrow> string \<Rightarrow> bool" where
  "is_cstr ks p a s \<longleftrightarrow> (\<forall>i < length s. user_read ks p (a + i) = Some (of_char (s ! i))) \<and> user_read ks p (a + length s) = Some 0"

lemma push_list_append:
  "push_list f (xs @ ys) s = rbind (push_list f xs s) (\<lambda>(s1, as). rmap (\<lambda>(s2, bs). (s2, as @ bs)) (push_list f ys s1))"
proof (induction xs arbitrary: s)
  case Nil
  show ?case by (cases "push_list f ys s") auto
next
  case (Cons x xs)
  show ?case
  proof (cases "f x s")
    case (Ok r)
    show ?thesis
    proof (cases "push_list f xs (fst r)")
      case (Ok q)
      with \<open>f x s = Ok r\<close> Cons show ?thesis by (cases "push_list f ys (fst q)") (auto simp: split_beta)
    qed (use Ok Cons in \<open>auto simp: split_beta\<close>)
  qed auto
qed

lemma push_list_length: "push_list f xs s = Ok (s', as) \<Longrightarrow> length as = length xs"
  by (induction xs arbitrary: s s' as) (auto simp: rbind_eq_Ok rmap_eq_Ok split: prod.splits)

definition stack_strings :: "string list \<Rightarrow> string list \<Rightarrow> string \<Rightarrow> string list" where
  "stack_strings env args path = rev env @ rev args @ [replicate 16 (CHR 0x00), ''riscv'', path]"

lemma push_random: "push_arr rd sz t p (replicate 16 0) ks = push_str rd sz t p (replicate 16 (CHR 0x00)) ks"
  by (simp add: push_str_def str_bytes_def)

lemma push_list_appendE:
  assumes "push_list f (xs @ ys) s = Ok (s2, as)"
  obtains s1 where "push_list f xs s = Ok (s1, take (length xs) as)" "push_list f ys s1 = Ok (s2, drop (length xs) as)"
proof -
  from assms obtain s1 xa ya where r: "push_list f xs s = Ok (s1, xa)" "push_list f ys s1 = Ok (s2, ya)" "as = xa @ ya"
    unfolding push_list_append by (auto simp: rbind_eq_Ok rmap_eq_Ok)
  then show ?thesis using that push_list_length [OF r(1)] by auto
qed

text \<open>The pushes are one list of strings followed by one list of words.\<close>

lemma push_image_strings:
  assumes "push_list (push_str rd sz t p) (stack_strings env args path) ks = Ok (ks1, as)"
  shows "push_image rd sz t p env args im path ks =
       rmap fst (push_list (push_num rd sz t p)
         (stack_words im (as ! (length env + length args + 1)) (as ! (length env + length args + 2)) (as ! (length env + length args))
           (take (length env) as) (take (length args) (drop (length env) as))) ks1)"
proof -
  from push_list_appendE [OF assms [unfolded stack_strings_def]] obtain k1 where
    k1: "push_list (push_str rd sz t p) (rev env) ks = Ok (k1, take (length env) as)"
      "push_list (push_str rd sz t p) (rev args @ [replicate 16 (CHR 0x00), ''riscv'', path]) k1 = Ok (ks1, drop (length env) as)"
    by auto
  from push_list_appendE [OF k1(2)] obtain k2 where
    k2: "push_list (push_str rd sz t p) (rev args) k1 = Ok (k2, take (length args) (drop (length env) as))"
      "push_list (push_str rd sz t p) [replicate 16 (CHR 0x00), ''riscv'', path] k2 = Ok (ks1, drop (length args) (drop (length env) as))"
    by auto
  from k2(2) obtain k3 k4 x y z where k3: "push_str rd sz t p (replicate 16 (CHR 0x00)) k2 = Ok (k3, x)" "push_str rd sz t p ''riscv'' k3 = Ok (k4, y)"
      "push_str rd sz t p path k4 = Ok (ks1, z)" "drop (length args + length env) as = [x, y, z]"
    by (auto simp: rbind_eq_Ok rmap_eq_Ok)
  have n: "as ! (length env + length args + i) = [x, y, z] ! i" if "i < 3" for i
    using nth_drop [of "length args + length env" as i] that push_list_length [OF assms]
    by (simp add: k3(4) stack_strings_def add.commute)
  show ?thesis
    using n [of 0] n [of 1] n [of 2] by (simp add: push_image_def k1(1) k2(1) push_random k3)
qed

lemma cstr_image:
  assumes "\<And>j. j < length (str_image s) \<Longrightarrow> user_read ks p (a + j) = Some (str_image s ! j)"
  shows "is_cstr ks p a s"
proof -
  have l: "length (str_bytes s) = length s" by (simp add: str_bytes_def)
  have "user_read ks p (a + i) = Some (of_char (s ! i))" if "i < length s" for i
    using assms [of i] that length_str_image(2) [of s] by (simp add: str_image_def nth_append l) (simp add: str_bytes_def)
  moreover have "str_image s ! length s = 0"
    using length_str_image [of s] by (simp add: str_image_def nth_append l)
  ultimately show ?thesis using assms [of "length s"] length_str_image(2) [of s] by (simp add: is_cstr_def)
qed

lemma word_image:
  assumes "\<And>j. j < 8 \<Longrightarrow> user_read ks p (a + j) = Some (le_bytes 8 w ! j)" "w < USIZE"
  shows "read_word ks p a = w"
proof -
  have "virt_bytes ks p a 8 = le_bytes 8 w"
    by (rule nth_equalityI) (simp_all add: virt_bytes_def assms(1))
  then show ?thesis using assms(2) by (simp add: read_word_def le_nat_le_bytes USIZE_def)
qed

definition image_ok :: "Image \<Rightarrow> bool" where
  "image_ok im \<longleftrightarrow> im_ph_count im < USIZE \<and> im_ph_entry_size im < USIZE"

lemma auxv_list:
  "auxv im platform execfn random =
     [(3, uadd (im_base im) (im_ph_addr im)), (4, im_ph_entry_size im), (5, im_ph_count im), (6, PAGE_SIZE),
      (9, uadd (im_base im) (im_entry im)), (11, 0), (12, 0), (13, 0), (14, 0), (15, platform), (23, 0), (25, random), (31, execfn)]"
  by (simp add: auxv_def AT_PHDR_def AT_PHENT_def AT_PHNUM_def AT_PAGESZ_def AT_ENTRY_def AT_UID_def AT_EUID_def AT_GID_def
      AT_EGID_def AT_PLATFORM_def AT_SECURE_def AT_RANDOM_def AT_EXECFN_def)

text \<open>The words from the stack pointer up: the count, the pointers, and the auxiliary vector.\<close>

definition runtime_words :: "Image \<Rightarrow> usize \<Rightarrow> usize \<Rightarrow> usize \<Rightarrow> usize list \<Rightarrow> usize list \<Rightarrow> usize list" where
  "runtime_words im platform execfn random envp argv =
     [length argv] @ argv @ [0] @ envp @ [0] @ concat (map (\<lambda>(k, v). [k, v]) (rev (auxv im platform execfn random))) @ [0]"

lemma stack_words_rev:
  "rev (stack_words im platform execfn random envp argv) = runtime_words im platform execfn random (rev envp) (rev argv)"
  by (simp add: stack_words_def runtime_words_def auxv_list)

lemma length_stack_words: "length (stack_words im platform execfn random envp argv) = length envp + length argv + 30"
  by (simp add: stack_words_def auxv_list)

lemma stack_low_facts: "PAGE_SIZE dvd stack_low" "stack_low \<noteq> 0" "0 < USER_STACK_INIT_SIZE div PAGE_SIZE"
  by (simp_all add: PAGE_SIZE_def USER_STACK_TOP_def USER_STACK_INIT_SIZE_def)

lemma stack_setup_ok:
  assumes o: "owned ks p V" and b: "pcbs ks p = Some b" and t: "tasks ks t = Some self"
    and g: "grow ks p stack_low Stack (USER_STACK_INIT_SIZE div PAGE_SIZE) = Ok (k, Some r)"
    and disj: "V \<inter> pages_of stack_low USER_STACK_INIT_SIZE = {}"
  obtains ks1 where "stack_setup ks t p im cx0 = Ok ks1" "stack_ok t p (V \<union> pages_of stack_low USER_STACK_INIT_SIZE) ks1"
    "sp_of ks1 t = USER_STACK_TOP" "\<And>x. page_floor x \<in> V \<Longrightarrow> user_read ks1 p x = user_read ks p x"
    "tasks ks1 t = Some (self\<lparr>tcb := (tcb self)\<lparr>cx := cx0(SP := USER_STACK_TOP, SEPC := uadd (im_base im) (im_entry im))\<rparr>\<rparr>)"
    "\<exists>b'. pcbs ks1 p = Some b' \<and> pcb_heap b' = im_heap_bottom im" "ptabs ks1 = ptabs k" "frames ks1 = frames k"
proof -
  note va = stack_low_facts
  have pg: "pages_of stack_low USER_STACK_INIT_SIZE = new_pages stack_low (USER_STACK_INIT_SIZE div PAGE_SIZE)"
    using pages_of_new [OF va(1), of "USER_STACK_INIT_SIZE div PAGE_SIZE"] by (simp add: USER_STACK_INIT_SIZE_def PAGE_SIZE_def)
  note gr = grow_owned [OF o b va g disj [unfolded pg], folded pg]
  define ks1 where "ks1 = upd_tcb t (\<lambda>c. c\<lparr>cx := cx0(SP := USER_STACK_TOP, SEPC := uadd (im_base im) (im_entry im))\<rparr>)
    (upd_pcb p (\<lambda>b. b\<lparr>pcb_heap := im_heap_bottom im, pcb_entry := uadd (im_base im) (im_entry im)\<rparr>) k)"
  have same: "ptabs ks1 = ptabs k" "phys ks1 = phys k" "frames ks1 = frames k" by (simp_all add: ks1_def)
  have fo: "frame_of ks1 = frame_of k" by (simp add: fun_eq_iff frame_of_def same)
  have ow: "owned ks1 p W = owned k p W" for W by (simp add: owned_def fo same)
  have ur: "user_read ks1 p x = user_read k p x" for x by (simp add: user_read_def same)
  have tk: "tasks ks1 t = Some (self\<lparr>tcb := (tcb self)\<lparr>cx := cx0(SP := USER_STACK_TOP, SEPC := uadd (im_base im) (im_entry im))\<rparr>\<rparr>)"
    using t gr(3) by (simp add: ks1_def)
  then have sp: "sp_of ks1 t = USER_STACK_TOP" by (simp add: sp_of_def)
  have "user_read ks1 p x = Some 0" if "stack_low \<le> x" "x < USER_STACK_TOP" for x
  proof -
    have "page_floor x \<in> pages_of stack_low USER_STACK_INIT_SIZE"
      using that by (auto simp: pages_of_def USER_STACK_TOP_def USER_STACK_INIT_SIZE_def)
    then show ?thesis using gr(6) ur by simp
  qed
  then have "stack_ok t p (V \<union> pages_of stack_low USER_STACK_INIT_SIZE) ks1"
    using gr(1) tk sp by (simp add: stack_ok_def ow)
  moreover have "stack_setup ks t p im cx0 = Ok ks1" using g by (simp add: stack_setup_def ks1_def)
  moreover have "\<exists>b'. pcbs ks1 p = Some b' \<and> pcb_heap b' = im_heap_bottom im" using gr(4) by (auto simp: ks1_def)
  ultimately show ?thesis using that sp tk gr(5) ur same(1,3) by simp
qed

text \<open>The pushes from an empty stack.\<close>

lemma stack_ok_in: "stack_ok t p V ks \<Longrightarrow> stack_low \<le> x \<Longrightarrow> x < USER_STACK_TOP \<Longrightarrow> page_floor x \<in> V"
  unfolding stack_ok_def pages_of_def USER_STACK_TOP_def USER_STACK_INIT_SIZE_def by auto

lemma but_stack_eqD:
  assumes "but_stack t ks' = but_stack t ks" "tasks ks t = Some x"
  shows "ptabs ks' = ptabs ks" "pcbs ks' = pcbs ks" "frames ks' = frames ks" "\<exists>x'. tasks ks' t = Some x' \<and> (\<forall>r. r \<noteq> SP \<longrightarrow> cx (tcb x') r = cx (tcb x) r)"
proof -
  have "ptabs (but_stack t ks') = ptabs (but_stack t ks)" "pcbs (but_stack t ks') = pcbs (but_stack t ks)"
    "frames (but_stack t ks') = frames (but_stack t ks)" "tasks (but_stack t ks') t = tasks (but_stack t ks) t"
    by (simp_all add: assms(1))
  then show "ptabs ks' = ptabs ks" "pcbs ks' = pcbs ks" "frames ks' = frames ks"
    by (simp_all add: but_stack_def)
  from \<open>tasks (but_stack t ks') t = tasks (but_stack t ks) t\<close> obtain x' where x': "tasks ks' t = Some x'"
    "x'\<lparr>tcb := (tcb x')\<lparr>cx := (cx (tcb x'))(SP := 0)\<rparr>\<rparr> = x\<lparr>tcb := (tcb x)\<lparr>cx := (cx (tcb x))(SP := 0)\<rparr>\<rparr>"
    using assms(2) by (auto simp: but_stack_def set_sp_def)
  from arg_cong [where f = "\<lambda>y. cx (tcb y)", OF x'(2)] have e: "(cx (tcb x'))(SP := 0) = (cx (tcb x))(SP := 0)" by simp
  have "cx (tcb x') r = cx (tcb x) r" if "r \<noteq> SP" for r using fun_cong [OF e, of r] that by simp
  then show "\<exists>x'. tasks ks' t = Some x' \<and> (\<forall>r. r \<noteq> SP \<longrightarrow> cx (tcb x') r = cx (tcb x) r)" using x'(1) by blast
qed

lemma push_words:
  assumes ok: "stack_ok t p V ks" and room: "stack_low + 8 * length ws \<le> sp_of ks t" and small: "\<forall>w \<in> set ws. w < USIZE"
  obtains ks' where "rmap fst (push_list (push_num rd sz t p) ws ks) = Ok ks'" "stack_ok t p V ks'" "sp_of ks' t = sp_of ks t - 8 * length ws"
    "but_stack t ks' = but_stack t ks" "\<And>k. k < length ws \<Longrightarrow> read_word ks' p (sp_of ks' t + 8 * k) = rev ws ! k"
    "\<And>x. page_floor x \<in> V \<Longrightarrow> sp_of ks t \<le> x \<Longrightarrow> user_read ks' p x = user_read ks p x"
proof -
  have len: "length (concat (map (le_bytes 8) xs)) = 8 * length xs" for xs by (induction xs) simp_all
  have top: "sp_of ks t \<le> USER_STACK_TOP" using ok by (simp add: stack_ok_def)
  have r: "stack_low + length (concat (map (le_bytes 8) ws)) \<le> sp_of ks t" using room by (simp only: len)
  obtain ks' as where
    w0: "push_list (push_num rd sz t p) ws ks = Ok (ks', as)" "stack_ok t p V ks'"
      "sp_of ks' t = sp_of ks t - length (concat (map (le_bytes 8) ws))" "but_stack t ks' = but_stack t ks" "length as = length ws"
      "\<And>i. i < length ws \<Longrightarrow> as ! i = sp_of ks t - length (concat (map (le_bytes 8) (take (Suc i) ws)))"
      "\<And>i j. i < length ws \<Longrightarrow> j < length (le_bytes 8 (ws ! i)) \<Longrightarrow> as ! i + j \<in> {x. page_floor x \<in> V} \<Longrightarrow>
         user_read ks' p (as ! i + j) = Some (le_bytes 8 (ws ! i) ! j)"
      "\<And>i. i < length ws \<Longrightarrow> stack_low \<le> as ! i \<and> as ! i + length (le_bytes 8 (ws ! i)) \<le> sp_of ks t"
      "\<And>x. x \<in> {x. page_floor x \<in> V} \<Longrightarrow> sp_of ks t \<le> x \<Longrightarrow> user_read ks' p x = user_read ks p x"
    by (rule words.push_list_items [OF ok r, of rd sz]) (rule that)
  have w5: "as ! i = sp_of ks t - 8 * Suc i" if "i < length ws" for i
    using w0(6) [OF that] that by (simp only: len length_take min_absorb2 Suc_leI)
  note w = w0(1,2) w0(3) [unfolded len] w0(4) w5 w0(7,8,9) [unfolded length_le_bytes mem_Collect_eq]
  have "read_word ks' p (sp_of ks' t + 8 * k) = rev ws ! k" if k: "k < length ws" for k
  proof -
    let ?i = "length ws - Suc k"
    have i: "?i < length ws" using k by simp
    have "8 * Suc ?i = 8 * length ws - 8 * k" using k by (simp add: right_diff_distrib')
    then have a: "as ! ?i = sp_of ks' t + 8 * k" using w(5) [OF i] w(3) room k by simp
    have "read_word ks' p (as ! ?i) = ws ! ?i"
    proof (rule word_image)
      show "ws ! ?i < USIZE" using small i by simp
      show "user_read ks' p (as ! ?i + j) = Some (le_bytes 8 (ws ! ?i) ! j)" if "j < 8" for j
      proof (rule w(6) [OF i that])
        show "page_floor (as ! ?i + j) \<in> V"
          by (rule stack_ok_in [OF ok]) (use w(7) [OF i] that top in simp_all)
      qed
    qed
    then show ?thesis using a k by (simp add: rev_nth)
  qed
  then show ?thesis using that w(1-4,8) by auto
qed

lemma push_strings:
  assumes ok: "stack_ok t p V ks" and room: "stack_low + length (concat (map str_image ss)) \<le> sp_of ks t"
  obtains ks' as where "push_list (push_str rd sz t p) ss ks = Ok (ks', as)" "stack_ok t p V ks'"
    "sp_of ks' t = sp_of ks t - length (concat (map str_image ss))" "but_stack t ks' = but_stack t ks" "length as = length ss"
    "\<And>i. i < length ss \<Longrightarrow> sp_of ks' t \<le> as ! i \<and> as ! i + length (str_image (ss ! i)) \<le> sp_of ks t"
    "\<And>i. i < length ss \<Longrightarrow> is_cstr ks' p (as ! i) (ss ! i)"
    "\<And>x. page_floor x \<in> V \<Longrightarrow> sp_of ks t \<le> x \<Longrightarrow> user_read ks' p x = user_read ks p x"
proof -
  have top: "sp_of ks t \<le> USER_STACK_TOP" using ok by (simp add: stack_ok_def)
  obtain ks' as where
    w: "push_list (push_str rd sz t p) ss ks = Ok (ks', as)" "stack_ok t p V ks'"
      "sp_of ks' t = sp_of ks t - length (concat (map str_image ss))" "but_stack t ks' = but_stack t ks" "length as = length ss"
      "\<And>i. i < length ss \<Longrightarrow> as ! i = sp_of ks t - length (concat (map str_image (take (Suc i) ss)))"
      "\<And>i j. i < length ss \<Longrightarrow> j < length (str_image (ss ! i)) \<Longrightarrow> as ! i + j \<in> {x. page_floor x \<in> V} \<Longrightarrow>
         user_read ks' p (as ! i + j) = Some (str_image (ss ! i) ! j)"
      "\<And>i. i < length ss \<Longrightarrow> stack_low \<le> as ! i \<and> as ! i + length (str_image (ss ! i)) \<le> sp_of ks t"
      "\<And>x. x \<in> {x. page_floor x \<in> V} \<Longrightarrow> sp_of ks t \<le> x \<Longrightarrow> user_read ks' p x = user_read ks p x"
    by (rule strings.push_list_items [OF ok room, of rd sz]) (rule that)
  have "is_cstr ks' p (as ! i) (ss ! i)" if i: "i < length ss" for i
  proof (rule cstr_image)
    fix j
    assume j: "j < length (str_image (ss ! i))"
    have "page_floor (as ! i + j) \<in> V" by (rule stack_ok_in [OF ok]) (use w(8) [OF i] j top in simp_all)
    then show "user_read ks' p (as ! i + j) = Some (str_image (ss ! i) ! j)" by (intro w(7) [OF i j]) simp
  qed
  moreover have "sp_of ks' t \<le> as ! i" if "i < length ss" for i
  proof -
    have "concat (map str_image ss) = concat (map str_image (take (Suc i) ss)) @ concat (map str_image (drop (Suc i) ss))"
      by (simp only: concat_append [symmetric] map_append [symmetric] append_take_drop_id)
    then show ?thesis using w(3) w(6) [OF that] by simp
  qed
  ultimately show ?thesis using that [OF w(1-5)] w(8,9) by blast
qed

lemma str_image_dvd: "8 dvd length (concat (map str_image ss))"
  by (induction ss) (simp_all add: length_str_image(1) alignup_def)

lemma is_cstr_cong:
  assumes "is_cstr ks p a s" "\<And>i. i \<le> length s \<Longrightarrow> user_read ks' p (a + i) = user_read ks p (a + i)"
  shows "is_cstr ks' p a s"
  using assms unfolding is_cstr_def by simp

text \<open>
  The words the kernel pushes fit in a register: pointers into the stack, fields of the image
  and small numbers.
\<close>

lemma stack_words_small:
  assumes "image_ok im" "\<forall>a \<in> set envp \<union> set argv \<union> {platform, execfn, random}. a \<le> USER_STACK_TOP" "length argv < USIZE"
  shows "\<forall>w \<in> set (stack_words im platform execfn random envp argv). w < USIZE"
proof -
  have "USER_STACK_TOP < USIZE" by (simp add: USER_STACK_TOP_def USIZE_def)
  then have a: "\<forall>a \<in> set envp \<union> set argv \<union> {platform, execfn, random}. a < USIZE"
    using assms(2) le_less_trans by blast
  have "PAGE_SIZE < USIZE" "0 < USIZE" by (simp_all add: PAGE_SIZE_def USIZE_def)
  then show ?thesis
    using a assms(1,3) by (auto simp: stack_words_def auxv_list image_ok_def uadd_def) (simp_all add: USIZE_def)
qed

text \<open>
  The stack the C runtime expects, within the pages of the stack: from the stack pointer up the number of arguments, a
  pointer to each argument, a null pointer, a pointer to each string of the environment, a
  null pointer and the auxiliary vector.
\<close>

definition runtime_stack :: "KState \<Rightarrow> nat \<Rightarrow> nat \<Rightarrow> string list \<Rightarrow> Image \<Rightarrow> string \<Rightarrow> string \<Rightarrow> bool" where
  "runtime_stack ks' t p args im path libc \<longleftrightarrow> (\<exists>x argv envp platform execfn random. tasks ks' t = Some x \<and>
    cx (tcb x) SEPC = uadd (im_base im) (im_entry im) \<and> 8 dvd cx (tcb x) SP \<and>
    stack_low \<le> cx (tcb x) SP \<and> cx (tcb x) SP + 8 * (length args + 34) \<le> USER_STACK_TOP \<and>
    (\<forall>i < length args + 34. read_word ks' p (cx (tcb x) SP + 8 * i) = runtime_words im platform execfn random envp argv ! i) \<and>
    list_all2 (is_cstr ks' p) argv args \<and> list_all2 (is_cstr ks' p) envp (init_env libc) \<and>
    is_cstr ks' p platform ''riscv'' \<and> is_cstr ks' p execfn path \<and> (\<forall>i < 16. user_read ks' p (random + i) = Some 0))"

lemma init_task_stack_ok:
  assumes o: "owned ks p V" and b: "pcbs ks p = Some b" and t: "tasks ks t = Some self"
    and g: "grow ks p stack_low Stack (USER_STACK_INIT_SIZE div PAGE_SIZE) = Ok (k, Some r)"
    and disj: "V \<inter> pages_of stack_low USER_STACK_INIT_SIZE = {}" and im: "image_ok im"
    and room: "length (concat (map str_image (stack_strings (init_env libc) args path))) + 8 * (length args + 34) \<le> USER_STACK_INIT_SIZE"
  obtains ks' where "init_task_stack rd sz ks t p args im path libc cx0 = Ok ks'" "runtime_stack ks' t p args im path libc"
    "owned ks' p (V \<union> pages_of stack_low USER_STACK_INIT_SIZE)" "ptabs ks' = ptabs k" "frames ks' = frames k"
    "\<exists>b'. pcbs ks' p = Some b' \<and> pcb_heap b' = im_heap_bottom im"
proof -
  define env where "env = init_env libc"
  have le: "length env = 4" by (simp add: env_def init_env_def)
  define S where "S = stack_strings env args path"
  define W where "W = V \<union> pages_of stack_low USER_STACK_INIT_SIZE"
  have lS: "length S = length args + 7" by (simp add: S_def stack_strings_def le)
  obtain ks0 where k0: "stack_setup ks t p im cx0 = Ok ks0" "stack_ok t p W ks0" "sp_of ks0 t = USER_STACK_TOP"
      "\<And>x. page_floor x \<in> V \<Longrightarrow> user_read ks0 p x = user_read ks p x"
      "tasks ks0 t = Some (self\<lparr>tcb := (tcb self)\<lparr>cx := cx0(SP := USER_STACK_TOP, SEPC := uadd (im_base im) (im_entry im))\<rparr>\<rparr>)"
      "\<exists>b'. pcbs ks0 p = Some b' \<and> pcb_heap b' = im_heap_bottom im" "ptabs ks0 = ptabs k" "frames ks0 = frames k"
    by (rule stack_setup_ok [OF o b t g disj, folded W_def]) (rule that)
  have top: "stack_low + USER_STACK_INIT_SIZE = USER_STACK_TOP" by (simp add: USER_STACK_TOP_def USER_STACK_INIT_SIZE_def)
  have room1: "stack_low + length (concat (map str_image S)) + 8 * (length args + 34) \<le> USER_STACK_TOP"
    using room top unfolding S_def env_def by linarith
  have r1: "stack_low + length (concat (map str_image S)) \<le> sp_of ks0 t" using room1 k0(3) by linarith
  obtain ks1 as where k1: "push_list (push_str rd sz t p) S ks0 = Ok (ks1, as)" "stack_ok t p W ks1"
      "sp_of ks1 t = sp_of ks0 t - length (concat (map str_image S))" "but_stack t ks1 = but_stack t ks0" "length as = length S"
      "\<And>i. i < length S \<Longrightarrow> sp_of ks1 t \<le> as ! i \<and> as ! i + length (str_image (S ! i)) \<le> sp_of ks0 t"
      "\<And>i. i < length S \<Longrightarrow> is_cstr ks1 p (as ! i) (S ! i)"
      "\<And>x. page_floor x \<in> W \<Longrightarrow> sp_of ks0 t \<le> x \<Longrightarrow> user_read ks1 p x = user_read ks0 p x"
    by (rule push_strings [OF k0(2) r1]) (rule that)
  define n where "n = length args"
  let ?envp = "take 4 as" and ?argv = "take n (drop 4 as)"
  let ?ws = "stack_words im (as ! (n + 5)) (as ! (n + 6)) (as ! (n + 4)) ?envp ?argv"
  have lw: "length ?ws = n + 34" using k1(5) lS by (simp add: length_stack_words n_def)
  have asle: "a \<le> USER_STACK_TOP" if "a \<in> set as" for a
    using that k1(5,6) k0(3) by (auto simp: in_set_conv_nth intro: le_trans [OF le_add1])
  have small: "\<forall>w \<in> set ?ws. w < USIZE"
  proof (rule stack_words_small [OF im])
    have "as ! (n + 5) \<in> set as" "as ! (n + 6) \<in> set as" "as ! (n + 4) \<in> set as" using k1(5) lS by (simp_all add: n_def)
    then show "\<forall>a \<in> set ?envp \<union> set ?argv \<union> {as ! (n + 5), as ! (n + 6), as ! (n + 4)}. a \<le> USER_STACK_TOP"
      using asle set_take_subset [of 4 as] set_take_subset [of n "drop 4 as"] set_drop_subset [of 4 as] by blast
    have "n < USER_STACK_TOP" using room1 by (simp add: n_def)
    then show "length ?argv < USIZE" by (simp add: USER_STACK_TOP_def USIZE_def)
  qed
  have r2: "stack_low + 8 * length ?ws \<le> sp_of ks1 t" using room1 k1(3) k0(3) lw by (simp add: n_def)
  obtain ks2 where k2: "rmap fst (push_list (push_num rd sz t p) ?ws ks1) = Ok ks2" "stack_ok t p W ks2"
      "sp_of ks2 t = sp_of ks1 t - 8 * length ?ws" "but_stack t ks2 = but_stack t ks1"
      "\<And>k. k < length ?ws \<Longrightarrow> read_word ks2 p (sp_of ks2 t + 8 * k) = rev ?ws ! k"
      "\<And>x. page_floor x \<in> W \<Longrightarrow> sp_of ks1 t \<le> x \<Longrightarrow> user_read ks2 p x = user_read ks1 p x"
    by (rule push_words [OF k1(2) r2 small]) (rule that)
  have low1: "stack_low \<le> sp_of ks1 t" using k1(2) by (simp add: stack_ok_def)
  have cs: "is_cstr ks2 p (as ! i) (S ! i)" if i: "i < length S" for i
  proof (rule is_cstr_cong [OF k1(7) [OF i]])
    fix j
    assume j: "j \<le> length (S ! i)"
    have a: "sp_of ks1 t \<le> as ! i + j" "as ! i + j < USER_STACK_TOP"
      using k1(6) [OF i] k0(3) j length_str_image(2) [of "S ! i"] by linarith+
    then have "page_floor (as ! i + j) \<in> W" using low1 by (intro stack_ok_in [OF k1(2)]) linarith+
    then show "user_read ks2 p (as ! i + j) = user_read ks1 p (as ! i + j)" using k2(6) a(1) by blast
  qed
  have init: "init_task_stack rd sz ks t p args im path libc cx0 = Ok ks2"
    using k0(1) push_image_strings [OF k1(1) [unfolded S_def], of im] k2(1)
    by (simp add: init_task_stack_def env_def [symmetric] le n_def add.commute)
  from but_stack_eqD [OF trans [OF k2(4) k1(4)] k0(5)] obtain x where
    x: "tasks ks2 t = Some x" "cx (tcb x) SEPC = uadd (im_base im) (im_entry im)" "pcbs ks2 = pcbs ks0"
      "ptabs ks2 = ptabs ks0" "frames ks2 = frames ks0" by auto
  have sp: "sp_of ks2 t = cx (tcb x) SP" using x(1) by (simp add: sp_of_def)
  have d: "8 dvd cx (tcb x) SP"
  proof -
    have "8 dvd USER_STACK_TOP" by (simp add: USER_STACK_TOP_def)
    then show ?thesis
      unfolding sp [symmetric] k2(3) k1(3) k0(3) using str_image_dvd [of S] by (intro dvd_diff_nat) simp_all
  qed
  have ww: "read_word ks2 p (cx (tcb x) SP + 8 * i) = runtime_words im (as ! (n + 5)) (as ! (n + 6)) (as ! (n + 4)) (rev ?envp) (rev ?argv) ! i"
    if "i < n + 34" for i
    using k2(5) [of i] that unfolding lw stack_words_rev sp by simp
  have args: "list_all2 (is_cstr ks2 p) (rev ?argv) args"
  proof (rule list_all2_all_nthI)
    show "length (rev ?argv) = length args" using k1(5) lS by (simp add: n_def)
    fix i
    assume "i < length (rev ?argv)"
    then have i: "i < n" by simp
    have "rev ?argv ! i = as ! (n + 3 - i)" using i k1(5) lS by (simp add: rev_nth n_def add.commute)
    moreover have "S ! (n + 3 - i) = args ! i"
      using i by (auto simp: S_def stack_strings_def nth_append le n_def rev_nth)
    moreover have "n + 3 - i < length S" using lS i by (simp add: n_def)
    ultimately show "is_cstr ks2 p (rev ?argv ! i) (args ! i)" using cs by metis
  qed
  have envs: "list_all2 (is_cstr ks2 p) (rev ?envp) env"
  proof (rule list_all2_all_nthI)
    show "length (rev ?envp) = length env" using k1(5) lS by (simp add: le)
    fix i
    assume "i < length (rev ?envp)"
    then have i: "i < 4" by simp
    have "rev ?envp ! i = as ! (3 - i)" using i k1(5) lS by (simp add: rev_nth)
    moreover have "S ! (3 - i) = env ! i" using i by (auto simp: S_def stack_strings_def nth_append le rev_nth)
    moreover have "3 - i < length S" using lS by simp
    ultimately show "is_cstr ks2 p (rev ?envp ! i) (env ! i)" using cs by metis
  qed
  have nth: "S ! (n + 4) = replicate 16 (CHR 0x00)" "S ! (n + 5) = ''riscv''" "S ! (n + 6) = path"
    by (simp_all add: S_def stack_strings_def nth_append le n_def)
  have three: "is_cstr ks2 p (as ! (n + 4)) (replicate 16 (CHR 0x00))" "is_cstr ks2 p (as ! (n + 5)) ''riscv''" "is_cstr ks2 p (as ! (n + 6)) path"
    using cs [of "n + 4"] cs [of "n + 5"] cs [of "n + 6"] lS by (simp_all add: nth n_def [symmetric])
  have "user_read ks2 p (as ! (n + 4) + i) = Some 0" if "i < 16" for i
    using three(1) that by (simp add: is_cstr_def)
  moreover have "stack_low \<le> cx (tcb x) SP" "cx (tcb x) SP + 8 * (length args + 34) \<le> USER_STACK_TOP"
  proof -
    have "sp_of ks1 t \<le> USER_STACK_TOP" "stack_low \<le> sp_of ks2 t" using k1(2) k2(2) by (simp_all add: stack_ok_def)
    moreover have "sp_of ks2 t + 8 * (n + 34) = sp_of ks1 t" using k2(3) r2 unfolding lw by simp
    ultimately show "stack_low \<le> cx (tcb x) SP" "cx (tcb x) SP + 8 * (length args + 34) \<le> USER_STACK_TOP"
      unfolding sp n_def by linarith+
  qed
  ultimately have "runtime_stack ks2 t p args im path libc"
    using x(1,2) d ww args envs three(2,3) unfolding runtime_stack_def env_def n_def by blast
  moreover have "owned ks2 p W" using k2(2) by (simp add: stack_ok_def)
  ultimately show ?thesis using that init k0(6-8) x(3-5) unfolding W_def by metis
qed

text \<open>
  C6: a new program finds the stack the C runtime expects.  From the stack pointer, which is a
  multiple of 8, there are the number of arguments, a pointer to each argument and a null
  pointer, a pointer to each string of the environment and a null pointer, and the auxiliary
  vector with the entry point, the program headers and the page size, ended by a zero; every
  pointer leads to its string with a zero byte after it.  The program counter is the entry
  point.  This holds whatever the arguments are, as long as they fit in the
  initial stack and there is a run of free pages for it.
\<close>

theorem initial_stack_layout:
  assumes o: "owned ks p V" and b: "pcbs ks p = Some b" and t: "tasks ks t = Some self"
    and free: "free_run (frames ks) (USER_STACK_INIT_SIZE div PAGE_SIZE)"
    and disj: "V \<inter> pages_of stack_low USER_STACK_INIT_SIZE = {}" and im: "image_ok im"
    and room: "length (concat (map str_image (stack_strings (init_env libc) args path))) + 8 * (length args + 34) \<le> USER_STACK_INIT_SIZE"
  shows "\<exists>ks' b'. init_task_stack rd sz ks t p args im path libc cx0 = Ok ks' \<and> runtime_stack ks' t p args im path libc \<and>
    pcbs ks' p = Some b' \<and> pcb_heap b' = im_heap_bottom im"
proof -
  obtain k r where g: "grow ks p stack_low Stack (USER_STACK_INIT_SIZE div PAGE_SIZE) = Ok (k, Some r)"
    by (rule grow_succeeds [OF ownedD(1) [OF o] b stack_low_facts free])
  show ?thesis by (rule init_task_stack_ok [OF o b t g disj im room]) blast
qed

definition fresh_process :: KState where
  "fresh_process = boot_state 0 0 [\<lparr>bits = [0], paddr = 0x1000, paddr_end = 0x41000\<rparr>]"

lemma fresh_process_simps:
  "frames fresh_process = [\<lparr>bits = [0], paddr = 0x1000, paddr_end = 0x41000\<rparr>]" "phys fresh_process = (\<lambda>_. Process.zero_page)"
  "tasks fresh_process 1 = Some \<lparr>process_id = 1, parent = None, tcb = tcb_new (\<lambda>_. 0) 0\<rparr>"
  "pcbs fresh_process 1 = Some ((pcb_new 0 0)\<lparr>threads := [1]\<rparr>)" "ptabs fresh_process = (\<lambda>_. Map.empty)"
  by (simp_all add: fresh_process_def boot_state_def)

lemma fresh_process_owned: "owned fresh_process p {}"
  by (simp add: owned_def fresh_process_simps frame_wf_eval)

lemma fresh_process_run: "free_run (frames fresh_process) 32"
proof -
  have "{0..<0 + 32} \<subseteq> free_pages \<lparr>bits = [0], paddr = 0x1000, paddr_end = 0x41000\<rparr>"
    by (auto simp: free_pages_def used_def region_pages_def div_ceil_def PAGE_SIZE_def)
  then show ?thesis unfolding free_run_def fresh_process_simps by (intro bexI exI [of _ 0]) simp_all
qed

theorem initial_stack_layout_witness:
  "\<exists>ks' x argv. init_task_stack (\<lambda>_ _ _. Ok []) (\<lambda>_. Ok 0) fresh_process 1 1 [''ls'', ''-l'']
       \<lparr>im_base = 0, im_entry = 0x10000, im_ph_count = 3, im_ph_entry_size = 56, im_ph_addr = 64, im_heap_bottom = 0x20000\<rparr>
       ''/ls'' ''/lib'' (\<lambda>_. 0) = Ok ks' \<and> tasks ks' 1 = Some x \<and> cx (tcb x) SEPC = 0x10000 \<and>
     read_word ks' 1 (cx (tcb x) SP) = 2 \<and> list_all2 (is_cstr ks' 1) argv [''ls'', ''-l'']"
proof -
  let ?im = "\<lparr>im_base = 0, im_entry = 0x10000, im_ph_count = 3, im_ph_entry_size = 56, im_ph_addr = 64, im_heap_bottom = 0x20000\<rparr>"
  have im: "image_ok ?im" by (simp add: image_ok_def USIZE_def)
  have run: "free_run (frames fresh_process) (USER_STACK_INIT_SIZE div PAGE_SIZE)"
    using fresh_process_run by (simp add: USER_STACK_INIT_SIZE_def PAGE_SIZE_def)
  have room: "length (concat (map str_image (stack_strings (init_env ''/lib'') [''ls'', ''-l''] ''/ls''))) + 8 * (length [''ls'', ''-l''] + 34)
      \<le> USER_STACK_INIT_SIZE"
    by (simp add: stack_strings_def init_env_def ESC_def length_str_image alignup_def div_ceil_def USER_STACK_INIT_SIZE_def)
  from initial_stack_layout [OF fresh_process_owned fresh_process_simps(4,3) run Int_empty_left im room, of "\<lambda>_ _ _. Ok []" "\<lambda>_. Ok 0" "\<lambda>_. 0"]
  obtain ks' b' where i: "init_task_stack (\<lambda>_ _ _. Ok []) (\<lambda>_. Ok 0) fresh_process 1 1 [''ls'', ''-l''] ?im ''/ls'' ''/lib'' (\<lambda>_. 0) = Ok ks'"
      "runtime_stack ks' 1 1 [''ls'', ''-l''] ?im ''/ls'' ''/lib''"
    by (elim exE conjE) (rule that)
  from i(2) obtain x argv envp platform execfn random where
    r: "tasks ks' 1 = Some x" "cx (tcb x) SEPC = uadd (im_base ?im) (im_entry ?im)"
      "\<forall>i < length [''ls'', ''-l''] + 34. read_word ks' 1 (cx (tcb x) SP + 8 * i) = runtime_words ?im platform execfn random envp argv ! i"
      "list_all2 (is_cstr ks' 1) argv [''ls'', ''-l'']"
    unfolding runtime_stack_def by (elim exE conjE) (rule that)
  have "read_word ks' 1 (cx (tcb x) SP) = length argv" using r(3) by (auto simp: runtime_words_def dest: spec [of _ 0])
  moreover have "length argv = 2" using list_all2_lengthD [OF r(4)] by simp
  ultimately show ?thesis using i(1) r by (auto simp: uadd_def USIZE_def)
qed

end
