(* ===== verification/Exec.thy ===== *)
theory Exec
  imports User_Stack Paths
begin

text \<open>
  Loading a program: \<^verbatim>\<open>kernel/src/tasks/exec.rs\<close>, the ELF helpers of \<^verbatim>\<open>kernel/src/tasks/elf.rs\<close>
  and \<^verbatim>\<open>sys_execve\<close>.  The ELF reader is a library; its accessors are functions of the bytes
  of the buffer they read from.
\<close>

section \<open>What the ELF reader returns\<close>

datatype PhType = Load | Interp | Phdr | OtherPh | BadPh

text \<open>\<open>ph_text\<close>: the data of the segment as text, \<open>None\<close> when it is not UTF-8.\<close>

record ProgramHeader =
  ph_type :: PhType
  ph_virtual_addr :: usize
  ph_mem_size :: usize
  ph_file_size :: usize
  ph_offset :: usize
  ph_undefined :: bool
  ph_text :: "string option"

datatype SectionData = Rela64 "(nat \<times> nat) list" | DynSymbolTable64 "(nat \<times> bool) list" | OtherSection

record ElfFile =
  elf_new :: "u8 list \<Rightarrow> bool"
  elf_magic :: "u8 list \<Rightarrow> u8 list"
  elf_entry_point :: "u8 list \<Rightarrow> usize"
  elf_ph_count :: "u8 list \<Rightarrow> usize"
  elf_ph_entry_size :: "u8 list \<Rightarrow> usize"
  elf_ph_offset :: "u8 list \<Rightarrow> usize"
  program_iter :: "u8 list \<Rightarrow> ProgramHeader list"
  find_section :: "u8 list \<Rightarrow> string \<Rightarrow> SectionData option option"

section \<open>ELF helpers\<close>

definition get_ph_addr :: "ElfFile \<Rightarrow> u8 list \<Rightarrow> usize res" where
  "get_ph_addr e buf =
     (case List.find (\<lambda>ph. ph_type ph = Phdr) (program_iter e buf) of
        Some ph \<Rightarrow> Ok (ph_virtual_addr ph)
      | None \<Rightarrow>
          (case List.find (\<lambda>ph. ph_type ph = Load \<and> ph_offset ph = 0) (program_iter e buf) of
             Some ph \<Rightarrow> Ok (uadd (ph_virtual_addr ph) (elf_ph_offset e buf))
           | None \<Rightarrow> Err EBADF))"

definition dynsym :: "ElfFile \<Rightarrow> u8 list \<Rightarrow> (nat \<times> bool) list option" where
  "dynsym e buf =
     (case find_section e buf ''.dynsym'' of
        Some (Some (DynSymbolTable64 ds)) \<Rightarrow> Some ds
      | _ \<Rightarrow> None)"

text \<open>
  The relocations are only looked at: \<open>Ok True\<close> when all are of known types with defined
  symbols, \<open>Ok False\<close> for an error that is returned.
\<close>

fun relocate_entries :: "(nat \<times> nat) list \<Rightarrow> (nat \<times> bool) list \<Rightarrow> bool res" where
  "relocate_entries [] ds = Ok True"
| "relocate_entries ((ty, i) # es) ds =
     (if ty \<in> {6, 7, 2, 0x401} then
        if i \<ge> length ds then Panic
        else if fst (ds ! i) = 0 then (if snd (ds ! i) then Panic else Ok False)
        else relocate_entries es ds
      else if ty \<in> {8, 3, 0x403} then relocate_entries es ds
      else Panic)"

definition relocate :: "ElfFile \<Rightarrow> u8 list \<Rightarrow> usize \<Rightarrow> usize option res" where
  "relocate e buf base =
     (case find_section e buf ''.rela.dyn'' of
        Some (Some (Rela64 es)) \<Rightarrow>
          (case dynsym e buf of
             None \<Rightarrow> Ok None
           | Some ds \<Rightarrow> rmap (\<lambda>ok. if ok then Some base else None) (relocate_entries es ds))
      | _ \<Rightarrow> Ok None)"

definition relocate_or_zero :: "ElfFile \<Rightarrow> u8 list \<Rightarrow> usize res" where
  "relocate_or_zero e buf = rmap (\<lambda>r. case r of Some b \<Rightarrow> b | None \<Rightarrow> 0) (relocate e buf USER_DYN_ADDR)"

datatype LibcType = Musl | Glibc | Unknown

definition str_contains :: "string \<Rightarrow> string \<Rightarrow> bool" where
  "str_contains s pat \<longleftrightarrow> list_ex (\<lambda>i. take (length pat) (drop i s) = pat) [0..<Suc (length s)]"

definition trim_nul :: "string \<Rightarrow> string" where
  "trim_nul s = rev (dropWhile (\<lambda>c. c = CHR 0x00) (rev s))"

definition detect_libc_type :: "ProgramHeader list \<Rightarrow> LibcType" where
  "detect_libc_type phs =
     (case List.find (\<lambda>ph. ph_type ph = Interp) phs of
        None \<Rightarrow> Unknown
      | Some ph \<Rightarrow>
          (case (if ph_undefined ph then ph_text ph else None) of
             None \<Rightarrow> Unknown
           | Some s \<Rightarrow>
               if str_contains (trim_nul s) ''musl'' then Musl
               else if str_contains (trim_nul s) ''glibc'' \<or> str_contains (trim_nul s) ''ld-linux'' then Glibc
               else Unknown))"

definition heap_bottom :: "ProgramHeader list \<Rightarrow> usize res" where
  "heap_bottom phs =
     (if phs = [] then Panic
      else Ok (umul (div_ceil (foldr max (map (\<lambda>ph. uadd (ph_virtual_addr ph) (ph_mem_size ph)) phs) 0) PAGE_SIZE) PAGE_SIZE))"

section \<open>Loading segments\<close>

text \<open>
  A segment is allocated at its pages, copied from the buffer through the page table of the
  process, and compared with the memory at the physical and the virtual address.
\<close>

definition segment_pages :: "usize \<Rightarrow> usize \<Rightarrow> nat" where
  "segment_pages va mem_size = usub (div_ceil (uadd va mem_size) PAGE_SIZE) (va div PAGE_SIZE)"

definition load_segment :: "fread \<Rightarrow> fsize \<Rightarrow> nat \<Rightarrow> nat \<Rightarrow> usize \<Rightarrow> u8 list \<Rightarrow> ProgramHeader \<Rightarrow> KState \<Rightarrow> KState res" where
  "load_segment rd sz t p base buf ph ks =
     (let va = uadd base (ph_virtual_addr ph);
          n = ph_file_size ph
      in rbind (grow ks p (page_floor va) Mmap (segment_pages va (ph_mem_size ph))) (\<lambda>(k1, r).
        case r of
          None \<Rightarrow> Panic
        | Some f \<Rightarrow>
            if ph_offset ph + n > length buf then Panic
            else
              let bs = take n (drop (ph_offset ph) buf)
              in rbind (store_bytes rd sz t p va bs k1) (\<lambda>k2.
                if phys_bytes k2 (f + va mod PAGE_SIZE) n = virt_bytes k2 p va n \<and> bs = phys_bytes k2 (f + va mod PAGE_SIZE) n
                then Ok k2 else Panic)))"

fun load_segments :: "fread \<Rightarrow> fsize \<Rightarrow> nat \<Rightarrow> nat \<Rightarrow> usize \<Rightarrow> u8 list \<Rightarrow> ProgramHeader list \<Rightarrow> KState \<Rightarrow> KState res" where
  "load_segments rd sz t p base buf [] ks = Ok ks"
| "load_segments rd sz t p base buf (ph # phs) ks =
     rbind (load_segment rd sz t p base buf ph ks) (load_segments rd sz t p base buf phs)"

definition elf_image :: "ElfFile \<Rightarrow> u8 list \<Rightarrow> Image res" where
  "elf_image e buf =
     rbind (heap_bottom (program_iter e buf)) (\<lambda>hb.
       rbind (relocate_or_zero e buf) (\<lambda>base.
         Ok \<lparr>im_base = base, im_entry = elf_entry_point e buf, im_ph_count = elf_ph_count e buf,
             im_ph_entry_size = elf_ph_entry_size e buf,
             im_ph_addr = (case get_ph_addr e buf of Ok a \<Rightarrow> a | _ \<Rightarrow> 0), im_heap_bottom = hb\<rparr>))"

definition load_elf :: "fread \<Rightarrow> fsize \<Rightarrow> ElfFile \<Rightarrow> u8 list \<Rightarrow> nat \<Rightarrow> nat \<Rightarrow> string list \<Rightarrow> string \<Rightarrow> string \<Rightarrow> TrapFrame \<Rightarrow> KState \<Rightarrow> KState res" where
  "load_elf rd sz e buf t p args path libc cx0 ks =
     rbind (elf_image e buf) (\<lambda>im.
       rbind (init_task_stack rd sz ks t p args im path libc cx0)
         (\<lambda>k. if list_ex (\<lambda>ph. ph_type ph = BadPh) (program_iter e buf) then Panic
               else load_segments rd sz t p (im_base im) buf (filter (\<lambda>ph. ph_type ph = Load) (program_iter e buf)) k))"

section \<open>Replacing the program of a process\<close>

record TaskCacheTemplate =
  tc_name :: PathBuf
  tc_image :: Image
  tc_maps :: "MemArea list"

text \<open>
  What the function gets from the rest of the kernel: opening a file by path, the size and
  contents of an open file, the ELF reader, the cached programs, the paths of the two
  dynamic linkers, a fresh trap frame, and the path of an open directory.
\<close>

record ExecEnv =
  x_open :: "PathBuf \<Rightarrow> nat res"
  x_size :: fsize
  x_read :: fread
  x_elf :: ElfFile
  x_caches :: "TaskCacheTemplate list"
  x_libc :: string
  x_dyn :: string
  x_cx0 :: TrapFrame
  x_cwd :: "nat \<Rightarrow> PathBuf"

definition exec_clear :: "KState \<Rightarrow> nat \<Rightarrow> KState res" where
  "exec_clear ks p =
     (case pcbs ks p of
        None \<Rightarrow> Panic
      | Some b \<Rightarrow>
          rmap (\<lambda>k. k\<lparr>ptabs := (ptabs k)(p := Map.empty)\<rparr>)
            (release_frames (upd_pcb p (\<lambda>b. b\<lparr>pcb_memset := []\<rparr>) ks) (held (pcb_memset b))))"

text \<open>
  A cached area takes the place of what is there; nothing the new memory holds at this
  point is backed by a shared file, so nothing is written back.
\<close>

definition replace_area :: "nat \<Rightarrow> MemArea \<Rightarrow> KState \<Rightarrow> KState res" where
  "replace_area p a ks =
     (case pcbs ks p of
        None \<Rightarrow> Panic
      | Some b \<Rightarrow>
          (case sub_area (pcb_memset b) (\<lambda>v. map_option fst (ptabs ks p v)) (start a) (uadd (start a) (len a)) of
             (ms, _, eff) \<Rightarrow>
               rbind (release_frames
                   ((upd_pcb p (\<lambda>b. b\<lparr>pcb_memset := ms @ [a]\<rparr>) ks)\<lparr>ptabs := (ptabs ks)(p := (\<lambda>v. if v \<in> set (unmapped eff) then None else ptabs ks p v))\<rparr>)
                   (map tracker (dropped eff))) (\<lambda>k.
                 rmap (\<lambda>pt'. k\<lparr>ptabs := (ptabs k)(p := pt')\<rparr>)
                   (map_all URX (map (\<lambda>x. (vaddr x, tracker x)) (mtrackers a)) (ptabs k p)))))"

fun replace_areas :: "nat \<Rightarrow> MemArea list \<Rightarrow> KState \<Rightarrow> KState res" where
  "replace_areas p [] ks = Ok ks"
| "replace_areas p (a # as) ks = rbind (replace_area p a ks) (replace_areas p as)"

definition exec_cached :: "ExecEnv \<Rightarrow> TaskCacheTemplate \<Rightarrow> nat \<Rightarrow> nat \<Rightarrow> string list \<Rightarrow> PathBuf \<Rightarrow> KState \<Rightarrow> KState res" where
  "exec_cached X c t p args path ks =
     rbind (init_task_stack (x_read X) (x_size X) ks t p args (tc_image c) (path_string path) (x_libc X) (x_cx0 X))
       (replace_areas p (tc_maps c))"

text \<open>The frames of a buffer are cleared and given back when it is dropped.\<close>

definition drop_buffer :: "usize list \<Rightarrow> KState \<Rightarrow> KState res" where
  "drop_buffer frs ks =
     rmap (\<lambda>f. ks\<lparr>frames := f, phys := (\<lambda>x. if x \<in> set frs then Process.zero_page else phys ks x)\<rparr>) (drop_frames (frames ks) frs)"

definition with_buffer :: "usize list \<Rightarrow> KState \<times> 'a res \<Rightarrow> KState \<times> 'a res" where
  "with_buffer frs r = (case drop_buffer frs (fst r) of Ok k \<Rightarrow> (k, snd r) | _ \<Rightarrow> (fst r, Panic))"

definition state_result :: "KState \<Rightarrow> KState res \<Rightarrow> KState \<times> unit res" where
  "state_result ks r = (case r of Ok k \<Rightarrow> (k, Ok ()) | Err e \<Rightarrow> (ks, Err e) | Panic \<Rightarrow> (ks, Panic))"

definition read_file :: "ExecEnv \<Rightarrow> PathBuf \<Rightarrow> KState \<Rightarrow> KState \<times> (usize list \<times> u8 list) res" where
  "read_file X path ks =
     (case rbind (x_open X path) (\<lambda>g. rmap (Pair g) (x_size X g)) of
        Err e \<Rightarrow> (ks, Err e)
      | Panic \<Rightarrow> (ks, Panic)
      | Ok (g, n) \<Rightarrow>
          (case frame_alloc_much (frames ks) (div_ceil n PAGE_SIZE) of
             Ok (fa', Some (f # frs)) \<Rightarrow>
               (case x_read X g 0 n of
                  Ok buf \<Rightarrow> if length buf = n then (ks\<lparr>frames := fa'\<rparr>, Ok (f # frs, buf)) else (ks, Panic)
                | Err e \<Rightarrow> with_buffer (f # frs) (ks\<lparr>frames := fa'\<rparr>, Err e)
                | Panic \<Rightarrow> (ks, Panic))
           | _ \<Rightarrow> (ks, Panic)))"

definition ELF_MAGIC :: "u8 list" where
  "ELF_MAGIC = [0x7f, 0x45, 0x4c, 0x46]"

text \<open>
  A file that is not ELF is given to the shell, a file with an interpreter to a dynamic
  linker, so the function calls itself; \<open>None\<close> when the fuel ends first.  The linker is chosen
  by the headers in the buffer, which at that point has been dropped and reads as zeros.
\<close>

fun exec_with_process :: "nat \<Rightarrow> ExecEnv \<Rightarrow> KState \<Rightarrow> nat \<Rightarrow> PathBuf \<Rightarrow> string \<Rightarrow> string list \<Rightarrow> (KState \<times> unit res) option" where
  "exec_with_process 0 X ks t cwd name args = None"
| "exec_with_process (Suc n) X ks t cwd name args =
     (let path = path_join cwd name in
      case tasks ks t of
        None \<Rightarrow> Some (ks, Panic)
      | Some self \<Rightarrow>
          (case exec_clear ks (process_id self) of
             Ok k1 \<Rightarrow>
               (case List.find (\<lambda>c. tc_name c = path) (x_caches X) of
                  Some c \<Rightarrow> Some (state_result k1 (exec_cached X c t (process_id self) args path k1))
                | None \<Rightarrow>
                    (case read_file X path k1 of
                       (k2, Ok (frs, buf)) \<Rightarrow>
                         if \<not> elf_new (x_elf X) buf then
                           map_option (with_buffer frs) (exec_with_process n X k2 t cwd ''busybox'' ([''busybox'', ''sh''] @ args))
                         else if elf_magic (x_elf X) buf \<noteq> ELF_MAGIC then Some (k2, Panic)
                         else if (case List.find (\<lambda>ph. ph_type ph = Interp) (program_iter (x_elf X) buf) of
                                    Some ph \<Rightarrow> ph_undefined ph | None \<Rightarrow> False) then
                           (case drop_buffer frs k2 of
                              Ok k3 \<Rightarrow>
                                (let linker = (case detect_libc_type (program_iter (x_elf X) (replicate (length buf) 0)) of
                                                 Musl \<Rightarrow> x_libc X | Glibc \<Rightarrow> x_dyn X | Unknown \<Rightarrow> x_dyn X)
                                 in exec_with_process n X k3 t cwd linker ([linker, path_string path] @ drop 1 args))
                            | _ \<Rightarrow> Some (k2, Panic))
                         else
                           Some (with_buffer frs (state_result k2
                             (load_elf (x_read X) (x_size X) (x_elf X) buf t (process_id self) args (path_string path) (x_libc X) (x_cx0 X) k2)))
                     | (k2, Err e) \<Rightarrow> Some (k2, Err e)
                     | (k2, Panic) \<Rightarrow> Some (k2, Panic)))
           | _ \<Rightarrow> Some (ks, Panic)))"

text \<open>
  The strings are what is read from user memory: \<open>None\<close> when they are not UTF-8.  The
  environment is read and not used.
\<close>

definition sys_execve :: "nat \<Rightarrow> ExecEnv \<Rightarrow> KState \<Rightarrow> nat \<Rightarrow> string option \<Rightarrow> string list option \<Rightarrow> string list option \<Rightarrow>
    (KState \<times> nat res) option" where
  "sys_execve n X ks t fname args envp =
     (case (fname, args, envp) of
        (None, _, _) \<Rightarrow> Some (ks, Err EINVAL)
      | (Some f, Some as, Some _) \<Rightarrow>
          if f = ''/bin/true'' then Some (case task_exit ks t 0 of Ok k \<Rightarrow> (k, Ok 0) | _ \<Rightarrow> (ks, Panic))
          else
            (case tasks ks t of
               None \<Rightarrow> Some (ks, Panic)
             | Some self \<Rightarrow>
                 (case pcbs ks (process_id self) of
                    None \<Rightarrow> Some (ks, Panic)
                  | Some b \<Rightarrow>
                      map_option (\<lambda>(k, r). (k, rmap (\<lambda>_. 0) r))
                        (exec_with_process n X ks t (x_cwd X (pcb_curr_dir b)) f as)))
      | _ \<Rightarrow> Some (ks, Panic))"

section \<open>Caching a program\<close>

fun phys_store :: "usize \<Rightarrow> u8 list \<Rightarrow> KState \<Rightarrow> KState" where
  "phys_store pa [] ks = ks"
| "phys_store pa (v # vs) ks =
     phys_store (pa + 1) vs (set_phys (page_floor pa) ((phys ks (page_floor pa))[pa mod PAGE_SIZE := v]) ks)"

definition cache_segment :: "usize \<Rightarrow> u8 list \<Rightarrow> ProgramHeader \<Rightarrow> KState \<Rightarrow> (KState \<times> MemArea) res" where
  "cache_segment base buf ph ks =
     (let va = uadd base (ph_virtual_addr ph);
          vpn = va div PAGE_SIZE;
          n = ph_file_size ph;
          page_count = segment_pages va (ph_mem_size ph)
      in case frame_alloc_much (frames ks) page_count of
           Ok (fa', Some (f # frs)) \<Rightarrow>
             if ph_offset ph + n > length buf then Panic
             else Ok (phys_store (f + va mod PAGE_SIZE) (take n (drop (ph_offset ph) buf)) (ks\<lparr>frames := fa'\<rparr>),
                \<lparr>mtype = Mmap,
                 mtrackers = map (\<lambda>(i, x). \<lparr>vaddr = (vpn + i) * PAGE_SIZE, tracker = x, rwx = 0\<rparr>) (enumerate 0 (f # frs)),
                 area_file = None, offset = 0, start = vpn * PAGE_SIZE, len = page_count * PAGE_SIZE\<rparr>)
         | _ \<Rightarrow> Panic)"

fun cache_segments :: "usize \<Rightarrow> u8 list \<Rightarrow> ProgramHeader list \<Rightarrow> KState \<Rightarrow> (KState \<times> MemArea list) res" where
  "cache_segments base buf [] ks = Ok (ks, [])"
| "cache_segments base buf (ph # phs) ks =
     rbind (cache_segment base buf ph ks) (\<lambda>(k1, a). rmap (\<lambda>(k2, as). (k2, a # as)) (cache_segments base buf phs k1))"

definition cache_elf :: "ElfFile \<Rightarrow> PathBuf \<Rightarrow> u8 list \<Rightarrow> KState \<Rightarrow> (KState \<times> TaskCacheTemplate) res" where
  "cache_elf e path buf ks =
     (if elf_magic e buf \<noteq> ELF_MAGIC then Panic
      else if list_ex (\<lambda>ph. ph_type ph = Interp) (program_iter e buf) then Panic
      else rbind (elf_image e buf) (\<lambda>im.
        if list_ex (\<lambda>ph. ph_type ph = BadPh) (program_iter e buf) then Panic
        else rmap (\<lambda>(k, maps). (k\<lparr>cached := cached k @ held maps\<rparr>, \<lparr>tc_name = path, tc_image = im, tc_maps = maps\<rparr>))
          (cache_segments (im_base im) buf (filter (\<lambda>ph. ph_type ph = Load) (program_iter e buf)) ks)))"

definition cache_task_template :: "ExecEnv \<Rightarrow> PathBuf \<Rightarrow> KState \<Rightarrow> KState \<times> ExecEnv \<times> unit res" where
  "cache_task_template X path ks =
     (case read_file X path ks of
        (k1, Ok (frs, buf)) \<Rightarrow>
          if \<not> elf_new (x_elf X) buf then (case with_buffer frs (k1, Ok ()) of (k2, r) \<Rightarrow> (k2, X, r))
          else
            (case cache_elf (x_elf X) path buf k1 of
               Ok (k2, c) \<Rightarrow> (case with_buffer frs (k2, Ok ()) of (k3, r) \<Rightarrow> (k3, X\<lparr>x_caches := x_caches X @ [c]\<rparr>, r))
             | _ \<Rightarrow> (k1, X, Panic))
      | (k1, Err e) \<Rightarrow> (k1, X, Err e)
      | (k1, Panic) \<Rightarrow> (k1, X, Panic))"

section \<open>The pages of a segment\<close>

lemma div_ceil_less: "0 < b \<Longrightarrow> k < div_ceil a b \<longleftrightarrow> k * b < a"
proof -
  assume b: "0 < b"
  have "div_ceil a b * b < a + b" "a \<le> div_ceil a b * b" using div_ceil_bounds [OF b] by auto
  show ?thesis
  proof
    assume "k < div_ceil a b"
    then have "Suc k * b \<le> div_ceil a b * b" by (simp add: mult_le_mono1 Suc_leI del: mult_Suc)
    with \<open>div_ceil a b * b < a + b\<close> show "k * b < a" by simp
  next
    assume "k * b < a"
    with \<open>a \<le> div_ceil a b * b\<close> have "k * b < div_ceil a b * b" by linarith
    then show "k < div_ceil a b" by simp
  qed
qed

lemma page_floor_div: "page_floor x = x div PAGE_SIZE * PAGE_SIZE"
  by (simp add: page_floor_def minus_mod_eq_div_mult)

lemma segment_pages_ok:
  assumes "0 < m" "va + m < USIZE"
  shows "new_pages (page_floor va) (segment_pages va m) = pages_of va m" "0 < segment_pages va m"
proof -
  let ?c = "div_ceil (va + m) PAGE_SIZE" and ?q = "va div PAGE_SIZE"
  have u: "uadd va m = va + m" using assms(2) by (simp add: uadd_def)
  have q: "?q < ?c"
    using assms(1) div_times_less_eq_dividend [of va PAGE_SIZE] by (simp only: div_ceil_less [OF PAGE_pos])
  have n: "segment_pages va m = ?c - ?q" using q by (simp add: segment_pages_def u usub_le)
  then show "0 < segment_pages va m" using q by simp
  show "new_pages (page_floor va) (segment_pages va m) = pages_of va m"
  proof (rule set_eqI, rule iffI)
    fix v
    { assume "v \<in> new_pages (page_floor va) (segment_pages va m)"
      then obtain i where i: "i < ?c - ?q" "v = (?q + i) * PAGE_SIZE"
        by (auto simp: new_pages_def n page_floor_div algebra_simps)
      have lt: "(?q + i) * PAGE_SIZE < va + m" using i(1) by (simp only: div_ceil_less [OF PAGE_pos, symmetric])
      show "v \<in> pages_of va m"
      proof (cases "i = 0")
        case True
        then have "v = page_floor va" by (simp add: i(2) page_floor_div)
        then show ?thesis using assms(1) by (auto simp: pages_of_def)
      next
        case False
        have "va < (?q + 1) * PAGE_SIZE" using dividend_less_times_div [OF PAGE_pos, of va] by (simp add: algebra_simps)
        also have "\<dots> \<le> (?q + i) * PAGE_SIZE" using False by (intro mult_le_mono1) simp
        finally have "va \<le> v" by (simp add: i(2))
        moreover have "page_floor v = v" using PAGE_pos by (simp add: page_floor_div i(2))
        ultimately show ?thesis using lt i(2) by (auto simp: pages_of_def intro!: image_eqI [of _ _ v])
      qed }
    { assume "v \<in> pages_of va m"
      then obtain x where x: "va \<le> x" "x < va + m" "v = x div PAGE_SIZE * PAGE_SIZE" by (auto simp: pages_of_def page_floor_div)
      have "x div PAGE_SIZE < ?c"
        using x(2) by (simp only: div_ceil_less [OF PAGE_pos]) (meson div_times_less_eq_dividend le_less_trans)
      moreover have "?q \<le> x div PAGE_SIZE" using x(1) by (rule div_le_mono)
      ultimately show "v \<in> new_pages (page_floor va) (segment_pages va m)"
        unfolding new_pages_def n x(3) page_floor_div
        by (intro image_eqI [of _ _ "x div PAGE_SIZE - ?q"]) (auto simp: algebra_simps simp flip: distrib_right) }
  qed
qed

section \<open>What is loaded\<close>

definition seg_start :: "usize \<Rightarrow> ProgramHeader \<Rightarrow> usize" where
  "seg_start base ph = base + ph_virtual_addr ph"

definition seg_ok :: "usize \<Rightarrow> ProgramHeader \<Rightarrow> bool" where
  "seg_ok base ph \<longleftrightarrow> 0 < ph_mem_size ph \<and> ph_file_size ph \<le> ph_mem_size ph \<and> PAGE_SIZE \<le> seg_start base ph \<and>
     seg_start base ph + ph_mem_size ph < USIZE"

abbreviation seg_set :: "usize \<Rightarrow> ProgramHeader \<Rightarrow> usize set" where
  "seg_set base ph \<equiv> pages_of (seg_start base ph) (ph_mem_size ph)"

definition segment_in_memory :: "KState \<Rightarrow> nat \<Rightarrow> usize \<Rightarrow> u8 list \<Rightarrow> ProgramHeader \<Rightarrow> bool" where
  "segment_in_memory ks p base buf ph \<longleftrightarrow>
     (\<forall>i < ph_mem_size ph. user_read ks p (seg_start base ph + i) = Some (if i < ph_file_size ph then buf ! (ph_offset ph + i) else 0))"

section \<open>Runs of free pages\<close>

text \<open>The allocator takes the first window that fits, so of a longer run the rest is left.\<close>

lemma free_run_rest:
  assumes "fa_wf f" "0 < n" "free_run f (n + m)"
  shows "\<exists>f' fr. frame_alloc_much f n = Ok (f', Some fr) \<and> free_run f' m"
  using assms(1,3)
proof (induction f)
  case (Cons r rs)
  then have wf: "region_wf r" "fa_wf rs" by (simp_all add: fa_wf_Cons)
  obtain r' q where q: "region_alloc_much r n = Ok (r', q)" and
    c: "case q of
       None \<Rightarrow> r' = r \<and> (\<forall>s. \<not> {s..<s + n} \<subseteq> free_pages r)
     | Some frs \<Rightarrow> \<exists>s bs. r' = r\<lparr>bits := bs\<rparr> \<and> frs = map (page_addr r) [s..<s + n] \<and>
         {s..<s + n} \<subseteq> free_pages r \<and> (\<forall>t < s. \<not> {t..<t + n} \<subseteq> free_pages r) \<and>
         free_pages r' = free_pages r - {s..<s + n}"
    using region_alloc_much_spec [OF wf(1) assms(2)] by blast
  from Cons.prems(2) obtain x s0 where x: "x \<in> set (r # rs)" "{s0..<s0 + (n + m)} \<subseteq> free_pages x"
    unfolding free_run_def by blast
  show ?case
  proof (cases q)
    case None
    with c have no: "r' = r" "\<not> {s0..<s0 + n} \<subseteq> free_pages r" by auto
    have "{s0..<s0 + n} \<subseteq> free_pages x" using x(2) by auto
    with no(2) x(1) have "x \<in> set rs" by auto
    with x(2) have "free_run rs (n + m)" unfolding free_run_def by blast
    from Cons.IH [OF wf(2) this] obtain f' fr where f': "frame_alloc_much rs n = Ok (f', Some fr)" "free_run f' m" by blast
    then have "free_run (r # f') m" unfolding free_run_def by auto
    then show ?thesis using q None f' no(1) by simp
  next
    case (Some frs)
    with c obtain s where s: "\<forall>t < s. \<not> {t..<t + n} \<subseteq> free_pages r" "free_pages r' = free_pages r - {s..<s + n}" by auto
    have "free_run (r' # rs) m"
    proof (cases "x = r")
      case True
      have "{s0..<s0 + n} \<subseteq> free_pages r" using x(2) True by auto
      then have "s \<le> s0" using s(1) not_le_imp_less by blast
      then have "{s0 + n..<s0 + n + m} \<subseteq> free_pages r'" using x(2) True s(2) by auto
      then show ?thesis unfolding free_run_def by (meson list.set_intros(1))
    next
      case False
      then have "x \<in> set rs" "{s0..<s0 + m} \<subseteq> free_pages x" using x by auto
      then show ?thesis unfolding free_run_def by auto
    qed
    then show ?thesis using q Some by simp
  qed
qed (simp add: free_run_def)

text \<open>
  A process whose pages are exactly \<open>V\<close>, while the frames \<open>B\<close> of a buffer are in use for
  something else.
\<close>

definition exactly :: "KState \<Rightarrow> nat \<Rightarrow> usize set \<Rightarrow> usize set \<Rightarrow> bool" where
  "exactly ks p V B \<longleftrightarrow> owned ks p V \<and> dom (ptabs ks p) = V \<and> B \<subseteq> managed_frames (frames ks) \<and>
     B \<inter> free_frames (frames ks) = {} \<and> frame_of ks p ` V \<inter> B = {}"

lemma grow_run:
  assumes e: "exactly ks p V B" and b: "pcbs ks p = Some b" and va: "PAGE_SIZE dvd va" "va \<noteq> 0" and n: "0 < n"
    and run: "free_run (frames ks) (n + m)" and disj: "V \<inter> new_pages va n = {}"
  obtains k r where "grow ks p va mt n = Ok (k, Some r)" "exactly k p (V \<union> new_pages va n) B" "free_run (frames k) m"
    "\<And>i. i < n \<Longrightarrow> frame_of k p (va + i * PAGE_SIZE) = r + i * PAGE_SIZE" "PAGE_SIZE dvd r"
proof -
  let ?m = "mem_view ks p b"
  have o: "owned ks p V" and wf: "fa_wf (frames ks)" using e by (auto simp: exactly_def owned_def)
  have fr: "fa ?m = frames ks" by (simp add: mem_view_def)
  from free_run_rest [OF wf n run] obtain f' frs where f: "frame_alloc_much (frames ks) n = Ok (f', Some frs)" "free_run f' m" by blast
  from frame_alloc_much_spec [OF wf n] f(1) have post: "much_post (frames ks) n f' (Some frs)" by auto
  then obtain base where base: "frs = map (\<lambda>i. base + i * PAGE_SIZE) [0..<n]" by (auto simp: much_post_def)
  from much_fresh [OF wf n va(2)] f(1) have ts: "fresh_trackers (frames ks) f' va n (make_trackers va frs)" by auto
  from map_fresh [OF wf ts va(1), of "pt ?m"] obtain p' where
    p': "map_pages (pt ?m) (make_trackers va frs) = Ok p'" "\<forall>t \<in> set (make_trackers va frs). p' (vaddr t) = Some (tracker t)" by blast
  have mk: "\<lparr>vaddr = va + i * PAGE_SIZE, tracker = base + i * PAGE_SIZE, rwx = 0\<rparr> \<in> set (make_trackers va frs)" if "i < n" for i
    using that va(2) by (auto simp: make_trackers_def base in_set_enumerate_eq intro!: image_eqI [of _ _ "(i, base + i * PAGE_SIZE)"])
  have hd: "hd frs = base" "tracker (hd (make_trackers va frs)) = base"
    using n by (simp_all add: base make_trackers_def hd_map upt_conv_Cons)
  have "\<exists>ms. task_frame_alloc ?m va mt n = Ok (ms, Some base) \<and> fa ms = f' \<and> pt ms = p'"
    using f(1) p'(1) va(2) n hd by (auto simp: task_frame_alloc_def map_frames_def push_mmap_area_def Let_def fr)
  then obtain ms where ms: "task_frame_alloc ?m va mt n = Ok (ms, Some base)" "fa ms = f'" "pt ms = p'" by blast
  obtain k where g: "grow ks p va mt n = Ok (k, Some base)" and k: "frames k = f'"
    "\<And>v. ptabs k p v = (if v \<in> new_pages va n then map_option (\<lambda>f. (f, alloc_flags mt)) (p' v) else ptabs ks p v)"
    using ms b va(2) by (auto simp: grow_def Let_def new_pages_def atLeast0LessThan)
  note go = grow_owned [OF o b va n g disj]
  have fo: "frame_of k p (va + i * PAGE_SIZE) = base + i * PAGE_SIZE" "ptabs k p (va + i * PAGE_SIZE) \<noteq> None" if "i < n" for i
    using that p'(2) mk [OF that] k(2) [of "va + i * PAGE_SIZE"] by (auto simp: frame_of_def new_pages_def)
  have free: "base + i * PAGE_SIZE \<in> free_frames (frames ks)" if "i < n" for i
  proof -
    have "base + i * PAGE_SIZE \<in> set frs" using that by (auto simp: base)
    then show ?thesis using post unfolding much_post_def option.case by blast
  qed
  then have "base \<in> free_frames (frames ks)" using n by fastforce
  then have al: "PAGE_SIZE dvd base" by (rule frames_aligned [OF wf])
  have "exactly k p (V \<union> new_pages va n) B"
  proof -
    have "dom (ptabs k p) = V \<union> new_pages va n"
    proof (rule set_eqI)
      fix v
      show "v \<in> dom (ptabs k p) \<longleftrightarrow> v \<in> V \<union> new_pages va n"
      proof (cases "v \<in> new_pages va n")
        case True
        then show ?thesis using fo(2) by (auto simp: new_pages_def dom_def)
      next
        case False
        then have "v \<in> dom (ptabs k p) \<longleftrightarrow> v \<in> dom (ptabs ks p)" by (simp add: k(2) dom_def)
        then show ?thesis using e False by (simp add: exactly_def)
      qed
    qed
    moreover have "frame_of k p ` (V \<union> new_pages va n) \<inter> B = {}"
    proof -
      have "frame_of k p v = frame_of ks p v" if "v \<in> V" for v using that disj k(2) [of v] by (auto simp: frame_of_def)
      moreover have "frame_of k p v \<in> free_frames (frames ks)" if "v \<in> new_pages va n" for v
        using that fo(1) free by (auto simp: new_pages_def)
      moreover have "frame_of ks p ` V \<inter> B = {}" "B \<inter> free_frames (frames ks) = {}" using e by (simp_all add: exactly_def)
      ultimately show ?thesis by (simp add: image_Un disjoint_iff) (metis imageE imageI)
    qed
    ultimately show ?thesis using e go(1) post by (auto simp: exactly_def k(1) much_post_def)
  qed
  then show ?thesis using that [OF g] f(2) k(1) fo(1) al by simp
qed

section \<open>Segments are loaded\<close>

lemma exactly_phys:
  "exactly ks p V B \<Longrightarrow> owned (ks\<lparr>phys := h\<rparr>) p V \<Longrightarrow> exactly (ks\<lparr>phys := h\<rparr>) p V B"
  by (simp add: exactly_def frame_of_def)

text \<open>Where the frames are consecutive, the bytes at the physical and the virtual address agree.\<close>

lemma phys_virt_bytes:
  assumes o: "owned ks p V" and fo: "\<And>i. i < c \<Longrightarrow> frame_of ks p (page_floor va + i * PAGE_SIZE) = r + i * PAGE_SIZE" and r: "PAGE_SIZE dvd r"
    and V: "new_pages (page_floor va) c \<subseteq> V" and m: "pages_of va n \<subseteq> new_pages (page_floor va) c"
  shows "phys_bytes ks (r + va mod PAGE_SIZE) n = virt_bytes ks p va n"
proof (rule nth_equalityI)
  fix i
  assume "i < length (phys_bytes ks (r + va mod PAGE_SIZE) n)"
  then have i: "i < n" by (simp add: phys_bytes_def)
  then have "page_floor (va + i) \<in> pages_of va n" by (auto simp: pages_of_def)
  with m obtain j where j: "j < c" "page_floor (va + i) = page_floor va + j * PAGE_SIZE" by (auto simp: new_pages_def)
  have inV: "page_floor (va + i) \<in> V" using V j by (auto simp: new_pages_def)
  have s: "va mod PAGE_SIZE + i = j * PAGE_SIZE + (va + i) mod PAGE_SIZE"
  proof -
    have "va + i = page_floor (va + i) + (va + i) mod PAGE_SIZE" "va = page_floor va + va mod PAGE_SIZE"
      by (simp_all add: page_floor_def)
    then show ?thesis using j(2) by linarith
  qed
  from r obtain q where q: "r = PAGE_SIZE * q" by (rule dvdE)
  have pa: "(r + va mod PAGE_SIZE + i) mod PAGE_SIZE = (va + i) mod PAGE_SIZE" "page_floor (r + va mod PAGE_SIZE + i) = r + j * PAGE_SIZE"
  proof -
    have e: "r + va mod PAGE_SIZE + i = (va + i) mod PAGE_SIZE + (q + j) * PAGE_SIZE" using s q by (simp add: algebra_simps)
    show "(r + va mod PAGE_SIZE + i) mod PAGE_SIZE = (va + i) mod PAGE_SIZE" unfolding e by simp
    then show "page_floor (r + va mod PAGE_SIZE + i) = r + j * PAGE_SIZE" unfolding page_floor_def e by (simp add: q algebra_simps)
  qed
  have "user_read ks p (va + i) = Some (phys ks (r + j * PAGE_SIZE) ! ((va + i) mod PAGE_SIZE))"
    using ownedD(3,5) [OF o inV] fo [OF j(1)] j(2) PAGE_pos by (auto simp: user_read_def)
  then show "phys_bytes ks (r + va mod PAGE_SIZE) n ! i = virt_bytes ks p va n ! i"
    using i by (simp add: phys_bytes_def virt_bytes_def pa)
qed (simp add: phys_bytes_def virt_bytes_def)

lemma load_segment_ok:
  assumes e: "exactly ks p V B" and b: "pcbs ks p \<noteq> None" and ok: "seg_ok base ph" and disj: "V \<inter> seg_set base ph = {}"
    and fit: "ph_offset ph + ph_file_size ph \<le> length buf" and run: "free_run (frames ks) (segment_pages (seg_start base ph) (ph_mem_size ph) + m)"
  obtains ks' where "load_segment rd sz t p base buf ph ks = Ok ks'" "exactly ks' p (V \<union> seg_set base ph) B" "free_run (frames ks') m"
    "tasks ks' = tasks ks" "segment_in_memory ks' p base buf ph" "\<And>x. page_floor x \<in> V \<Longrightarrow> user_read ks' p x = user_read ks p x"
    "\<And>f. pcbs ks p = Some f \<Longrightarrow> \<exists>g. pcbs ks' p = Some g \<and> pcb_heap g = pcb_heap f"
proof -
  let ?va = "seg_start base ph" and ?m = "ph_mem_size ph" and ?n = "ph_file_size ph"
  have so: "0 < ?m" "?n \<le> ?m" "PAGE_SIZE \<le> ?va" "?va + ?m < USIZE" using ok by (auto simp: seg_ok_def)
  have va: "uadd base (ph_virtual_addr ph) = ?va" using so(4) by (simp add: uadd_def seg_start_def)
  note sp = segment_pages_ok [OF so(1,4)]
  have pf: "PAGE_SIZE dvd page_floor ?va" "page_floor ?va \<noteq> 0"
    using so(3) PAGE_pos by (auto simp: page_floor_div dvd_def div_greater_zero_iff)
  let ?bs = "take ?n (drop (ph_offset ph) buf)"
  from b obtain b0 where b0: "pcbs ks p = Some b0" by blast
  have o: "owned ks p V" using e by (simp add: exactly_def)
  obtain k1 r where g: "grow ks p (page_floor ?va) Mmap (segment_pages ?va ?m) = Ok (k1, Some r)"
    "exactly k1 p (V \<union> seg_set base ph) B" "free_run (frames k1) m"
    "\<And>i. i < segment_pages ?va ?m \<Longrightarrow> frame_of k1 p (page_floor ?va + i * PAGE_SIZE) = r + i * PAGE_SIZE" "PAGE_SIZE dvd r"
    by (rule grow_run [OF e b0 pf sp(2) run disj [folded sp(1)], unfolded sp(1)]) (rule that)
  note gr = grow_owned [OF o b0 pf sp(2) g(1) disj [folded sp(1)], unfolded sp(1)]
  have lb: "length ?bs = ?n" using fit by simp
  have sub: "pages_of ?va ?n \<subseteq> seg_set base ph" using so(2) by (auto simp: pages_of_def)
  have sub': "pages_of ?va (length ?bs) \<subseteq> V \<union> seg_set base ph" unfolding lb using sub by blast
  have sm: "?va + length ?bs < USIZE" unfolding lb using so(2,4) by simp
  from store_bytes_owned [OF gr(1) sub' sm, of rd sz t] obtain h where
    h: "store_bytes rd sz t p ?va ?bs k1 = Ok (k1\<lparr>phys := h\<rparr>)" "owned (k1\<lparr>phys := h\<rparr>) p (V \<union> seg_set base ph)"
      "\<And>x. page_floor x \<in> V \<union> seg_set base ph \<Longrightarrow>
         user_read (k1\<lparr>phys := h\<rparr>) p x = (if ?va \<le> x \<and> x < ?va + ?n then Some (?bs ! (x - ?va)) else user_read k1 p x)"
    unfolding lb by blast
  define ks' where "ks' = k1\<lparr>phys := h\<rparr>"
  note h = h [folded ks'_def]
  have rd: "user_read ks' p (?va + i) = Some (if i < ?n then buf ! (ph_offset ph + i) else 0)" if i: "i < ?m" for i
  proof -
    have "page_floor (?va + i) \<in> seg_set base ph" using i by (auto simp: pages_of_def)
    then show ?thesis using h(3) [of "?va + i"] gr(6) [of "?va + i"] fit by auto
  qed
  have fo: "frame_of ks' p (page_floor ?va + i * PAGE_SIZE) = r + i * PAGE_SIZE" if "i < segment_pages ?va ?m" for i
    using g(4) [OF that] by (simp add: ks'_def frame_of_def)
  have pv: "phys_bytes ks' (r + ?va mod PAGE_SIZE) ?n = virt_bytes ks' p ?va ?n"
  proof (rule phys_virt_bytes [OF h(2) fo g(5)])
    show "new_pages (page_floor ?va) (segment_pages ?va ?m) \<subseteq> V \<union> seg_set base ph" unfolding sp(1) by (rule Un_upper2)
    show "pages_of ?va ?n \<subseteq> new_pages (page_floor ?va) (segment_pages ?va ?m)" unfolding sp(1) by (rule sub)
  qed
  have vb: "virt_bytes ks' p ?va ?n = ?bs"
    by (rule nth_equalityI) (use so(2) fit in \<open>simp_all add: virt_bytes_def rd\<close>)
  have "load_segment rd sz t p base buf ph ks = Ok ks'"
    using fit by (simp add: load_segment_def va Let_def g(1) h(1) pv vb)
  moreover have "exactly ks' p (V \<union> seg_set base ph) B" using exactly_phys [OF g(2)] h(2) by (simp add: ks'_def)
  moreover have "segment_in_memory ks' p base buf ph" unfolding segment_in_memory_def using rd by blast
  moreover have "user_read ks' p x = user_read ks p x" if x: "page_floor x \<in> V" for x
  proof -
    have "\<not> (?va \<le> x \<and> x < ?va + ?n)"
    proof
      assume "?va \<le> x \<and> x < ?va + ?n"
      then have "page_floor x \<in> pages_of ?va ?n" by (auto simp: pages_of_def)
      with disj x sub show False by blast
    qed
    then show ?thesis using h(3) [of x] gr(5) [OF x] x by auto
  qed
  moreover have "\<exists>g. pcbs ks' p = Some g \<and> pcb_heap g = pcb_heap f" if "pcbs ks p = Some f" for f
    using g(1) that by (auto simp: ks'_def grow_def rbind_eq_Ok Let_def)
  ultimately show ?thesis using that g(3) gr(3) by (simp add: ks'_def)
qed

text \<open>Segments that share no page with each other or with \<open>V\<close>.\<close>

fun separate :: "usize set \<Rightarrow> usize \<Rightarrow> ProgramHeader list \<Rightarrow> bool" where
  "separate V base [] \<longleftrightarrow> True"
| "separate V base (ph # phs) \<longleftrightarrow> seg_ok base ph \<and> V \<inter> seg_set base ph = {} \<and> separate (V \<union> seg_set base ph) base phs"

definition segs_pages :: "usize \<Rightarrow> ProgramHeader list \<Rightarrow> nat" where
  "segs_pages base phs = sum_list (map (\<lambda>ph. segment_pages (seg_start base ph) (ph_mem_size ph)) phs)"

definition segs_set :: "usize \<Rightarrow> ProgramHeader list \<Rightarrow> usize set" where
  "segs_set base phs = (\<Union>ph \<in> set phs. seg_set base ph)"

definition keeps :: "nat \<Rightarrow> usize set \<Rightarrow> KState \<Rightarrow> KState \<Rightarrow> bool" where
  "keeps p V ks ks' \<longleftrightarrow> (\<forall>x. page_floor x \<in> V \<longrightarrow> user_read ks' p x = user_read ks p x)"

lemma segment_in_memory_cong:
  assumes "segment_in_memory ks p base buf ph" "keeps p V ks ks'" "seg_set base ph \<subseteq> V"
  shows "segment_in_memory ks' p base buf ph"
proof -
  have "page_floor (seg_start base ph + i) \<in> V" if "i < ph_mem_size ph" for i
    using that assms(3) by (auto simp: pages_of_def)
  then show ?thesis using assms(1,2) unfolding segment_in_memory_def keeps_def by simp
qed

lemma load_segments_ok:
  assumes "exactly ks p V B" "pcbs ks p = Some b" "separate V base phs" "free_run (frames ks) (segs_pages base phs)"
    "\<forall>ph \<in> set phs. ph_offset ph + ph_file_size ph \<le> length buf"
  shows "\<exists>ks' b'. load_segments rd sz t p base buf phs ks = Ok ks' \<and> exactly ks' p (V \<union> segs_set base phs) B \<and> tasks ks' = tasks ks \<and>
    keeps p V ks ks' \<and> (\<forall>ph \<in> set phs. segment_in_memory ks' p base buf ph) \<and> pcbs ks' p = Some b' \<and> pcb_heap b' = pcb_heap b"
  using assms
proof (induction phs arbitrary: ks V b)
  case Nil
  then show ?case by (simp add: segs_set_def keeps_def)
next
  case (Cons ph phs)
  have s: "seg_ok base ph" "V \<inter> seg_set base ph = {}" "separate (V \<union> seg_set base ph) base phs" "pcbs ks p \<noteq> None"
    "ph_offset ph + ph_file_size ph \<le> length buf" "\<forall>ph \<in> set phs. ph_offset ph + ph_file_size ph \<le> length buf"
    using Cons.prems by auto
  have run: "free_run (frames ks) (segment_pages (seg_start base ph) (ph_mem_size ph) + segs_pages base phs)"
    using Cons.prems(4) by (simp add: segs_pages_def)
  obtain k1 where k1: "load_segment rd sz t p base buf ph ks = Ok k1" "exactly k1 p (V \<union> seg_set base ph) B" "free_run (frames k1) (segs_pages base phs)"
    "tasks k1 = tasks ks" "segment_in_memory k1 p base buf ph" "\<And>x. page_floor x \<in> V \<Longrightarrow> user_read k1 p x = user_read ks p x"
    "\<And>f. pcbs ks p = Some f \<Longrightarrow> \<exists>g. pcbs k1 p = Some g \<and> pcb_heap g = pcb_heap f"
    by (rule load_segment_ok [OF Cons.prems(1) s(4,1,2,5) run]) (rule that)
  from k1(7) [OF Cons.prems(2)] obtain g where g: "pcbs k1 p = Some g" "pcb_heap g = pcb_heap b" by blast
  from Cons.IH [OF k1(2) g(1) s(3) k1(3) s(6)] obtain ks' b' where
    i: "load_segments rd sz t p base buf phs k1 = Ok ks'" "exactly ks' p (V \<union> seg_set base ph \<union> segs_set base phs) B" "tasks ks' = tasks k1"
      "keeps p (V \<union> seg_set base ph) k1 ks'" "\<forall>ph \<in> set phs. segment_in_memory ks' p base buf ph" "pcbs ks' p = Some b'" "pcb_heap b' = pcb_heap g"
    by blast
  have "segment_in_memory ks' p base buf ph" by (rule segment_in_memory_cong [OF k1(5) i(4) Un_upper2])
  moreover have "keeps p V ks ks'" using i(4) k1(6) by (simp add: keeps_def)
  moreover have "V \<union> seg_set base ph \<union> segs_set base phs = V \<union> segs_set base (ph # phs)" by (auto simp: segs_set_def)
  ultimately show ?case using i k1(1,4) g(2) by (intro exI [of _ ks'] exI [of _ b']) simp
qed

section \<open>Before and after\<close>

lemma exec_clear_ok:
  assumes o: "owned ks p {}" and b: "pcbs ks p = Some b" and h: "set (held (pcb_memset b)) \<subseteq> managed_frames (frames ks)"
  shows "\<exists>k1. exec_clear ks p = Ok k1 \<and> exactly k1 p {} {} \<and> tasks k1 = tasks ks \<and> pcbs k1 = (pcbs ks)(p \<mapsto> b\<lparr>pcb_memset := []\<rparr>)"
proof -
  let ?k = "upd_pcb p (\<lambda>b. b\<lparr>pcb_memset := []\<rparr>) ks"
  let ?dead = "filter (\<lambda>f. frame_refs ?k f = 0) (remdups (held (pcb_memset b)))"
  have "set ?dead \<subseteq> managed_frames (frames ks)" using h by auto
  from drop_frames_Ok [OF ownedD(1) [OF o] this] obtain f' where
    f': "drop_frames (frames ks) ?dead = Ok f'" "fa_wf f'" "free_frames f' = free_frames (frames ks) \<union> set ?dead" by blast
  define k1 where "k1 = ?k\<lparr>frames := f', phys := (\<lambda>f. if f \<in> set ?dead then Process.zero_page else phys ?k f), ptabs := (ptabs ks)(p := Map.empty)\<rparr>"
  have "exec_clear ks p = Ok k1"
    using b f'(1) by (simp add: exec_clear_def release_frames_def Let_def k1_def)
  moreover have "exactly k1 p {} {}"
    using f'(2,3) ownedD(2) [OF o] by (auto simp: exactly_def owned_def k1_def)
  moreover have "tasks k1 = tasks ks" "pcbs k1 = (pcbs ks)(p \<mapsto> b\<lparr>pcb_memset := []\<rparr>)" using b by (simp_all add: k1_def)
  ultimately show ?thesis by blast
qed

lemma exactly_alloc:
  assumes e: "exactly ks p {} {}" and n: "0 < n" and run: "free_run (frames ks) (n + m)"
  obtains f' frs where "frame_alloc_much (frames ks) n = Ok (f', Some frs)" "frs \<noteq> []" "exactly (ks\<lparr>frames := f'\<rparr>) p {} (set frs)" "free_run f' m"
proof -
  have wf: "fa_wf (frames ks)" using e by (simp add: exactly_def owned_def)
  from free_run_rest [OF wf n run] obtain f' frs where f: "frame_alloc_much (frames ks) n = Ok (f', Some frs)" "free_run f' m" by blast
  from frame_alloc_much_spec [OF wf n] f(1) have post: "much_post (frames ks) n f' (Some frs)" by auto
  then have "length frs = n" by (auto simp: much_post_def)
  then have "frs \<noteq> []" using n by auto
  moreover have "exactly (ks\<lparr>frames := f'\<rparr>) p {} (set frs)"
    using e post free_frames_managed [of "frames ks"] unfolding exactly_def owned_def much_post_def option.case by (simp add: dom_def) blast
  ultimately show ?thesis using that f by blast
qed

lemma drop_buffer_ok:
  assumes e: "exactly ks p V (set frs)"
  shows "\<exists>k. drop_buffer frs ks = Ok k \<and> tasks k = tasks ks \<and> pcbs k = pcbs ks \<and> ptabs k = ptabs ks \<and> keeps p V ks k"
proof -
  have "fa_wf (frames ks)" "set frs \<subseteq> managed_frames (frames ks)" using e by (simp_all add: exactly_def owned_def)
  from drop_frames_Ok [OF this] obtain f' where f': "drop_frames (frames ks) frs = Ok f'" by blast
  let ?k = "ks\<lparr>frames := f', phys := (\<lambda>x. if x \<in> set frs then Process.zero_page else phys ks x)\<rparr>"
  have "user_read ?k p x = user_read ks p x" if x: "page_floor x \<in> V" for x
  proof -
    have o: "owned ks p V" using e by (simp add: exactly_def)
    have "frame_of ks p ` V \<inter> set frs = {}" using e by (simp add: exactly_def)
    then have "frame_of ks p (page_floor x) \<notin> set frs" using x by blast
    then show ?thesis using ownedD(3) [OF o x] by (auto simp: user_read_def)
  qed
  then have "keeps p V ks ?k" by (simp add: keeps_def)
  then show ?thesis using f' by (simp add: drop_buffer_def)
qed

lemma runtime_stack_cong:
  assumes r: "runtime_stack ks t p args im path libc" and t: "tasks ks' t = tasks ks t" and k: "keeps p V ks ks'"
    and d: "dom (ptabs ks p) \<subseteq> V" and s: "pages_of stack_low USER_STACK_INIT_SIZE \<subseteq> V"
  shows "runtime_stack ks' t p args im path libc"
proof -
  have some: "user_read ks' p a = Some v" if "user_read ks p a = Some v" for a v
  proof -
    from that have "page_floor a \<in> dom (ptabs ks p)" by (auto simp: user_read_def split: option.splits)
    then show ?thesis using d k that by (auto simp: keeps_def)
  qed
  have cs: "is_cstr ks' p a w" if "is_cstr ks p a w" for a w using that some by (auto simp: is_cstr_def)
  have rw: "read_word ks' p a = read_word ks p a" if "stack_low \<le> a" "a + 8 \<le> USER_STACK_TOP" for a
  proof -
    have "page_floor (a + i) \<in> V" if "i < 8" for i
    proof -
      have "page_floor (a + i) \<in> pages_of stack_low USER_STACK_INIT_SIZE"
        using that \<open>stack_low \<le> a\<close> \<open>a + 8 \<le> USER_STACK_TOP\<close> by (auto simp: pages_of_def USER_STACK_TOP_def USER_STACK_INIT_SIZE_def)
      then show ?thesis using s by blast
    qed
    then have "virt_bytes ks' p a 8 = virt_bytes ks p a 8"
      unfolding virt_bytes_def using k by (intro map_cong) (simp_all add: keeps_def)
    then show ?thesis by (simp add: read_word_def)
  qed
  from r obtain x argv envp platform execfn random where x: "tasks ks t = Some x"
    "cx (tcb x) SEPC = uadd (im_base im) (im_entry im)" "8 dvd cx (tcb x) SP"
    "stack_low \<le> cx (tcb x) SP" "cx (tcb x) SP + 8 * (length args + 34) \<le> USER_STACK_TOP"
    "\<forall>i < length args + 34. read_word ks p (cx (tcb x) SP + 8 * i) = runtime_words im platform execfn random envp argv ! i"
    "list_all2 (is_cstr ks p) argv args" "list_all2 (is_cstr ks p) envp (init_env libc)"
    "is_cstr ks p platform ''riscv''" "is_cstr ks p execfn path" "\<forall>i < 16. user_read ks p (random + i) = Some 0"
    unfolding runtime_stack_def by (elim exE conjE) (rule that)
  have "\<forall>i < length args + 34. read_word ks' p (cx (tcb x) SP + 8 * i) = runtime_words im platform execfn random envp argv ! i"
    using x(4-6) rw by simp
  moreover have "list_all2 (is_cstr ks' p) argv args" "list_all2 (is_cstr ks' p) envp (init_env libc)"
    using x(7,8) cs by (auto elim: list_all2_mono)
  moreover have "is_cstr ks' p platform ''riscv''" "is_cstr ks' p execfn path" "\<forall>i < 16. user_read ks' p (random + i) = Some 0"
    using x(9-11) cs some by blast+
  ultimately show ?thesis using x(1-5) t unfolding runtime_stack_def by metis
qed

section \<open>Running a program\<close>

abbreviation loads :: "ElfFile \<Rightarrow> u8 list \<Rightarrow> ProgramHeader list" where
  "loads e buf \<equiv> filter (\<lambda>ph. ph_type ph = Load) (program_iter e buf)"

abbreviation stack_pages :: "usize set" where
  "stack_pages \<equiv> pages_of stack_low USER_STACK_INIT_SIZE"

text \<open>
  A static program with readable contents: its segments lie in the file and share no page
  with each other or with the stack.
\<close>

definition static_program :: "ExecEnv \<Rightarrow> PathBuf \<Rightarrow> u8 list \<Rightarrow> Image \<Rightarrow> bool" where
  "static_program X path buf im \<longleftrightarrow> buf \<noteq> [] \<and> List.find (\<lambda>c. tc_name c = path) (x_caches X) = None \<and>
     rbind (x_open X path) (\<lambda>g. rmap (Pair g) (x_size X g)) = rmap (\<lambda>g. (g, length buf)) (x_open X path) \<and>
     rbind (x_open X path) (\<lambda>g. x_read X g 0 (length buf)) = Ok buf \<and>
     elf_new (x_elf X) buf \<and> elf_magic (x_elf X) buf = ELF_MAGIC \<and> elf_image (x_elf X) buf = Ok im \<and> image_ok im \<and>
     (\<forall>ph \<in> set (program_iter (x_elf X) buf). ph_type ph \<noteq> Interp \<and> ph_type ph \<noteq> BadPh) \<and>
     (\<forall>ph \<in> set (loads (x_elf X) buf). ph_offset ph + ph_file_size ph \<le> length buf) \<and>
     separate stack_pages (im_base im) (loads (x_elf X) buf)"

lemma read_file_ok:
  assumes s: "static_program X path buf im" and e: "exactly ks p {} {}" and run: "free_run (frames ks) (div_ceil (length buf) PAGE_SIZE + m)"
  obtains frs k where "read_file X path ks = (k, Ok (frs, buf))" "exactly k p {} (set frs)" "free_run (frames k) m" "tasks k = tasks ks" "pcbs k = pcbs ks"
proof -
  have n: "0 < div_ceil (length buf) PAGE_SIZE" using s by (simp add: div_ceil_less [OF PAGE_pos] static_program_def)
  obtain f' frs where f: "frame_alloc_much (frames ks) (div_ceil (length buf) PAGE_SIZE) = Ok (f', Some frs)" "frs \<noteq> []"
    "exactly (ks\<lparr>frames := f'\<rparr>) p {} (set frs)" "free_run f' m"
    by (rule exactly_alloc [OF e n run]) (rule that)
  from s obtain g where g: "x_open X path = Ok g" "x_read X g 0 (length buf) = Ok buf"
    by (auto simp: static_program_def rbind_eq_Ok)
  have sz: "x_size X g = Ok (length buf)" using s g(1) by (cases "x_size X g") (simp_all add: static_program_def)
  have "read_file X path ks = (ks\<lparr>frames := f'\<rparr>, Ok (frs, buf))"
    using f(1,2) g sz by (cases frs) (simp_all add: read_file_def)
  then show ?thesis by (rule that) (use f in simp_all)
qed

lemma load_elf_ok:
  assumes s: "static_program X path buf im" and e: "exactly ks p {} B" and b: "pcbs ks p = Some b" and t: "tasks ks t = Some self"
    and run: "free_run (frames ks) (USER_STACK_INIT_SIZE div PAGE_SIZE + segs_pages (im_base im) (loads (x_elf X) buf))"
    and room: "length (concat (map str_image (stack_strings (init_env libc) args pn))) + 8 * (length args + 34) \<le> USER_STACK_INIT_SIZE"
  obtains k b' where "load_elf rd sz (x_elf X) buf t p args pn libc cx0 ks = Ok k"
    "exactly k p (stack_pages \<union> segs_set (im_base im) (loads (x_elf X) buf)) B" "runtime_stack k t p args im pn libc"
    "\<forall>ph \<in> set (loads (x_elf X) buf). segment_in_memory k p (im_base im) buf ph" "pcbs k p = Some b'" "pcb_heap b' = im_heap_bottom im"
proof -
  have sp: "image_ok im" "elf_image (x_elf X) buf = Ok im" "\<not> list_ex (\<lambda>ph. ph_type ph = BadPh) (program_iter (x_elf X) buf)"
    "\<forall>ph \<in> set (loads (x_elf X) buf). ph_offset ph + ph_file_size ph \<le> length buf" "separate stack_pages (im_base im) (loads (x_elf X) buf)"
    using s by (auto simp: static_program_def list_ex_iff)
  have o: "owned ks p {}" using e by (simp add: exactly_def)
  have pg: "stack_pages = new_pages stack_low (USER_STACK_INIT_SIZE div PAGE_SIZE)"
    using pages_of_new [OF stack_low_facts(1), of "USER_STACK_INIT_SIZE div PAGE_SIZE"] by (simp add: USER_STACK_INIT_SIZE_def PAGE_SIZE_def)
  obtain k0 r where g: "grow ks p stack_low Stack (USER_STACK_INIT_SIZE div PAGE_SIZE) = Ok (k0, Some r)" "exactly k0 p stack_pages B"
    "free_run (frames k0) (segs_pages (im_base im) (loads (x_elf X) buf))"
    by (rule grow_run [OF e b stack_low_facts run Int_empty_left, of Stack, folded pg]) (simp add: that)
  obtain k1 where k1: "init_task_stack rd sz ks t p args im pn libc cx0 = Ok k1" "runtime_stack k1 t p args im pn libc"
    "owned k1 p ({} \<union> stack_pages)" "ptabs k1 = ptabs k0" "frames k1 = frames k0" "\<exists>b'. pcbs k1 p = Some b' \<and> pcb_heap b' = im_heap_bottom im"
    by (rule init_task_stack_ok [OF o b t g(1) Int_empty_left sp(1) room]) (rule that)
  have e1: "exactly k1 p stack_pages B" using g(2) k1(3-5) by (simp add: exactly_def frame_of_def)
  from k1(6) obtain b1 where b1: "pcbs k1 p = Some b1" "pcb_heap b1 = im_heap_bottom im" by blast
  have run1: "free_run (frames k1) (segs_pages (im_base im) (loads (x_elf X) buf))" using g(3) by (simp add: k1(5))
  from load_segments_ok [OF e1 b1(1) sp(5) run1 sp(4), of rd sz t] obtain k b' where
    k: "load_segments rd sz t p (im_base im) buf (loads (x_elf X) buf) k1 = Ok k" "exactly k p (stack_pages \<union> segs_set (im_base im) (loads (x_elf X) buf)) B"
      "tasks k = tasks k1" "keeps p stack_pages k1 k" "\<forall>ph \<in> set (loads (x_elf X) buf). segment_in_memory k p (im_base im) buf ph"
      "pcbs k p = Some b'" "pcb_heap b' = pcb_heap b1" by blast
  have "runtime_stack k t p args im pn libc"
    by (rule runtime_stack_cong [OF k1(2) _ k(4)]) (use k(3) e1 in \<open>auto simp: exactly_def\<close>)
  moreover have "load_elf rd sz (x_elf X) buf t p args pn libc cx0 ks = Ok k"
    using sp(3) by (simp add: load_elf_def sp(2) k1(1) k(1))
  ultimately show ?thesis using that k(2,5-7) b1(2) by simp
qed

text \<open>
  C3: \<^verbatim>\<open>execve\<close> replaces the program.  For a static ELF file whose segments share no page with
  each other or with the stack, and with a run of free pages for the file, the stack and the
  segments left once the old memory has been given back, the call succeeds; after
  it every byte of every segment is the byte of the file, the rest of the segment is zero, the
  stack is the one the C runtime expects with the program counter at the entry point, and
  the process has no other page: nothing of the old program is left.
\<close>

theorem execve_replaces_the_program:
  assumes o: "owned ks p {}" and t: "tasks ks t = Some self" and p: "process_id self = p" and b: "pcbs ks p = Some b"
    and h: "set (held (pcb_memset b)) \<subseteq> managed_frames (frames ks)" and s: "static_program X path buf im"
    and path: "path = path_join (x_cwd X (pcb_curr_dir b)) f" "f \<noteq> ''/bin/true''"
    and clear: "exec_clear ks p = Ok k1"
    and run: "free_run (frames k1) (div_ceil (length buf) PAGE_SIZE +
        (USER_STACK_INIT_SIZE div PAGE_SIZE + segs_pages (im_base im) (loads (x_elf X) buf)))"
    and room: "length (concat (map str_image (stack_strings (init_env (x_libc X)) args (path_string path)))) + 8 * (length args + 34)
        \<le> USER_STACK_INIT_SIZE"
  shows "\<exists>ks' b'. sys_execve (Suc n) X ks t (Some f) (Some args) (Some envp) = Some (ks', Ok 0) \<and>
    (\<forall>ph \<in> set (loads (x_elf X) buf). segment_in_memory ks' p (im_base im) buf ph) \<and>
    runtime_stack ks' t p args im (path_string path) (x_libc X) \<and>
    dom (ptabs ks' p) = stack_pages \<union> segs_set (im_base im) (loads (x_elf X) buf) \<and>
    pcbs ks' p = Some b' \<and> pcb_heap b' = im_heap_bottom im"
proof -
  have k1: "exactly k1 p {} {}" "tasks k1 t = Some self" "pcbs k1 p = Some (b\<lparr>pcb_memset := []\<rparr>)"
    using exec_clear_ok [OF o b h] clear t by auto
  obtain frs k2 where k2: "read_file X path k1 = (k2, Ok (frs, buf))" "exactly k2 p {} (set frs)"
    "free_run (frames k2) (USER_STACK_INIT_SIZE div PAGE_SIZE + segs_pages (im_base im) (loads (x_elf X) buf))"
    "tasks k2 = tasks k1" "pcbs k2 = pcbs k1"
    by (rule read_file_ok [OF s k1(1) run]) (rule that)
  have b2: "pcbs k2 p = Some (b\<lparr>pcb_memset := []\<rparr>)" "tasks k2 t = Some self" using k1 k2(4,5) by simp_all
  obtain k3 b3 where k3: "load_elf (x_read X) (x_size X) (x_elf X) buf t p args (path_string path) (x_libc X) (x_cx0 X) k2 = Ok k3"
    "exactly k3 p (stack_pages \<union> segs_set (im_base im) (loads (x_elf X) buf)) (set frs)" "runtime_stack k3 t p args im (path_string path) (x_libc X)"
    "\<forall>ph \<in> set (loads (x_elf X) buf). segment_in_memory k3 p (im_base im) buf ph" "pcbs k3 p = Some b3" "pcb_heap b3 = im_heap_bottom im"
    by (rule load_elf_ok [OF s k2(2) b2 k2(3) room]) (rule that)
  from drop_buffer_ok [OF k3(2)] obtain ks' where d: "drop_buffer frs k3 = Ok ks'" "tasks ks' = tasks k3" "pcbs ks' = pcbs k3" "ptabs ks' = ptabs k3"
    "keeps p (stack_pages \<union> segs_set (im_base im) (loads (x_elf X) buf)) k3 ks'" by blast
  have noint: "List.find (\<lambda>ph. ph_type ph = Interp) (program_iter (x_elf X) buf) = None"
    and st: "List.find (\<lambda>c. tc_name c = path) (x_caches X) = None" "elf_new (x_elf X) buf" "elf_magic (x_elf X) buf = ELF_MAGIC"
    using s by (auto simp: static_program_def find_None_iff)
  have "exec_with_process (Suc n) X ks t (x_cwd X (pcb_curr_dir b)) f args = Some (ks', Ok ())"
    unfolding exec_with_process.simps Let_def path(1) [symmetric]
    by (simp add: t p clear st noint k2(1) state_result_def k3(1) with_buffer_def d(1))
  then have "sys_execve (Suc n) X ks t (Some f) (Some args) (Some envp) = Some (ks', Ok 0)"
    using t p b path(2) by (simp add: sys_execve_def del: exec_with_process.simps)
  moreover have "runtime_stack ks' t p args im (path_string path) (x_libc X)"
    by (rule runtime_stack_cong [OF k3(3) _ d(5)]) (use k3(2) d(2) in \<open>auto simp: exactly_def\<close>)
  moreover have "segment_in_memory ks' p (im_base im) buf ph" if "ph \<in> set (loads (x_elf X) buf)" for ph
    by (rule segment_in_memory_cong [OF _ d(5)]) (use that k3(4) in \<open>auto simp: segs_set_def\<close>)
  moreover have "dom (ptabs ks' p) = stack_pages \<union> segs_set (im_base im) (loads (x_elf X) buf)"
    using k3(2) d(4) by (simp add: exactly_def)
  ultimately show ?thesis using k3(5,6) d(3) by auto
qed

text \<open>
  C36: a failed \<^verbatim>\<open>execve\<close> destroys its caller.  When the file cannot be opened the call
  returns the error to the program that made it, whose memory has been given back by then:
  the process has no area and no page left to return to.
\<close>

theorem failed_execve_destroys_the_caller:
  assumes o: "owned ks p {}" and t: "tasks ks t = Some self" and p: "process_id self = p" and b: "pcbs ks p = Some b"
    and h: "set (held (pcb_memset b)) \<subseteq> managed_frames (frames ks)"
    and path: "path = path_join (x_cwd X (pcb_curr_dir b)) f" "f \<noteq> ''/bin/true''"
    and none: "List.find (\<lambda>c. tc_name c = path) (x_caches X) = None" "x_open X path = Err e"
  shows "\<exists>ks'. sys_execve (Suc n) X ks t (Some f) (Some args) (Some envp) = Some (ks', Err e) \<and>
    tasks ks' t = Some self \<and> pcbs ks' p = Some (b\<lparr>pcb_memset := []\<rparr>) \<and> ptabs ks' p = Map.empty \<and> (\<forall>va. user_read ks' p va = None)"
proof -
  from exec_clear_ok [OF o b h] obtain k1 where k1: "exec_clear ks p = Ok k1" "exactly k1 p {} {}" "tasks k1 = tasks ks"
    "pcbs k1 = (pcbs ks)(p \<mapsto> b\<lparr>pcb_memset := []\<rparr>)" by blast
  have "exec_with_process (Suc n) X ks t (x_cwd X (pcb_curr_dir b)) f args = Some (k1, Err e)"
    unfolding exec_with_process.simps Let_def path(1) [symmetric] by (simp add: t p k1(1) none read_file_def)
  then have "sys_execve (Suc n) X ks t (Some f) (Some args) (Some envp) = Some (k1, Err e)"
    using t p b path(2) by (simp add: sys_execve_def del: exec_with_process.simps)
  moreover have "ptabs k1 p = Map.empty" using k1(2) by (simp add: exactly_def)
  ultimately show ?thesis using t k1(3,4) by (auto simp: user_read_def)
qed

section \<open>A program\<close>

text \<open>One segment at \<open>0x10000\<close>, eight bytes in the file and sixteen in memory.\<close>

definition tiny_segment :: ProgramHeader where
  "tiny_segment = \<lparr>ph_type = Load, ph_virtual_addr = 0x10000, ph_mem_size = 16, ph_file_size = 8, ph_offset = 0, ph_undefined = True, ph_text = None\<rparr>"

definition tiny_file :: "u8 list" where
  "tiny_file = ELF_MAGIC @ [1, 2, 3, 4]"

definition tiny_elf :: ElfFile where
  "tiny_elf = \<lparr>elf_new = (\<lambda>buf. take 4 buf = ELF_MAGIC), elf_magic = take 4, elf_entry_point = (\<lambda>_. 0x10004), elf_ph_count = (\<lambda>_. 1),
     elf_ph_entry_size = (\<lambda>_. 56), elf_ph_offset = (\<lambda>_. 64), program_iter = (\<lambda>_. [tiny_segment]), find_section = (\<lambda>_ _. None)\<rparr>"

definition tiny_env :: ExecEnv where
  "tiny_env = \<lparr>x_open = (\<lambda>path. if path = path_join path_new ''sh'' then Ok 3 else Err ENOENT), x_size = (\<lambda>_. Ok 8),
     x_read = (\<lambda>_ _ _. Ok tiny_file), x_elf = tiny_elf, x_caches = [], x_libc = ''/lib'', x_dyn = ''/lib/ld'', x_cx0 = (\<lambda>_. 0),
     x_cwd = (\<lambda>_. path_new)\<rparr>"

definition tiny_image :: Image where
  "tiny_image = \<lparr>im_base = 0, im_entry = 0x10004, im_ph_count = 1, im_ph_entry_size = 56, im_ph_addr = 0x10040, im_heap_bottom = 0x11000\<rparr>"

lemmas tiny_defs = tiny_segment_def tiny_file_def tiny_elf_def tiny_env_def tiny_image_def ELF_MAGIC_def

lemma tiny_pages: "pages_of 0x10000 16 = {0x10000}"
proof -
  have "page_floor x = 0x10000" if "0x10000 \<le> x" "x < 0x10010" for x
  proof -
    have "x div PAGE_SIZE = 16" using that by (simp add: PAGE_SIZE_def)
    then show ?thesis by (simp add: page_floor_div PAGE_SIZE_def)
  qed
  then have "page_floor ` {0x10000..<0x10010} = (\<lambda>_. 0x10000) ` {0x10000..<0x10010::nat}" by (intro image_cong) simp_all
  then show ?thesis by (simp add: pages_of_def image_constant_conv)
qed

lemma tiny_program: "static_program tiny_env (path_join path_new ''sh'') tiny_file tiny_image"
proof -
  have "0x10000 \<notin> stack_pages"
  proof
    assume "0x10000 \<in> stack_pages"
    then obtain x where x: "stack_low \<le> x" "0x10000 = page_floor x" by (auto simp: pages_of_def)
    have "stack_low div PAGE_SIZE * PAGE_SIZE \<le> x div PAGE_SIZE * PAGE_SIZE" using x(1) by (intro mult_le_mono1 div_le_mono)
    then show False using x(2) by (simp add: page_floor_div USER_STACK_TOP_def USER_STACK_INIT_SIZE_def PAGE_SIZE_def)
  qed
  then have "separate stack_pages (im_base tiny_image) (loads tiny_elf tiny_file)"
    by (simp add: tiny_defs seg_ok_def seg_start_def tiny_pages USIZE_def PAGE_SIZE_def)
  moreover have "elf_image tiny_elf tiny_file = Ok tiny_image"
    by (simp add: elf_image_def heap_bottom_def relocate_or_zero_def relocate_def get_ph_addr_def tiny_defs uadd_def umul_def div_ceil_def PAGE_SIZE_def USIZE_def)
  ultimately show ?thesis
    by (simp add: static_program_def image_ok_def) (simp add: tiny_defs USIZE_def)
qed

lemma fresh_process_clear:
  obtains k1 where "exec_clear fresh_process 1 = Ok k1" "frames k1 = frames fresh_process"
proof -
  have "held (pcb_memset ((pcb_new 0 0)\<lparr>threads := [1]\<rparr>)) = []" by (simp add: pcb_new_def held_def trackers_def)
  then show ?thesis
    using that unfolding exec_clear_def fresh_process_simps(4) option.case by (simp add: release_frames_def Let_def)
qed

lemma fresh_process_run34: "free_run (frames fresh_process) 34"
proof -
  have "{0..<0 + 34} \<subseteq> free_pages \<lparr>bits = [0], paddr = 0x1000, paddr_end = 0x41000\<rparr>"
    by (auto simp: free_pages_def used_def region_pages_def div_ceil_def PAGE_SIZE_def)
  then show ?thesis unfolding free_run_def fresh_process_simps by (intro bexI exI [of _ 0]) simp_all
qed

lemma fresh_process_task:
  "process_id \<lparr>process_id = 1, parent = None, tcb = tcb_new (\<lambda>_. 0) 0\<rparr> = 1"
  "set (held (pcb_memset ((pcb_new 0 0)\<lparr>threads := [1]\<rparr>))) \<subseteq> managed_frames (frames fresh_process)"
  by (simp_all add: pcb_new_def held_def trackers_def)

theorem execve_replaces_the_program_witness:
  "\<exists>ks'. sys_execve 1 tiny_env fresh_process 1 (Some ''sh'') (Some [''sh'', ''-c'']) (Some []) = Some (ks', Ok 0) \<and>
     user_read ks' 1 0x10005 = Some 2 \<and> user_read ks' 1 0x1000a = Some 0"
proof -
  obtain k1 where k1: "exec_clear fresh_process 1 = Ok k1" "frames k1 = frames fresh_process" by (rule fresh_process_clear)
  have run: "free_run (frames k1) (div_ceil (length tiny_file) PAGE_SIZE +
      (USER_STACK_INIT_SIZE div PAGE_SIZE + segs_pages (im_base tiny_image) (loads (x_elf tiny_env) tiny_file)))"
    using fresh_process_run34 unfolding k1(2)
    by (simp add: tiny_defs segs_pages_def segment_pages_def seg_start_def div_ceil_def uadd_def usub_def USIZE_def PAGE_SIZE_def USER_STACK_INIT_SIZE_def)
  have room: "length (concat (map str_image (stack_strings (init_env (x_libc tiny_env)) [''sh'', ''-c'']
      (path_string (path_join path_new ''sh''))))) + 8 * (length [''sh'', ''-c''] + 34) \<le> USER_STACK_INIT_SIZE"
    by (simp add: tiny_defs stack_strings_def init_env_def ESC_def length_str_image alignup_def div_ceil_def USER_STACK_INIT_SIZE_def
        path_string_def path_join_def push_component_def path_new_def SLASH_def)
  have cwd: "path_join path_new ''sh'' = path_join (x_cwd tiny_env (pcb_curr_dir ((pcb_new 0 0)\<lparr>threads := [1]\<rparr>))) ''sh''"
    by (simp add: tiny_env_def)
  from execve_replaces_the_program [OF fresh_process_owned fresh_process_simps(3) fresh_process_task(1) fresh_process_simps(4)
      fresh_process_task(2) tiny_program cwd _ k1(1) run room, of 0 "[]"]
  obtain ks' where r: "sys_execve (Suc 0) tiny_env fresh_process 1 (Some ''sh'') (Some [''sh'', ''-c'']) (Some []) = Some (ks', Ok 0)"
    "\<forall>ph \<in> set (loads (x_elf tiny_env) tiny_file). segment_in_memory ks' 1 (im_base tiny_image) tiny_file ph"
    by auto
  have "segment_in_memory ks' 1 0 tiny_file tiny_segment" using r(2) by (simp add: tiny_defs)
  then have m: "user_read ks' 1 (0x10000 + i) = Some (if i < 8 then tiny_file ! i else 0)" if "i < 16" for i
    using that unfolding segment_in_memory_def by (simp add: tiny_segment_def seg_start_def)
  show ?thesis using r(1) m [of 5] m [of 10] by (intro exI [of _ ks']) (simp add: tiny_file_def ELF_MAGIC_def)
qed

theorem failed_execve_destroys_the_caller_witness:
  "\<exists>ks'. sys_execve 1 tiny_env fresh_process 1 (Some ''ls'') (Some [''ls'']) (Some []) = Some (ks', Err ENOENT) \<and> ptabs ks' 1 = Map.empty"
proof -
  have cwd: "path_join path_new ''ls'' = path_join (x_cwd tiny_env (pcb_curr_dir ((pcb_new 0 0)\<lparr>threads := [1]\<rparr>))) ''ls''"
    by (simp add: tiny_env_def)
  have no: "List.find (\<lambda>c. tc_name c = path_join path_new ''ls'') (x_caches tiny_env) = None"
    "x_open tiny_env (path_join path_new ''ls'') = Err ENOENT"
    by (simp_all add: tiny_env_def path_join_def push_component_def path_new_def SLASH_def)
  from failed_execve_destroys_the_caller [OF fresh_process_owned fresh_process_simps(3) fresh_process_task(1) fresh_process_simps(4)
      fresh_process_task(2) cwd _ no, of 0 "[''ls'']" "[]"]
  show ?thesis by auto
qed

end
