(* ===== verification/Polling.thy ===== *)
theory Polling
  imports FdTable RamFs
begin

text \<open>
  Waiting for several descriptors: \<^verbatim>\<open>ppoll\<close>, \<^verbatim>\<open>poll\<close>, \<^verbatim>\<open>pselect\<close>, \<^verbatim>\<open>select\<close> and \<^verbatim>\<open>epoll\<close> of
  \<^verbatim>\<open>kernel/src/syscall/fd.rs\<close>, with \<^verbatim>\<open>EpollFile\<close> of \<^verbatim>\<open>kernel/src/syscall/types/poll.rs\<close>.
  Each call looks at its descriptors in rounds and yields to the other tasks between them: a
  definition describes one round, in the state of the moment and at the time \<open>now\<close>, and \<open>Pending\<close> is
  the end of a round that does not complete the call.
\<close>

section \<open>One descriptor\<close>

definition file_poll :: "('i, 's) dispatch \<Rightarrow> ('i, 's) Proc \<Rightarrow> nat \<Rightarrow> PollEvent \<Rightarrow> ('i, 's) Proc \<times> PollEvent res" where
  "file_poll node st h events = (case i_poll (node (inner (ofiles st ! h))) (fs st) events of (s, r) \<Rightarrow> (st\<lparr>fs := s\<rparr>, r))"

section \<open>The calls ppoll and poll\<close>

record PollFd =
  pf_fd :: nat
  pf_events :: PollEvent
  pf_revents :: PollEvent

definition poll_one :: "('i, 's) dispatch \<Rightarrow> ('i, 's) Proc \<Rightarrow> PollFd \<Rightarrow> ('i, 's) Proc \<times> PollFd res" where
  "poll_one node st x =
     (case get_fd st (pf_fd x) of
        Ok None \<Rightarrow> (st, Ok (x\<lparr>pf_revents := POLLNONE\<rparr>))
      | Ok (Some h) \<Rightarrow>
          (case file_poll node st h (pf_events x) of
             (st', Ok r) \<Rightarrow> (st', Ok (x\<lparr>pf_revents := r\<rparr>))
           | (st', _) \<Rightarrow> (st', Panic))
      | _ \<Rightarrow> (st, Panic))"

fun poll_all :: "('i, 's) dispatch \<Rightarrow> ('i, 's) Proc \<Rightarrow> PollFd list \<Rightarrow> ('i, 's) Proc \<times> PollFd list res" where
  "poll_all node st [] = (st, Ok [])"
| "poll_all node st (x # xs) =
     andthen (poll_one node st x) (\<lambda>st1 y. andthen (poll_all node st1 xs) (\<lambda>st2 ys. (st2, Ok (y # ys))))"

definition ready_count :: "PollFd list \<Rightarrow> nat" where
  "ready_count xs = length (filter (\<lambda>x. pf_revents x \<noteq> POLLNONE) xs)"

definition ppoll_deadline :: "nat \<Rightarrow> TimeSpec option \<Rightarrow> usize" where
  "ppoll_deadline now timeout = (case timeout of Some ts \<Rightarrow> uadd now (to_nsec ts) | None \<Rightarrow> USIZE - 1)"

definition sys_ppoll_round :: "('i, 's) dispatch \<Rightarrow> usize \<Rightarrow> nat \<Rightarrow> ('i, 's) Proc \<Rightarrow> PollFd list \<Rightarrow> ('i, 's) Proc \<times> (PollFd list \<times> nat Poll) res" where
  "sys_ppoll_round node etime now st xs =
     andthen (poll_all node st xs) (\<lambda>st1 ys.
       (st1, Ok (ys, if now \<ge> etime \<or> ready_count ys > 0 then Ready (ready_count ys) else Pending)))"

definition sys_poll_round :: "('i, 's) dispatch \<Rightarrow> nat \<Rightarrow> int \<Rightarrow> nat \<Rightarrow> ('i, 's) Proc \<Rightarrow> PollFd list \<Rightarrow> ('i, 's) Proc \<times> (PollFd list \<times> nat Poll) res" where
  "sys_poll_round node start timeout now st xs =
     (let etime = uadd start (umul (nat (timeout mod int USIZE)) 0x1000000)
      in andthen (poll_all node st xs) (\<lambda>st1 ys.
           (st1, Ok (ys, if (timeout > 0 \<and> now \<ge> etime) \<or> ready_count ys > 0 then Ready (ready_count ys) else Pending))))"

section \<open>The calls pselect and select\<close>

text \<open>
  A set of descriptors is four words of bits, here the list of its 256 bits.  The sets of
  results live across the rounds; \<open>clear\<close> tells that a bit that is not asked for is cleared in the
  result, which the loop over the reading set does and the other two do not.
\<close>

type_synonym fd_set = "bool list"

fun select_scan :: "('i, 's) dispatch \<Rightarrow> PollEvent \<Rightarrow> bool \<Rightarrow> fd_set \<Rightarrow> nat list \<Rightarrow> ('i, 's) Proc \<Rightarrow> fd_set \<Rightarrow> nat \<Rightarrow>
    ('i, 's) Proc \<times> (fd_set \<times> nat) res" where
  "select_scan node ev clear req [] st r num = (st, Ok (r, num))"
| "select_scan node ev clear req (i # is) st r num =
     (if \<not> req ! i then select_scan node ev clear req is st (if clear then r[i := False] else r) num
      else case index_res (fd_table st) i of
        Ok None \<Rightarrow> select_scan node ev clear req is st (r[i := False]) num
      | Ok (Some h) \<Rightarrow>
          (case file_poll node st h ev of
             (st1, Ok res) \<Rightarrow>
               if contains res ev then select_scan node ev clear req is st1 (r[i := True]) (num + 1)
               else select_scan node ev clear req is st1 (r[i := False]) num
           | (st1, Err _) \<Rightarrow> select_scan node ev clear req is st1 (r[i := False]) num
           | (st1, Panic) \<Rightarrow> (st1, Panic))
      | _ \<Rightarrow> (st, Panic))"

definition select_set :: "('i, 's) dispatch \<Rightarrow> PollEvent \<Rightarrow> bool \<Rightarrow> nat \<Rightarrow> fd_set option \<Rightarrow> ('i, 's) Proc \<Rightarrow> fd_set \<Rightarrow> nat \<Rightarrow>
    ('i, 's) Proc \<times> (fd_set \<times> nat) res" where
  "select_set node ev clear n req st r num =
     (case req of
        None \<Rightarrow> (st, Ok (r, num))
      | Some q \<Rightarrow> select_scan node ev clear q [0..<n] st r num)"

record SelectState =
  rfds_r :: fd_set
  wfds_r :: fd_set
  efds_r :: fd_set

definition select_start :: SelectState where
  "select_start = \<lparr>rfds_r = replicate 256 False, wfds_r = replicate 256 False, efds_r = replicate 256 False\<rparr>"

definition select_limit :: "nat \<Rightarrow> nat" where
  "select_limit max_fdp1 = min max_fdp1 255"

text \<open>
  One round.  When it completes the call, the three results are copied over the sets the
  caller gave.
\<close>

definition sys_pselect_round :: "('i, 's) dispatch \<Rightarrow> nat \<Rightarrow> fd_set option \<Rightarrow> fd_set option \<Rightarrow> fd_set option \<Rightarrow> usize \<Rightarrow> nat \<Rightarrow>
    ('i, 's) Proc \<Rightarrow> SelectState \<Rightarrow> ('i, 's) Proc \<times> (SelectState \<times> nat Poll) res" where
  "sys_pselect_round node max_fdp1 readfds writefds exceptfds timeout now st ss =
     (let n = select_limit max_fdp1 in
      andthen (select_set node POLLIN True n readfds st (rfds_r ss) 0) (\<lambda>st1 (r, num1).
        andthen (select_set node POLLOUT False n writefds st1 (wfds_r ss) num1) (\<lambda>st2 (w, num2).
          andthen (select_set node POLLERR False n exceptfds st2 (efds_r ss) num2) (\<lambda>st3 (e, num3).
            (st3, Ok (\<lparr>rfds_r = r, wfds_r = w, efds_r = e\<rparr>,
               if num3 \<noteq> 0 then Ready num3 else if now > timeout then Ready 0 else Pending))))))"

definition select_copy :: "fd_set option \<Rightarrow> fd_set \<Rightarrow> fd_set option" where
  "select_copy given r = map_option (\<lambda>_. r) given"

text \<open>The rounds of a call, in the states and at the times they happen.\<close>

fun pselect_rounds :: "('i, 's) dispatch \<Rightarrow> nat \<Rightarrow> fd_set option \<Rightarrow> fd_set option \<Rightarrow> fd_set option \<Rightarrow> usize \<Rightarrow>
    (('i, 's) Proc \<times> nat) list \<Rightarrow> SelectState \<Rightarrow> (fd_set option \<times> fd_set option \<times> fd_set option \<times> nat) res Poll" where
  "pselect_rounds node m rf wfd ef timeout [] ss = Pending"
| "pselect_rounds node m rf wfd ef timeout ((st, now) # rest) ss =
     (case sys_pselect_round node m rf wfd ef timeout now st ss of
        (_, Ok (ss1, Ready k)) \<Rightarrow> Ready (Ok (select_copy rf (rfds_r ss1), select_copy wfd (wfds_r ss1), select_copy ef (efds_r ss1), k))
      | (_, Ok (ss1, Pending)) \<Rightarrow> pselect_rounds node m rf wfd ef timeout rest ss1
      | (_, Err e) \<Rightarrow> Ready (Err e)
      | (_, Panic) \<Rightarrow> Ready Panic)"

definition sys_pselect :: "('i, 's) dispatch \<Rightarrow> nat \<Rightarrow> fd_set option \<Rightarrow> fd_set option \<Rightarrow> fd_set option \<Rightarrow> TimeSpec option \<Rightarrow> nat \<Rightarrow>
    (('i, 's) Proc \<times> nat) list \<Rightarrow> (fd_set option \<times> fd_set option \<times> fd_set option \<times> nat) res Poll" where
  "sys_pselect node m rf wfd ef timeout start rounds = pselect_rounds node m rf wfd ef (ppoll_deadline start timeout) rounds select_start"

section \<open>The epoll calls\<close>

type_synonym EpollEventType = "32 word"

record EpollEvent =
  ee_events :: EpollEventType
  ee_data :: u64

text \<open>The bits that are events of \<^verbatim>\<open>PollEvent\<close>, which \<^verbatim>\<open>from_bits_truncate\<close> keeps.\<close>

definition POLL_ALL :: PollEvent where
  "POLL_ALL = 0x37FF"

definition to_poll :: "EpollEventType \<Rightarrow> PollEvent" where
  "to_poll e = ucast e AND POLL_ALL"

record EpollFile =
  ep_data :: "nat \<rightharpoonup> EpollEvent"
  ep_flags :: nat

definition epoll_new :: "nat \<Rightarrow> EpollFile" where
  "epoll_new flags = \<lparr>ep_data = Map.empty, ep_flags = flags\<rparr>"

datatype EpollCtl = CtlADD | CtlDEL | CtlMOD

definition epoll_ctl_from :: "nat \<Rightarrow> EpollCtl option" where
  "epoll_ctl_from op = (if op = 1 then Some CtlADD else if op = 2 then Some CtlDEL else if op = 3 then Some CtlMOD else None)"

definition epoll_ctl :: "EpollFile \<Rightarrow> EpollCtl \<Rightarrow> nat \<Rightarrow> EpollEvent \<Rightarrow> EpollFile" where
  "epoll_ctl ep ctl fd ev =
     (case ctl of
        CtlADD \<Rightarrow> ep\<lparr>ep_data := (ep_data ep)(fd \<mapsto> ev)\<rparr>
      | CtlDEL \<Rightarrow> ep\<lparr>ep_data := (ep_data ep)(fd := None)\<rparr>
      | CtlMOD \<Rightarrow> ep\<lparr>ep_data := (ep_data ep)(fd := map_option (\<lambda>_. ev) (ep_data ep fd))\<rparr>)"

text \<open>The epoll files are found by their inode.\<close>

record ('i, 's) EpState =
  ep_proc :: "('i, 's) Proc"
  epolls :: "'i \<rightharpoonup> EpollFile"

definition sys_epoll_create1 :: "('i, 's) EpState \<Rightarrow> 'i \<Rightarrow> nat \<Rightarrow> ('i, 's) EpState \<times> nat res" where
  "sys_epoll_create1 st i flags =
     (case install (ep_proc st) (new_dev i) EMFILE of
        (p, Ok fd) \<Rightarrow> (st\<lparr>ep_proc := p, epolls := (epolls st)(i \<mapsto> epoll_new flags)\<rparr>, Ok fd)
      | (p, r) \<Rightarrow> (st\<lparr>ep_proc := p\<rparr>, r))"

definition find_epoll :: "('i, 's) EpState \<Rightarrow> nat \<Rightarrow> ('i \<times> EpollFile) res" where
  "find_epoll st epfd =
     (case get_fd (ep_proc st) epfd of
        Ok None \<Rightarrow> Err EBADF
      | Ok (Some h) \<Rightarrow>
          (let i = inner (ofiles (ep_proc st) ! h) in
           case epolls st i of Some ep \<Rightarrow> Ok (i, ep) | None \<Rightarrow> Err EINVAL)
      | _ \<Rightarrow> Panic)"

definition sys_epoll_ctl :: "('i, 's) EpState \<Rightarrow> nat \<Rightarrow> nat \<Rightarrow> nat \<Rightarrow> EpollEvent \<Rightarrow> ('i, 's) EpState \<times> nat res" where
  "sys_epoll_ctl st epfd op fd ev =
     (case epoll_ctl_from op of
        None \<Rightarrow> (st, Err EINVAL)
      | Some ctl \<Rightarrow>
          (case find_epoll st epfd of
             Ok (i, ep) \<Rightarrow>
               (case get_fd (ep_proc st) fd of
                  Ok None \<Rightarrow> (st, Err EBADF)
                | Ok (Some _) \<Rightarrow> (st\<lparr>epolls := (epolls st)(i \<mapsto> epoll_ctl ep ctl fd ev)\<rparr>, Ok 0)
                | _ \<Rightarrow> (st, Panic))
           | Err e \<Rightarrow> (st, Err e)
           | Panic \<Rightarrow> (st, Panic)))"

text \<open>
  The entries are visited in the order of the hash table, which is an argument; a ready one
  is put into the buffer of the caller, which has room for \<open>max_events\<close>.
\<close>

fun epoll_scan :: "('i, 's) dispatch \<Rightarrow> nat \<Rightarrow> (nat \<times> EpollEvent) list \<Rightarrow> ('i, 's) Proc \<Rightarrow> EpollEvent list \<Rightarrow>
    ('i, 's) Proc \<times> EpollEvent list res" where
  "epoll_scan node max_events [] st out = (st, Ok out)"
| "epoll_scan node max_events ((fd, ev) # es) st out =
     (case get_fd st fd of
        Ok None \<Rightarrow> epoll_scan node max_events es st out
      | Ok (Some h) \<Rightarrow>
          (case file_poll node st h (to_poll (ee_events ev)) of
             (st1, Ok r) \<Rightarrow>
               if r = POLLNONE then epoll_scan node max_events es st1 out
               else if length out < max_events then epoll_scan node max_events es st1 (out @ [ev])
               else (st1, Panic)
           | (st1, Err _) \<Rightarrow> epoll_scan node max_events es st1 out
           | (st1, Panic) \<Rightarrow> (st1, Panic))
      | _ \<Rightarrow> (st, Panic))"

definition epoll_deadline :: "nat \<Rightarrow> usize \<Rightarrow> usize" where
  "epoll_deadline start timeout = (if timeout = USIZE - 1 then USIZE - 1 else uadd start (umul timeout 0x1000000))"

text \<open>The epoll file is found once; the rounds then look at its entries of the moment.\<close>

definition epoll_wait_round :: "('i, 's) dispatch \<Rightarrow> nat \<Rightarrow> usize \<Rightarrow> (nat \<times> EpollEvent) list \<Rightarrow> nat \<Rightarrow> ('i, 's) Proc \<Rightarrow>
    ('i, 's) Proc \<times> (EpollEvent list \<times> nat Poll) res" where
  "epoll_wait_round node max_events end0 order now st =
     andthen (epoll_scan node max_events order st []) (\<lambda>st1 out.
       (st1, Ok (out, if now \<ge> end0 \<or> length out > 0 then Ready (length out) else Pending)))"

fun epoll_rounds :: "('i, 's) dispatch \<Rightarrow> nat \<Rightarrow> usize \<Rightarrow> (('i, 's) Proc \<times> (nat \<times> EpollEvent) list \<times> nat) list \<Rightarrow>
    (EpollEvent list \<times> nat) res Poll" where
  "epoll_rounds node max_events end0 [] = Pending"
| "epoll_rounds node max_events end0 ((st, order, now) # rest) =
     (case epoll_wait_round node max_events end0 order now st of
        (_, Ok (out, Ready k)) \<Rightarrow> Ready (Ok (out, k))
      | (_, Ok (_, Pending)) \<Rightarrow> epoll_rounds node max_events end0 rest
      | (_, Err e) \<Rightarrow> Ready (Err e)
      | (_, Panic) \<Rightarrow> Ready Panic)"

definition sys_epoll_wait :: "('i, 's) dispatch \<Rightarrow> ('i, 's) EpState \<Rightarrow> nat \<Rightarrow> nat \<Rightarrow> usize \<Rightarrow> nat \<Rightarrow>
    (('i, 's) Proc \<times> (nat \<times> EpollEvent) list \<times> nat) list \<Rightarrow> (EpollEvent list \<times> nat) res Poll" where
  "sys_epoll_wait node st epfd max_events timeout start rounds =
     (case find_epoll st epfd of
        Ok _ \<Rightarrow> epoll_rounds node max_events (epoll_deadline start timeout) rounds
      | Err e \<Rightarrow> Ready (Err e)
      | Panic \<Rightarrow> Ready Panic)"

section \<open>What is ready\<close>

definition answers :: "('i, 's) dispatch \<Rightarrow> bool" where
  "answers node \<longleftrightarrow> (\<forall>i s e. fst (i_poll (node i) s e) = s \<and> snd (i_poll (node i) s e) \<noteq> Panic)"

definition select_ready :: "('i, 's) dispatch \<Rightarrow> PollEvent \<Rightarrow> ('i, 's) Proc \<Rightarrow> nat \<Rightarrow> bool" where
  "select_ready node ev st i =
     (case fd_table st ! i of
        None \<Rightarrow> False
      | Some h \<Rightarrow> (case snd (i_poll (node (inner (ofiles st ! h))) (fs st) ev) of Ok r \<Rightarrow> contains r ev | _ \<Rightarrow> False))"

text \<open>What a call asks for: bits below the limit, of descriptors that are ready.\<close>

definition ready_bits :: "('i, 's) dispatch \<Rightarrow> PollEvent \<Rightarrow> nat \<Rightarrow> ('i, 's) Proc \<Rightarrow> fd_set \<Rightarrow> fd_set" where
  "ready_bits node ev n st q = map (\<lambda>i. i < n \<and> q ! i \<and> select_ready node ev st i) [0..<256]"

definition bit_count :: "fd_set option \<Rightarrow> nat" where
  "bit_count q = (case q of None \<Rightarrow> 0 | Some b \<Rightarrow> count_list b True)"

lemma file_poll_answers:
  "answers node \<Longrightarrow> file_poll node st h e = (st, snd (i_poll (node (inner (ofiles st ! h))) (fs st) e))"
  by (auto simp: file_poll_def answers_def split: prod.splits) (metis fst_conv Proc.unfold_congs(1) Proc.surjective Proc.update_convs(1))

lemma select_scan_bits:
  assumes a: "answers node" and "\<forall>i \<in> set is. i < length (fd_table st)" "distinct is"
  shows "\<exists>r'. select_scan node ev clear req is st r num =
      (st, Ok (r', num + length (filter (\<lambda>i. req ! i \<and> select_ready node ev st i) is))) \<and> length r' = length r \<and>
    (\<forall>j < length r. r' ! j = (if j \<in> set is \<and> (req ! j \<or> clear) then req ! j \<and> select_ready node ev st j else r ! j))"
  using assms(2,3)
proof (induction "is" arbitrary: r num)
  case (Cons i "is")
  have ix: "index_res (fd_table st) i = Ok (fd_table st ! i)" using Cons.prems(1) by (simp add: index_res_def)
  have i: "\<forall>i \<in> set is. i < length (fd_table st)" "distinct is" "i \<notin> set is" using Cons.prems by auto
  note IH = Cons.IH [OF i(1,2)]
  show ?case
  proof (cases "req ! i")
    case False
    define r0 where "r0 = (if clear then r[i := False] else r)"
    have l: "length r0 = length r" by (simp add: r0_def)
    from IH [of r0 num] obtain r' where
      r': "select_scan node ev clear req is st r0 num = (st, Ok (r', num + length (filter (\<lambda>i. req ! i \<and> select_ready node ev st i) is)))"
        "length r' = length r"
        "\<forall>j < length r. r' ! j = (if j \<in> set is \<and> (req ! j \<or> clear) then req ! j \<and> select_ready node ev st j else r0 ! j)"
      unfolding l by blast
    then show ?thesis using False i(3) by (intro exI [of _ r']) (auto simp: r0_def nth_list_update)
  next
    case True
    let ?b = "select_ready node ev st i"
    have step: "select_scan node ev clear req (i # is) st r num =
        select_scan node ev clear req is st (r[i := ?b]) (if ?b then num + 1 else num)"
      using True a by (auto simp: ix select_ready_def file_poll_answers [OF a] answers_def split: option.splits res.splits)
    from IH [of "r[i := ?b]" "if ?b then num + 1 else num"] obtain r' where
      r': "select_scan node ev clear req is st (r[i := ?b]) (if ?b then num + 1 else num) =
           (st, Ok (r', (if ?b then num + 1 else num) + length (filter (\<lambda>i. req ! i \<and> select_ready node ev st i) is)))"
        "length r' = length r"
        "\<forall>j < length r. r' ! j = (if j \<in> set is \<and> (req ! j \<or> clear) then req ! j \<and> select_ready node ev st j else r[i := ?b] ! j)"
      by auto
    have "r' ! j = (if j \<in> set (i # is) \<and> (req ! j \<or> clear) then req ! j \<and> select_ready node ev st j else r ! j)" if "j < length r" for j
      using r'(3) [rule_format, OF that] that True i(3) by (cases "j = i") (auto split: if_splits)
    then show ?thesis unfolding step r'(1) using True r'(2) by (intro exI [of _ r']) simp
  qed
qed simp

text \<open>Bits that are not asked for are never set, so a round does not see the one before.\<close>

definition quiet :: "nat \<Rightarrow> fd_set option \<Rightarrow> fd_set \<Rightarrow> bool" where
  "quiet n q r \<longleftrightarrow> length r = 256 \<and> (\<forall>b. q = Some b \<longrightarrow> (\<forall>i < 256. r ! i \<longrightarrow> i < n \<and> b ! i))"

lemma ready_bits_count:
  assumes "n \<le> 256"
  shows "count_list (ready_bits node ev n st b) True = length (filter (\<lambda>i. b ! i \<and> select_ready node ev st i) [0..<n])"
proof -
  let ?P = "\<lambda>i. b ! i \<and> select_ready node ev st i"
  have "count_list (map f xs) True = length (filter f xs)" for f and xs :: "nat list" by (induction xs) auto
  then have "count_list (ready_bits node ev n st b) True = length (filter (\<lambda>i. i < n \<and> ?P i) [0..<256])" by (simp add: ready_bits_def)
  also have "[0..<256] = [0..<n] @ [n..<256]" using upt_add_eq_append [of 0 n "256 - n"] assms by simp
  also have "filter (\<lambda>i. i < n \<and> ?P i) ([0..<n] @ [n..<256]) = filter ?P [0..<n]"
    by (auto simp: filter_empty_conv intro!: filter_cong)
  finally show ?thesis .
qed

lemma select_set_bits:
  assumes "answers node" "n \<le> length (fd_table st)" "n \<le> 256" "quiet n q r"
  shows "select_set node ev clear n q st r num = (st, Ok (case q of None \<Rightarrow> r | Some b \<Rightarrow> ready_bits node ev n st b,
     num + bit_count (map_option (ready_bits node ev n st) q)))"
    "quiet n q (case q of None \<Rightarrow> r | Some b \<Rightarrow> ready_bits node ev n st b)"
proof -
  show "select_set node ev clear n q st r num = (st, Ok (case q of None \<Rightarrow> r | Some b \<Rightarrow> ready_bits node ev n st b,
     num + bit_count (map_option (ready_bits node ev n st) q)))"
  proof (cases q)
    case (Some b)
    have l: "length r = 256" and qr: "\<forall>i < 256. r ! i \<longrightarrow> i < n \<and> b ! i" using assms(4) Some by (auto simp: quiet_def)
    have "\<forall>i \<in> set [0..<n]. i < length (fd_table st)" using assms(2) by auto
    from select_scan_bits [OF assms(1) this distinct_upt, of ev clear b r num] obtain r' where
      r': "select_scan node ev clear b [0..<n] st r num = (st, Ok (r', num + length (filter (\<lambda>i. b ! i \<and> select_ready node ev st i) [0..<n])))"
        "length r' = length r"
        "\<forall>j < length r. r' ! j = (if j \<in> set [0..<n] \<and> (b ! j \<or> clear) then b ! j \<and> select_ready node ev st j else r ! j)" by blast
    have "r' = ready_bits node ev n st b"
      by (rule nth_equalityI) (use r'(2,3) l qr in \<open>auto simp: ready_bits_def\<close>)
    then show ?thesis using r'(1) Some ready_bits_count [OF assms(3), of node ev st b] by (simp add: select_set_def bit_count_def)
  qed (simp add: select_set_def bit_count_def)
  show "quiet n q (case q of None \<Rightarrow> r | Some b \<Rightarrow> ready_bits node ev n st b)"
    using assms(4) by (auto simp: quiet_def ready_bits_def split: option.splits)
qed

definition quiet_state :: "nat \<Rightarrow> fd_set option \<Rightarrow> fd_set option \<Rightarrow> fd_set option \<Rightarrow> SelectState \<Rightarrow> bool" where
  "quiet_state n rf wfd ef ss \<longleftrightarrow> quiet n rf (rfds_r ss) \<and> quiet n wfd (wfds_r ss) \<and> quiet n ef (efds_r ss)"

text \<open>The answer to a call in one state.\<close>

definition select_answer :: "('i, 's) dispatch \<Rightarrow> nat \<Rightarrow> fd_set option \<Rightarrow> fd_set option \<Rightarrow> fd_set option \<Rightarrow> ('i, 's) Proc \<Rightarrow>
    fd_set option \<times> fd_set option \<times> fd_set option \<times> nat" where
  "select_answer node n rf wfd ef st =
     (let r = map_option (ready_bits node POLLIN n st) rf;
          w = map_option (ready_bits node POLLOUT n st) wfd;
          e = map_option (ready_bits node POLLERR n st) ef
      in (r, w, e, bit_count r + bit_count w + bit_count e))"

definition select_number :: "fd_set option \<times> fd_set option \<times> fd_set option \<times> nat \<Rightarrow> nat" where
  "select_number a = snd (snd (snd a))"

lemma pselect_round_answer:
  assumes a: "answers node" and n: "select_limit m \<le> length (fd_table st)" and q: "quiet_state (select_limit m) rf wfd ef ss"
  shows "\<exists>ss'. sys_pselect_round node m rf wfd ef timeout now st ss = (st, Ok (ss',
      let k = select_number (select_answer node (select_limit m) rf wfd ef st) in
      if k \<noteq> 0 then Ready k else if now > timeout then Ready 0 else Pending)) \<and>
    quiet_state (select_limit m) rf wfd ef ss' \<and>
    (select_copy rf (rfds_r ss'), select_copy wfd (wfds_r ss'), select_copy ef (efds_r ss'),
       select_number (select_answer node (select_limit m) rf wfd ef st)) = select_answer node (select_limit m) rf wfd ef st"
proof -
  have m: "select_limit m \<le> 256" by (simp add: select_limit_def)
  note r = select_set_bits [OF a n m, where q = rf and r = "rfds_r ss"]
    and w = select_set_bits [OF a n m, where q = wfd and r = "wfds_r ss"]
    and e = select_set_bits [OF a n m, where q = ef and r = "efds_r ss"]
  have qs: "quiet (select_limit m) rf (rfds_r ss)" "quiet (select_limit m) wfd (wfds_r ss)" "quiet (select_limit m) ef (efds_r ss)"
    using q by (simp_all add: quiet_state_def)
  show ?thesis
    using r(2) [OF qs(1), of POLLIN] w(2) [OF qs(2), of POLLOUT] e(2) [OF qs(3), of POLLERR]
    by (simp add: sys_pselect_round_def Let_def r(1) [OF qs(1)] w(1) [OF qs(2)] e(1) [OF qs(3)] andthen_def quiet_state_def
        select_answer_def select_number_def select_copy_def add.assoc option.map_comp split: option.split)
qed


section \<open>A reported descriptor can be read\<close>

text \<open>
  What \<^verbatim>\<open>ppoll\<close> relies on: where \<^verbatim>\<open>poll\<close> of an inode answers a request for \<^verbatim>\<open>POLLIN\<close> with an event, a
  read of at least one byte does not ask to be tried again.
\<close>

locale readable_inode =
  fixes ops :: "('i, 's) inode"
  assumes poll_read: "i_poll ops s POLLIN = (s', Ok r) \<Longrightarrow> r \<noteq> POLLNONE \<Longrightarrow> 0 < n \<Longrightarrow> snd (i_readat ops s' off n) \<noteq> Err EWOULDBLOCK"
begin

lemma read_completes:
  assumes "i_poll ops s POLLIN = (s', Ok r)" "r \<noteq> POLLNONE" "0 < n"
  shows "\<exists>q k v. wait_blocking_read ops n off s' retries = (q, k, Ready v)"
proof -
  obtain q v where q: "i_readat ops s' off n = (q, v)" by (cases "i_readat ops s' off n")
  with poll_read [OF assms, of off] have "v \<noteq> Err EWOULDBLOCK" by simp
  then show ?thesis using q by (auto simp: wait_blocking_read_def wait_poll_def split: res.splits errno.splits)
qed

lemma async_read_completes:
  assumes "i_poll ops s POLLIN = (s', Ok r)" "r \<noteq> POLLNONE" "0 < n" "node (inner f) = ops"
  shows "\<exists>q k v. async_read node off s' f n retries = (q, k, Ready v)"
  using read_completes [OF assms(1-3), of off retries] assms(4)
  by (auto simp: async_read_def finish_def split: prod.splits)

lemma sys_read_completes:
  assumes "get_fd st fd = Ok (Some h)" "node (inner (ofiles st ! h)) = ops" "i_poll ops (fs st) POLLIN = (fs st, Ok r)" "r \<noteq> POLLNONE" "0 < n"
  shows "\<exists>v. snd (sys_read node st fd n) = Ready v"
  using async_read_completes [where node = node, OF assms(3-5) assms(2), of "foff (ofiles st ! h)" 0] assms(1) by (auto simp: sys_read_def)

end

interpretation pipe_reader: readable_inode pipe_receiver_inode
  by unfold_locales (auto simp: pipe_receiver_inode_def inode_default_def pipe_receiver_poll_def pipe_readat_def Let_def poll_defs split: if_splits)

interpretation pair_reader: readable_inode socket_pair_inode
  by unfold_locales (auto simp: socket_pair_inode_def inode_default_def socket_pair_poll_def socket_pair_readat_def Let_def poll_defs contains_def
      split: if_splits)

lemma poll_one_answers:
  assumes "answers node" "poll_one node st x = (st', Ok y)"
  shows "st' = st \<and> pf_fd y = pf_fd x \<and> pf_events y = pf_events x \<and>
    (case get_fd st (pf_fd x) of
       Ok (Some h) \<Rightarrow> snd (i_poll (node (inner (ofiles st ! h))) (fs st) (pf_events x)) = Ok (pf_revents y)
     | _ \<Rightarrow> pf_revents y = POLLNONE)"
  using assms by (auto simp: poll_one_def file_poll_answers split: res.splits option.splits)

lemma poll_all_answers:
  assumes "answers node" "poll_all node st xs = (st', Ok ys)"
  shows "st' = st \<and> list_all2 (\<lambda>x y. poll_one node st x = (st, Ok y)) xs ys"
  using assms(2)
proof (induction xs arbitrary: ys)
  case (Cons x xs)
  from Cons.prems obtain st1 y st2 zs where y: "poll_one node st x = (st1, Ok y)" "poll_all node st1 xs = (st2, Ok zs)" "ys = y # zs" "st' = st2"
    by (auto simp: andthen_def split: prod.splits res.splits)
  have "st1 = st" using poll_one_answers [OF assms(1) y(1)] by blast
  with Cons.IH [of zs] y show ?case by auto
qed simp

text \<open>
  What \<^verbatim>\<open>ppoll\<close> reports can be read.  When \<^verbatim>\<open>ppoll\<close> returns, its result is the number of
  entries with an event, and for every entry of a reading end of a pipe that asked for
  \<^verbatim>\<open>POLLIN\<close> and has an event, a \<^verbatim>\<open>read\<close> of that descriptor completes at once.
\<close>

theorem ppoll_then_read_does_not_block:
  assumes a: "answers node" and p: "sys_ppoll_round node etime now st xs = (st', Ok (ys, Ready k))"
  shows "st' = st \<and> length ys = length xs \<and> k = ready_count ys \<and> (k > 0 \<or> now \<ge> etime) \<and>
    (\<forall>y h n. y \<in> set ys \<and> pf_events y = POLLIN \<and> pf_revents y \<noteq> POLLNONE \<and> get_fd st (pf_fd y) = Ok (Some h) \<and>
       node (inner (ofiles st ! h)) = pipe_receiver_inode \<and> 0 < n \<longrightarrow> (\<exists>v. snd (sys_read node st' (pf_fd y) n) = Ready v))"
proof -
  from p have q: "poll_all node st xs = (st', Ok ys)" "k = ready_count ys" "k > 0 \<or> now \<ge> etime"
    by (auto simp: sys_ppoll_round_def andthen_def split: prod.splits res.splits if_splits)
  note all = poll_all_answers [OF a q(1)]
  have "\<exists>v. snd (sys_read node st (pf_fd y) n) = Ready v"
    if y: "y \<in> set ys" "pf_events y = POLLIN" "pf_revents y \<noteq> POLLNONE" "get_fd st (pf_fd y) = Ok (Some h)"
      "node (inner (ofiles st ! h)) = pipe_receiver_inode" "0 < n" for y h n
  proof -
    from all y(1) obtain x where "poll_one node st x = (st, Ok y)" by (auto simp: list_all2_conv_all_nth in_set_conv_nth)
    from poll_one_answers [OF a this] y(2,4) have "snd (i_poll (node (inner (ofiles st ! h))) (fs st) POLLIN) = Ok (pf_revents y)" by auto
    moreover have "fst (i_poll (node (inner (ofiles st ! h))) (fs st) POLLIN) = fs st" using a by (simp add: answers_def)
    ultimately have "i_poll (node (inner (ofiles st ! h))) (fs st) POLLIN = (fs st, Ok (pf_revents y))" by (metis prod.collapse)
    from pipe_reader.sys_read_completes [where node = node, OF y(4,5) this [unfolded y(5)] y(3,6)] show ?thesis .
  qed
  then show ?thesis using all q(2,3) list_all2_lengthD by metis
qed

text \<open>
  \<^verbatim>\<open>ppoll\<close> on a regular file stops the kernel.  The files and directories of the memory file
  system do not implement \<^verbatim>\<open>poll\<close>, which then is an error, and the call unwraps
  the answer: one such descriptor among those of the call is enough, whatever the others are.
\<close>

theorem ppoll_regular_file_panics:
  assumes "get_fd st fd = Ok (Some h)" "inner (ofiles st ! h) = HFile i \<or> inner (ofiles st ! h) = HDir i"
  shows "snd (sys_ppoll_round (ram_inode addr) etime now st (\<lparr>pf_fd = fd, pf_events = ev, pf_revents = rv\<rparr> # xs)) = Panic"
  using assms by (auto simp: sys_ppoll_round_def poll_one_def file_poll_def andthen_def ram_file_inode_def ram_dir_inode_def inode_default_def)

section \<open>What epoll reports\<close>

definition epoll_ready :: "('i, 's) dispatch \<Rightarrow> ('i, 's) Proc \<Rightarrow> nat \<times> EpollEvent \<Rightarrow> bool" where
  "epoll_ready node st x =
     (case get_fd st (fst x) of
        Ok (Some h) \<Rightarrow>
          (case snd (i_poll (node (inner (ofiles st ! h))) (fs st) (to_poll (ee_events (snd x)))) of
             Ok r \<Rightarrow> r \<noteq> POLLNONE | _ \<Rightarrow> False)
      | _ \<Rightarrow> False)"

lemma epoll_scan_ready:
  assumes a: "answers node" and w: "fd_wf st" and "length out \<le> max_events"
  shows "epoll_scan node max_events order st out =
    (st, if length out + length (filter (epoll_ready node st) order) \<le> max_events
         then Ok (out @ map snd (filter (epoll_ready node st) order)) else Panic)"
  using assms(3)
proof (induction order arbitrary: out)
  case (Cons x order)
  obtain fd ev where x: "x = (fd, ev)" by (cases x)
  show ?case
  proof (cases "epoll_ready node st x")
    case True
    obtain q where q: "get_fd st fd = Ok q" using fd_wf_get [OF w, of fd] by (simp split: if_splits)
    then obtain h0 where "q = Some h0" using True by (cases q) (simp_all add: x epoll_ready_def)
    with q obtain h where g: "get_fd st fd = Ok (Some h)" by blast
    with True have "case snd (i_poll (node (inner (ofiles st ! h))) (fs st) (to_poll (ee_events ev))) of Ok r \<Rightarrow> r \<noteq> POLLNONE | _ \<Rightarrow> False"
      by (simp add: x epoll_ready_def)
    with g obtain r where h: "get_fd st fd = Ok (Some h)" "snd (i_poll (node (inner (ofiles st ! h))) (fs st) (to_poll (ee_events ev))) = Ok r"
      "r \<noteq> POLLNONE"
      by (cases "snd (i_poll (node (inner (ofiles st ! h))) (fs st) (to_poll (ee_events ev)))") simp_all
    show ?thesis
    proof (cases "length out < max_events")
      case l: True
      then show ?thesis using Cons.IH [of "out @ [ev]"] True h by (simp add: x file_poll_answers [OF a])
    qed (use True h Cons.prems in \<open>simp add: x file_poll_answers [OF a]\<close>)
  next
    case False
    have "epoll_scan node max_events (x # order) st out = epoll_scan node max_events order st out"
      using False a fd_wf_get [OF w, of fd]
      by (auto simp: x epoll_ready_def file_poll_answers [OF a] answers_def split: res.splits option.splits if_splits)
    then show ?thesis using Cons False by simp
  qed
qed simp


section \<open>A pipe that is read\<close>

text \<open>Two descriptors for the reading end of a pipe with the contents \<open>q\<close>.\<close>

definition pipe_proc :: "u8 list \<Rightarrow> (unit, Pipe) Proc" where
  "pipe_proc q = \<lparr>fs = \<lparr>queue = q, senders = 1\<rparr>, mounts = [], ofiles = [new_dev ()], fd_table = [Some 0, Some 0],
     rlimits = (replicate 8 0)[7 := 2], curr_dir = 0, umask = 0\<rparr>"

abbreviation pipe_node :: "(unit, Pipe) dispatch" where
  "pipe_node \<equiv> \<lambda>_. pipe_receiver_inode"

lemma pipe_node_answers: "answers pipe_node"
  by (simp add: answers_def pipe_receiver_inode_def inode_default_def)

lemma pipe_proc_wf: "fd_wf (pipe_proc q)"
  by (auto simp: fd_wf_def pipe_proc_def less_Suc_eq numeral_2_eq_2)

lemma pipe_proc_get: "get_fd (pipe_proc q) 0 = Ok (Some 0)" "get_fd (pipe_proc q) 1 = Ok (Some 0)"
  by (simp_all add: get_fd_def pipe_proc_def index_res_def)

lemma pipe_proc_poll:
  "snd (i_poll pipe_receiver_inode (fs (pipe_proc q)) POLLIN) = Ok (if q = [] then POLLNONE else POLLIN)"
  by (simp add: pipe_proc_def pipe_receiver_inode_def inode_default_def pipe_receiver_poll_def poll_defs contains_def)

lemma pipe_proc_select: "select_ready pipe_node POLLIN (pipe_proc q) 0 = (q \<noteq> [])"
proof -
  have "fd_table (pipe_proc q) ! 0 = Some 0" by (simp add: pipe_proc_def)
  then show ?thesis by (simp add: select_ready_def pipe_proc_poll) (simp add: poll_defs contains_def)
qed


theorem ppoll_then_read_does_not_block_witness:
  "\<exists>v. snd (sys_read pipe_node (pipe_proc [7]) 0 4) = Ready v"
proof -
  let ?y = "\<lparr>pf_fd = 0, pf_events = POLLIN, pf_revents = POLLIN\<rparr>"
  have "poll_one pipe_node (pipe_proc [7]) \<lparr>pf_fd = 0, pf_events = POLLIN, pf_revents = 0\<rparr> = (pipe_proc [7], Ok ?y)"
    by (simp add: poll_one_def pipe_proc_get file_poll_answers [OF pipe_node_answers] pipe_proc_poll)
  then have "sys_ppoll_round pipe_node 100 5 (pipe_proc [7]) [\<lparr>pf_fd = 0, pf_events = POLLIN, pf_revents = 0\<rparr>] = (pipe_proc [7], Ok ([?y], Ready 1))"
    by (simp add: sys_ppoll_round_def andthen_def ready_count_def poll_defs)
  from ppoll_then_read_does_not_block [OF pipe_node_answers this] have
    "\<forall>y h n. y \<in> set [?y] \<and> pf_events y = POLLIN \<and> pf_revents y \<noteq> POLLNONE \<and> get_fd (pipe_proc [7]) (pf_fd y) = Ok (Some h) \<and>
       pipe_receiver_inode = pipe_receiver_inode \<and> 0 < n \<longrightarrow> (\<exists>v. snd (sys_read pipe_node (pipe_proc [7]) (pf_fd y) n) = Ready v)"
    by blast
  from this [rule_format, of ?y 0 4] show ?thesis by (simp add: pipe_proc_get poll_defs)
qed

theorem ppoll_regular_file_panics_witness:
  "snd (sys_ppoll_round (ram_inode (\<lambda>_. 0)) 100 5 demo_proc [\<lparr>pf_fd = 2, pf_events = POLLIN, pf_revents = 0\<rparr>]) = Panic"
  by (rule ppoll_regular_file_panics [of demo_proc 2 1 1]) (simp_all add: get_fd_def index_res_def demo_proc_def demo_file_def)


end
