(* ===== verification/Devfs.thy ===== *)
theory Devfs
  imports Polling "HOL-Library.List_Lexorder" "HOL-Library.Char_ord"
begin

text \<open>
  The device file system \<^verbatim>\<open>filesystem/devfs\<close>: its directory, the terminal, and the small devices.
  The serial line below the terminal is a stream of bytes that have arrived and a stream of
  bytes that were sent.
\<close>

section \<open>The serial line\<close>

text \<open>
  User memory, where an \<^verbatim>\<open>ioctl\<close> reads or writes through its argument, is seen at the three
  types it is accessed at; address zero is the null pointer.
\<close>

record Termios =
  iflag :: "32 word"
  oflag :: "32 word"
  cflag :: "32 word"
  lflag :: "32 word"
  line :: u8
  cc :: "u8 list"
  ispeed :: "32 word"
  ospeed :: "32 word"

definition termios_default :: Termios where
  "termios_default =
     \<lparr>iflag = 27906, oflag = 5, cflag = 1215, lflag = 35387, line = 0,
      cc = [3, 28, 127, 21, 4, 0, 1, 0, 17, 19, 26, 255, 18, 15, 23, 22, 255, 0, 0, 0, 0], ispeed = 0, ospeed = 0\<rparr>"

record WinSize =
  ws_row :: "16 word"
  ws_col :: "16 word"
  xpixel :: "16 word"
  ypixel :: "16 word"

definition winsize_default :: WinSize where
  "winsize_default = \<lparr>ws_row = 24, ws_col = 140, xpixel = 0, ypixel = 0\<rparr>"

record Line =
  uart_in :: "u8 list"
  uart_out :: "u8 list"
  user_termios :: "usize \<Rightarrow> Termios"
  user_u32 :: "usize \<Rightarrow> 32 word"
  user_winsize :: "usize \<Rightarrow> WinSize"

definition get_char :: "Line \<Rightarrow> Line \<times> u8 option" where
  "get_char l = (case uart_in l of [] \<Rightarrow> (l, None) | c # cs \<Rightarrow> (l\<lparr>uart_in := cs\<rparr>, Some c))"

definition puts :: "Line \<Rightarrow> u8 list \<Rightarrow> Line" where
  "puts l buffer = l\<lparr>uart_out := uart_out l @ buffer\<rparr>"

section \<open>The terminal\<close>

record Tty =
  tty_buffer :: "u8 list"
  termios :: Termios
  pgid :: "32 word"
  winsize :: WinSize

definition tty_new :: Tty where
  "tty_new = \<lparr>tty_buffer = [], termios = termios_default, pgid = 0, winsize = winsize_default\<rparr>"

type_synonym tty_state = "Tty \<times> Line"

definition tty_readat :: "tty_state \<Rightarrow> nat \<Rightarrow> tty_state \<times> u8 list res" where
  "tty_readat s n =
     (case s of (t, l) \<Rightarrow>
        if n = 0 then (s, Panic)
        else if length (tty_buffer t) > 0 then
          (let rlen = min n (length (tty_buffer t))
           in ((t\<lparr>tty_buffer := drop rlen (tty_buffer t)\<rparr>, l), Ok (take rlen (tty_buffer t))))
        else (case get_char l of
                (l', Some c) \<Rightarrow> ((t, l'), Ok [c])
              | (l', None) \<Rightarrow> ((t, l'), Err EWOULDBLOCK)))"

definition tty_writeat :: "tty_state \<Rightarrow> u8 list \<Rightarrow> tty_state \<times> nat res" where
  "tty_writeat s buffer = (case s of (t, l) \<Rightarrow> ((t, puts l buffer), Ok (length buffer)))"

definition tty_poll :: "tty_state \<Rightarrow> PollEvent \<Rightarrow> tty_state \<times> PollEvent res" where
  "tty_poll s events =
     (case s of (t, l) \<Rightarrow>
        let (s1, res1) =
              (if contains events POLLIN then
                 if length (tty_buffer t) > 0 then ((t, l), POLLNONE OR POLLIN)
                 else (case get_char l of
                         (l', Some c) \<Rightarrow> ((t\<lparr>tty_buffer := tty_buffer t @ [c]\<rparr>, l'), POLLNONE OR POLLIN)
                       | (l', None) \<Rightarrow> ((t, l'), POLLNONE))
               else ((t, l), POLLNONE))
        in (s1, Ok (if contains events POLLOUT then res1 OR POLLOUT else res1)))"

datatype TeletypeCommand = TCGETS | TCSETS | TCSETSW | TCSETSF | TCGETA | TCSETA | TCSETAW | TCSETAF | TIOCGPGRP | TIOCSPGRP
  | TIOCGWINSZ | TIOCSWINSZ | TIOCSCTTY | TIOCNOTTY | TIOCGSID | FIONCLEX | FIOCLEX | FIONBIO | RTC_RD_TIME

definition teletype_command :: "usize \<Rightarrow> TeletypeCommand option" where
  "teletype_command n = map_of
     [(0x5401, TCGETS), (0x5402, TCSETS), (0x5403, TCSETSW), (0x5404, TCSETSF), (0x5405, TCGETA), (0x5406, TCSETA),
      (0x5407, TCSETAW), (0x5408, TCSETAF), (0x540F, TIOCGPGRP), (0x5410, TIOCSPGRP), (0x5413, TIOCGWINSZ), (0x5414, TIOCSWINSZ),
      (0x540E, TIOCSCTTY), (0x5422, TIOCNOTTY), (0x5429, TIOCGSID), (0x5450, FIONCLEX), (0x5451, FIOCLEX), (0x5421, FIONBIO),
      (0x80247009, RTC_RD_TIME)] n"

definition tty_ioctl :: "tty_state \<Rightarrow> usize \<Rightarrow> usize \<Rightarrow> tty_state \<times> usize res" where
  "tty_ioctl s command arg =
     (case s of (t, l) \<Rightarrow>
        case teletype_command command of
          None \<Rightarrow> (s, Err EINVAL)
        | Some c \<Rightarrow>
            if c \<in> {TCGETS, TCGETA} then
              if arg = 0 then (s, Panic) else ((t, l\<lparr>user_termios := (user_termios l)(arg := termios t)\<rparr>), Ok 0)
            else if c \<in> {TCSETS, TCSETSW, TCSETSF} then
              if arg = 0 then (s, Panic) else ((t\<lparr>termios := user_termios l arg\<rparr>, l), Ok 0)
            else if c = TIOCGPGRP then
              if arg = 0 then (s, Err EINVAL) else ((t, l\<lparr>user_u32 := (user_u32 l)(arg := pgid t)\<rparr>), Ok 0)
            else if c = TIOCSPGRP then
              if arg = 0 then (s, Err EINVAL) else ((t\<lparr>pgid := user_u32 l arg\<rparr>, l), Ok 0)
            else if c = TIOCGWINSZ then
              if arg = 0 then (s, Panic) else ((t, l\<lparr>user_winsize := (user_winsize l)(arg := winsize t)\<rparr>), Ok 0)
            else if c = TIOCSWINSZ then
              if arg = 0 then (s, Panic) else ((t\<lparr>winsize := user_winsize l arg\<rparr>, l), Ok 0)
            else if c \<in> {TIOCSCTTY, TIOCNOTTY, FIONCLEX, FIOCLEX} then (s, Ok 0)
            else if c = TIOCGSID then
              if arg = 0 then (s, Err EINVAL) else ((t, l\<lparr>user_u32 := (user_u32 l)(arg := 1)\<rparr>), Ok 0)
            else (s, Err EPERM))"

text \<open>The attributes of a device, which the implementations spell out one by one.\<close>

definition dev_stat :: "u64 \<Rightarrow> StatMode \<Rightarrow> nat \<Rightarrow> Stat \<Rightarrow> Stat" where
  "dev_stat dev mode owner st =
     st\<lparr>st_dev := dev, st_ino := 1, st_mode := mode, st_nlink := 1, st_uid := owner, st_gid := owner, st_size := 0,
        st_blksize := 512, st_blocks := 0, st_rdev := dev\<rparr>"

definition S_RW_ALL :: StatMode where
  "S_RW_ALL = 0x1B6"

definition tty_stat :: "Stat \<Rightarrow> Stat" where
  "tty_stat st = dev_stat 0x0500 (S_CHAR OR S_RW_ALL) 0 st"

definition tty_inode :: "('i, tty_state) inode" where
  "tty_inode = inode_default
     \<lparr>i_readat := \<lambda>s _ n. tty_readat s n,
      i_writeat := \<lambda>s _ d. tty_writeat s d,
      i_poll := tty_poll,
      i_ioctl := tty_ioctl,
      i_stat := \<lambda>s st. Ok (tty_stat st)\<rparr>"

section \<open>The other devices\<close>

definition null_inode :: "('i, 's) inode" where
  "null_inode = inode_default
     \<lparr>i_readat := \<lambda>s _ n. (s, Ok []),
      i_writeat := \<lambda>s _ d. (s, Ok (length d)),
      i_stat := \<lambda>s st. Ok (dev_stat 0x0103 (S_CHAR OR S_RW_ALL) 0 st)\<rparr>"

definition zero_inode :: "('i, 's) inode" where
  "zero_inode = inode_default
     \<lparr>i_readat := \<lambda>s _ n. (s, Ok (replicate n 0)),
      i_writeat := \<lambda>s _ d. (s, Ok (length d)),
      i_stat := \<lambda>s st. Ok (dev_stat 0 S_CHAR 1000 st)\<rparr>"

definition urandom_inode :: "('i, 's) inode" where
  "urandom_inode = inode_default
     \<lparr>i_readat := \<lambda>s _ n. (s, Ok (replicate n 0)),
      i_writeat := \<lambda>s _ d. (s, Ok (length d)),
      i_stat := \<lambda>s st. Ok (dev_stat 0 S_CHAR 1000 st),
      i_poll := \<lambda>s events. (s, Ok (if contains events POLLIN then POLLNONE OR POLLIN else POLLNONE))\<rparr>"

definition shm_inode :: "('i, 's) inode" where
  "shm_inode = inode_default\<lparr>i_stat := \<lambda>s st. Ok (dev_stat 0 S_DIR 1000 st)\<rparr>"

definition cpu_dma_latency_inode :: "('i, 's) inode" where
  "cpu_dma_latency_inode = inode_default
     \<lparr>i_readat := \<lambda>s _ n. (s, Ok (if n > 1 then 1 # replicate (n - 1) 0 else replicate n 0)),
      i_writeat := \<lambda>s _ d. (s, Ok (length d)),
      i_stat := \<lambda>s st. Ok (dev_stat 0 S_CHAR 1000 st)\<rparr>"

text \<open>The clock: the fields it writes through the argument of \<^verbatim>\<open>ioctl\<close>, seconds to years.\<close>

record RtcTime =
  rtc_sec :: nat
  rtc_min :: nat
  rtc_hour :: nat
  rtc_mday :: nat
  rtc_mon :: nat
  rtc_year :: nat

definition rtc_ioctl :: "usize \<Rightarrow> (usize \<Rightarrow> RtcTime) \<Rightarrow> (usize \<Rightarrow> RtcTime) \<times> usize res" where
  "rtc_ioctl arg m =
     (if arg = 0 then (m, Panic)
      else (m(arg := \<lparr>rtc_sec = 0, rtc_min = 0, rtc_hour = 0, rtc_mday = 0, rtc_mon = 0, rtc_year = 0\<rparr>), Ok 0))"

text \<open>A block device, which calls the mount functions it was made with.\<close>

record Sdx =
  device_id :: nat
  mount_paths :: "string list"

definition sdx_mount :: "(nat \<Rightarrow> string \<Rightarrow> unit res) \<Rightarrow> Sdx \<Rightarrow> string \<Rightarrow> Sdx \<times> unit res" where
  "sdx_mount mount_fn x path = (x\<lparr>mount_paths := mount_paths x @ [path]\<rparr>, mount_fn (device_id x) path)"

definition sdx_umount :: "(nat \<Rightarrow> string \<Rightarrow> unit res) \<Rightarrow> Sdx \<Rightarrow> Sdx \<times> unit res" where
  "sdx_umount umount_fn x =
     (if mount_paths x = [] then (x, Panic)
      else (x\<lparr>mount_paths := butlast (mount_paths x)\<rparr>, umount_fn (device_id x) (last (mount_paths x))))"

section \<open>The directory\<close>

datatype DevNode = DevRoot | TtyNode string | NullNode | ZeroNode | ShmNode | RtcNode | UrandomNode | CpuDmaNode | SdxNode nat

fun name_insert :: "string \<Rightarrow> 'v \<Rightarrow> (string \<times> 'v) list \<Rightarrow> (string \<times> 'v) list" where
  "name_insert k v [] = [(k, v)]"
| "name_insert k v ((k', v') # m) =
     (if k < k' then (k, v) # (k', v') # m
      else if k = k' then (k, v) # m
      else (k', v') # name_insert k v m)"

type_synonym DevDir = "(string \<times> DevNode) list"

definition dev_dir_new :: DevDir where
  "dev_dir_new = fold (\<lambda>(k, v). name_insert k v)
     [(''stdout'', TtyNode ''stdout''), (''stderr'', TtyNode ''stderr''), (''stdin'', TtyNode ''stdin''), (''ttyv0'', TtyNode ''ttyv0''),
      (''tty'', TtyNode ''tty''), (''console'', TtyNode ''console''), (''null'', NullNode), (''zero'', ZeroNode), (''shm'', ShmNode),
      (''rtc'', RtcNode), (''urandom'', UrandomNode), (''random'', UrandomNode), (''cpu_dma_latency'', CpuDmaNode)] []"

definition dev_dir_add :: "DevDir \<Rightarrow> string \<Rightarrow> DevNode \<Rightarrow> DevDir" where
  "dev_dir_add m path node = name_insert path node m"

definition dev_dir_lookup :: "DevDir \<Rightarrow> string \<Rightarrow> DevNode res" where
  "dev_dir_lookup m name = (case map_of m name of Some x \<Rightarrow> Ok x | None \<Rightarrow> Err ENOENT)"

definition dev_dir_read_dir :: "DevDir \<Rightarrow> DirEntry list" where
  "dev_dir_read_dir m = map (\<lambda>(name, _). \<lparr>de_filename = name, de_len = 0, de_type = Device\<rparr>) m"

text \<open>Every terminal of the directory has a buffer of its own; they share the serial line.\<close>

record DevState =
  dev_dir :: DevDir
  ttys :: "string \<Rightarrow> Tty"
  dev_line :: Line
  rtc_mem :: "usize \<Rightarrow> RtcTime"

definition on_tty :: "string \<Rightarrow> (tty_state \<Rightarrow> tty_state \<times> 'a) \<Rightarrow> DevState \<Rightarrow> DevState \<times> 'a" where
  "on_tty k f s = (case f (ttys s k, dev_line s) of ((t, l), r) \<Rightarrow> (s\<lparr>ttys := (ttys s)(k := t), dev_line := l\<rparr>, r))"

fun dev_inode :: "DevNode \<Rightarrow> (DevNode, DevState) inode" where
  "dev_inode DevRoot = inode_default
     \<lparr>i_lookup := \<lambda>s name. dev_dir_lookup (dev_dir s) name,
      i_read_dir := \<lambda>s. Ok (dev_dir_read_dir (dev_dir s)),
      i_stat := \<lambda>s st. Ok (dev_stat 0 S_DIR 0 st)\<rparr>"
| "dev_inode (TtyNode k) = inode_default
     \<lparr>i_readat := \<lambda>s off n. on_tty k (\<lambda>t. tty_readat t n) s,
      i_writeat := \<lambda>s off d. on_tty k (\<lambda>t. tty_writeat t d) s,
      i_poll := \<lambda>s e. on_tty k (\<lambda>t. tty_poll t e) s,
      i_ioctl := \<lambda>s c a. on_tty k (\<lambda>t. tty_ioctl t c a) s,
      i_stat := \<lambda>s st. Ok (tty_stat st)\<rparr>"
| "dev_inode NullNode = null_inode"
| "dev_inode ZeroNode = zero_inode"
| "dev_inode ShmNode = shm_inode"
| "dev_inode RtcNode = inode_default
     \<lparr>i_stat := \<lambda>s st. Ok (dev_stat 0 S_CHAR 1000 st),
      i_ioctl := \<lambda>s _ a. (case rtc_ioctl a (rtc_mem s) of (m, r) \<Rightarrow> (s\<lparr>rtc_mem := m\<rparr>, r))\<rparr>"
| "dev_inode UrandomNode = urandom_inode"
| "dev_inode CpuDmaNode = cpu_dma_latency_inode"
| "dev_inode (SdxNode d) = inode_default\<lparr>i_stat := \<lambda>s st. Ok (dev_stat 0 S_CHAR 1000 st)\<rparr>"

section \<open>The directory is a map\<close>

lemma name_insert_map: "map_of (name_insert k v m) = (map_of m)(k \<mapsto> v)" if "sorted_wrt (<) (map fst m)"
  using that by (induction k v m rule: name_insert.induct) (auto simp: fun_eq_iff)

lemma name_insert_set: "set (map fst (name_insert k v m)) = insert k (set (map fst m))"
  by (induction k v m rule: name_insert.induct) auto

lemma name_insert_sorted: "sorted_wrt (<) (map fst m) \<Longrightarrow> sorted_wrt (<) (map fst (name_insert k v m))"
proof (induction k v m rule: name_insert.induct)
  case (2 k v k' v' m)
  then show ?case using name_insert_set [of k v m] by (auto simp: not_less_iff_gr_or_eq)
qed simp

section \<open>The terminal loses nothing\<close>

datatype TtyOp = Arrive "u8 list" | TtyPoll PollEvent | TtyRead nat | TtyWrite "u8 list"

fun tty_step :: "TtyOp \<Rightarrow> tty_state \<Rightarrow> tty_state \<times> u8 list" where
  "tty_step (Arrive bs) (t, l) = ((t, l\<lparr>uart_in := uart_in l @ bs\<rparr>), [])"
| "tty_step (TtyPoll e) s = (fst (tty_poll s e), [])"
| "tty_step (TtyRead n) s = (case tty_readat s n of (s', r) \<Rightarrow> (s', case r of Ok bs \<Rightarrow> bs | _ \<Rightarrow> []))"
| "tty_step (TtyWrite d) s = (fst (tty_writeat s d), [])"

fun tty_run :: "TtyOp list \<Rightarrow> tty_state \<Rightarrow> tty_state \<times> u8 list" where
  "tty_run [] s = (s, [])"
| "tty_run (x # xs) s = (case tty_step x s of (s1, d) \<Rightarrow> case tty_run xs s1 of (s2, ds) \<Rightarrow> (s2, d @ ds))"

definition arrived :: "TtyOp list \<Rightarrow> u8 list" where
  "arrived xs = concat (map (\<lambda>x. case x of Arrive bs \<Rightarrow> bs | _ \<Rightarrow> []) xs)"

definition written :: "TtyOp list \<Rightarrow> u8 list" where
  "written xs = concat (map (\<lambda>x. case x of TtyWrite bs \<Rightarrow> bs | _ \<Rightarrow> []) xs)"

definition pending :: "tty_state \<Rightarrow> u8 list" where
  "pending s = tty_buffer (fst s) @ uart_in (snd s)"

lemma tty_step_pending:
  "tty_step x s = (s', d) \<Longrightarrow> pending s @ arrived [x] = d @ pending s' \<and> uart_out (snd s') = uart_out (snd s) @ written [x]"
  by (cases x; cases s)
    (auto simp: pending_def arrived_def written_def tty_poll_def tty_readat_def tty_writeat_def puts_def get_char_def Let_def
      split: list.splits if_splits)

text \<open>
  C23: the terminal loses, repeats and reorders nothing.  Whatever the sequence of polls,
  reads of any size, writes and arrivals on the serial line is, the bytes the reads returned
  followed by those still in the buffer of the terminal and on the line are the
  bytes that were there or arrived, in their order; and what was written has been sent in order.
\<close>

theorem terminal_keeps_the_input_in_order:
  "case tty_run xs s of (s', d) \<Rightarrow> pending s @ arrived xs = d @ pending s' \<and> uart_out (snd s') = uart_out (snd s) @ written xs"
proof (induction xs arbitrary: s)
  case Nil
  show ?case by (simp add: arrived_def written_def)
next
  case (Cons x xs)
  obtain s1 d where s1: "tty_step x s = (s1, d)" by (cases "tty_step x s")
  obtain s2 ds where s2: "tty_run xs s1 = (s2, ds)" by (cases "tty_run xs s1")
  have a: "arrived (x # xs) = arrived [x] @ arrived xs" "written (x # xs) = written [x] @ written xs"
    by (simp_all add: arrived_def written_def)
  from Cons.IH [of s1] s2 have i: "pending s1 @ arrived xs = ds @ pending s2" "uart_out (snd s2) = uart_out (snd s1) @ written xs" by auto
  note st = tty_step_pending [OF s1]
  have "pending s @ arrived (x # xs) = d @ pending s1 @ arrived xs" using st by (simp add: a)
  then show ?case using st i by (simp add: s1 s2 a)
qed

interpretation tty_reader: readable_inode tty_inode
  by unfold_locales
    (auto simp: tty_inode_def inode_default_def tty_poll_def tty_readat_def get_char_def Let_def poll_defs contains_def
      split: if_splits list.splits prod.splits)

text \<open>
  A read of no bytes from a terminal stops the kernel.  \<^verbatim>\<open>read\<close> passes the empty buffer on
  to the terminal, which asserts that it is not empty; the same call on a pipe returns 0.
\<close>

theorem empty_terminal_read_panics:
  assumes "get_fd st fd = Ok (Some h)" "inner (ofiles st ! h) = TtyNode k"
  shows "snd (sys_read dev_inode st fd 0) = Ready Panic"
  using assms
  by (auto simp: sys_read_def async_read_def wait_blocking_read_def wait_poll_def finish_def on_tty_def tty_readat_def inode_default_def
      split: prod.splits)

theorem empty_terminal_read_panics_witness:
  "snd (sys_read dev_inode
     \<lparr>fs = \<lparr>dev_dir = dev_dir_new, ttys = (\<lambda>_. tty_new),
        dev_line = \<lparr>uart_in = [65], uart_out = [], user_termios = (\<lambda>_. termios_default), user_u32 = (\<lambda>_. 0), user_winsize = (\<lambda>_. winsize_default)\<rparr>,
        rtc_mem = (\<lambda>_. \<lparr>rtc_sec = 0, rtc_min = 0, rtc_hour = 0, rtc_mday = 0, rtc_mon = 0, rtc_year = 0\<rparr>)\<rparr>,
      mounts = [], ofiles = [new_dev (TtyNode ''stdin'')], fd_table = [Some 0], rlimits = (replicate 8 0)[7 := 1], curr_dir = 0, umask = 0\<rparr> 0 0) = Ready Panic"
  by (rule empty_terminal_read_panics [of _ 0 0 "''stdin''"]) (simp_all add: get_fd_def index_res_def new_dev_def)

section \<open>Devices can be added\<close>

definition dev_dir_wf :: "DevDir \<Rightarrow> bool" where
  "dev_dir_wf m \<longleftrightarrow> sorted_wrt (<) (map fst m)"

lemma dev_dir_new_wf: "dev_dir_wf dev_dir_new"
  unfolding dev_dir_wf_def dev_dir_new_def by (simp add: name_insert_sorted)

lemma dev_dir_add_spec:
  assumes "dev_dir_wf m"
  shows "dev_dir_wf (dev_dir_add m k v)" "dev_dir_lookup (dev_dir_add m k v) k = Ok v"
    "k' \<noteq> k \<Longrightarrow> dev_dir_lookup (dev_dir_add m k v) k' = dev_dir_lookup m k'"
    "set (map de_filename (dev_dir_read_dir (dev_dir_add m k v))) = insert k (set (map de_filename (dev_dir_read_dir m)))"
proof -
  have f: "map de_filename (dev_dir_read_dir n) = map fst n" for n by (auto simp: dev_dir_read_dir_def)
  show "dev_dir_wf (dev_dir_add m k v)" using assms name_insert_sorted by (simp add: dev_dir_wf_def dev_dir_add_def)
  show "dev_dir_lookup (dev_dir_add m k v) k = Ok v" "k' \<noteq> k \<Longrightarrow> dev_dir_lookup (dev_dir_add m k v) k' = dev_dir_lookup m k'"
    using name_insert_map [of m k v] assms by (simp_all add: dev_dir_lookup_def dev_dir_add_def dev_dir_wf_def)
  show "set (map de_filename (dev_dir_read_dir (dev_dir_add m k v))) = insert k (set (map de_filename (dev_dir_read_dir m)))"
    unfolding f using name_insert_set by (simp add: dev_dir_add_def)
qed

end
