(* ===== verification/Procfs.thy ===== *)
theory Procfs
  imports Devfs
begin

text \<open>
  The process file system \<^verbatim>\<open>filesystem/procfs\<close>: a directory of files whose contents the kernel
  makes up.
\<close>

section \<open>Contents\<close>

definition TAB :: string where
  "TAB = [CHR 0x09]"

definition text_lines :: "string list \<Rightarrow> u8 list" where
  "text_lines ls = concat (map (\<lambda>l. map of_char l @ [0x0A]) ls)"

definition cpuinfo_content :: "u8 list" where
  "cpuinfo_content = text_lines
     [''processor'' @ TAB @ '': 0'',
      ''vendor_id'' @ TAB @ '': MonkeyOS'',
      ''cpu family'' @ TAB @ '': 0'',
      ''model'' @ TAB @ TAB @ '': 0'',
      ''model name'' @ TAB @ '': MonkeyOS Virtual CPU'',
      ''stepping'' @ TAB @ '': 0'',
      ''microcode'' @ TAB @ '': 0x1'',
      ''cpu MHz'' @ TAB @ TAB @ '': 1000.000'',
      ''cache size'' @ TAB @ '': 256 KB'',
      ''physical id'' @ TAB @ '': 0'',
      ''siblings'' @ TAB @ '': 1'',
      ''core id'' @ TAB @ TAB @ '': 0'',
      ''cpu cores'' @ TAB @ '': 1'',
      ''apicid'' @ TAB @ TAB @ '': 0'',
      ''initial apicid'' @ TAB @ '': 0'',
      ''fpu'' @ TAB @ TAB @ '': yes'',
      ''fpu_exception'' @ TAB @ '': yes'',
      ''cpuid level'' @ TAB @ '': 1'',
      ''wp'' @ TAB @ TAB @ '': yes'',
      ''flags'' @ TAB @ TAB @ '': fpu de pse tsc msr pae mce cx8 apic sep mtrr pge mca cmov pat pse36 clflush mmx fxsr sse sse2'',
      ''bogomips'' @ TAB @ '': 2000.00'',
      ''clflush size'' @ TAB @ '': 64'',
      ''cache_alignment'' @ TAB @ '': 64'',
      ''address sizes'' @ TAB @ '': 32 bits physical, 32 bits virtual'',
      ''power management:'',
      []]"

definition stat_content :: "u8 list" where
  "stat_content = text_lines
     [''cpu  0 0 0 0 0 0 0 0 0 0'',
      ''cpu0 0 0 0 0 0 0 0 0 0 0'',
      ''intr 0'',
      ''ctxt 0'',
      ''btime 1640995200'',
      ''processes 1'',
      ''procs_running 1'',
      ''procs_blocked 0'',
      ''softirq 0 0 0 0 0 0 0 0 0 0 0'']"

definition version_content :: "u8 list" where
  "version_content = text_lines [''Linux version 5.10.0-7-riscv64 (MonkeyOS) (gcc version 9.4.0) #1 SMP PREEMPT Mon Jan 1 00:00:00 UTC 2024'']"

definition meminfo_content :: "u8 list" where
  "meminfo_content = text_lines
     [''MemTotal:        8388608 kB'',
      ''MemFree:         4194304 kB'',
      ''MemAvailable:    6291456 kB'',
      ''Buffers:           65536 kB'',
      ''Cached:          1048576 kB'',
      ''SwapCached:            0 kB'',
      ''Active:          2097152 kB'',
      ''Inactive:         524288 kB'',
      ''Active(anon):    1572864 kB'',
      ''Inactive(anon):   262144 kB'',
      ''Active(file):     524288 kB'',
      ''Inactive(file):   262144 kB'',
      ''Unevictable:           0 kB'',
      ''Mlocked:               0 kB'',
      ''SwapTotal:             0 kB'',
      ''SwapFree:              0 kB'',
      ''Dirty:                 0 kB'',
      ''Writeback:             0 kB'',
      ''AnonPages:       1572864 kB'',
      ''Mapped:           262144 kB'',
      ''Shmem:             65536 kB'',
      ''KReclaimable:     131072 kB'',
      ''Slab:             262144 kB'',
      ''SReclaimable:     131072 kB'',
      ''SUnreclaim:       131072 kB'',
      ''KernelStack:       16384 kB'',
      ''PageTables:        32768 kB'',
      ''NFS_Unstable:          0 kB'',
      ''Bounce:                0 kB'',
      ''WritebackTmp:          0 kB'',
      ''CommitLimit:     4194304 kB'',
      ''Committed_AS:    2097152 kB'',
      ''VmallocTotal:   34359738367 kB'',
      ''VmallocUsed:      131072 kB'',
      ''VmallocChunk:          0 kB'',
      ''Percpu:            65536 kB'',
      ''HardwareCorrupted:     0 kB'',
      ''AnonHugePages:         0 kB'',
      ''ShmemHugePages:        0 kB'',
      ''ShmemPmdMapped:        0 kB'',
      ''FileHugePages:         0 kB'',
      ''FilePmdMapped:         0 kB'',
      ''HugePages_Total:       0'',
      ''HugePages_Free:        0'',
      ''HugePages_Rsvd:        0'',
      ''HugePages_Surp:        0'',
      ''Hugepagesize:       2048 kB'',
      ''Hugetlb:               0 kB'',
      ''DirectMap4k:     2097152 kB'',
      ''DirectMap2M:     6291456 kB'',
      ''DirectMap1G:           0 kB'']"

section \<open>The files\<close>

text \<open>The files that copy from their contents at the offset.\<close>

definition text_readat :: "u8 list \<Rightarrow> usize \<Rightarrow> nat \<Rightarrow> u8 list res" where
  "text_readat bytes off n =
     (if off \<ge> length bytes then Ok []
      else let copy_len = min (length bytes - off) n in Ok (take copy_len (drop off bytes)))"

definition cpuinfo_readat :: "usize \<Rightarrow> nat \<Rightarrow> u8 list res" where
  "cpuinfo_readat off n = text_readat cpuinfo_content off n"

definition stat_readat :: "usize \<Rightarrow> nat \<Rightarrow> u8 list res" where
  "stat_readat off n = text_readat stat_content off n"

definition version_readat :: "usize \<Rightarrow> nat \<Rightarrow> u8 list res" where
  "version_readat off n = text_readat version_content off n"

definition meminfo_readat :: "usize \<Rightarrow> nat \<Rightarrow> u8 list res" where
  "meminfo_readat off n =
     (if off \<ge> length meminfo_content then Ok []
      else let end0 = min (off + n) (length meminfo_content) in Ok (take (end0 - off) (drop off meminfo_content)))"

text \<open>The list of interrupts is empty, and the offset is subtracted from its length.\<close>

definition interrupts_readat :: "usize \<Rightarrow> nat \<Rightarrow> u8 list res" where
  "interrupts_readat off n = (if off > 0 then Panic else Ok [])"

definition mounts_readat :: "usize \<Rightarrow> nat \<Rightarrow> u8 list res" where
  "mounts_readat off n = Ok []"

definition text_stat :: "u8 list \<Rightarrow> Stat \<Rightarrow> Stat" where
  "text_stat bytes st = (dev_stat 0 S_CHAR 1000 st)\<lparr>st_size := length bytes, st_blocks := (length bytes + 511) div 512\<rparr>"

definition cpuinfo_stat :: "Stat \<Rightarrow> Stat" where
  "cpuinfo_stat st = text_stat cpuinfo_content st"

definition stat_stat :: "Stat \<Rightarrow> Stat" where
  "stat_stat st = text_stat stat_content st"

definition version_stat :: "Stat \<Rightarrow> Stat" where
  "version_stat st = text_stat version_content st"

definition meminfo_stat :: "Stat \<Rightarrow> Stat" where
  "meminfo_stat st = text_stat meminfo_content st"

definition interrupts_stat :: "Stat \<Rightarrow> Stat" where
  "interrupts_stat st = dev_stat 0 S_CHAR 1000 st"

definition mounts_stat :: "Stat \<Rightarrow> Stat" where
  "mounts_stat st = dev_stat 0 S_CHAR 1000 st"

lemmas proc_stat_defs = cpuinfo_stat_def stat_stat_def version_stat_def meminfo_stat_def interrupts_stat_def mounts_stat_def
  text_stat_def dev_stat_def

datatype ProcNode = ProcRoot | Mounts | MemInfo | Interrupts | Version | ProcStat | CpuInfo

definition proc_dir_new :: "(string \<times> ProcNode) list" where
  "proc_dir_new = fold (\<lambda>(k, v). name_insert k v)
     [(''mounts'', Mounts), (''meminfo'', MemInfo), (''interrupts'', Interrupts), (''version'', Version), (''stat'', ProcStat), (''cpuinfo'', CpuInfo)] []"

definition proc_dir_lookup :: "string \<Rightarrow> ProcNode res" where
  "proc_dir_lookup name = (case map_of proc_dir_new name of Some x \<Rightarrow> Ok x | None \<Rightarrow> Err ENOENT)"

definition proc_dir_read_dir :: "DirEntry list" where
  "proc_dir_read_dir = map (\<lambda>(name, _). \<lparr>de_filename = name, de_len = 0, de_type = Device\<rparr>) proc_dir_new"

fun proc_readat :: "ProcNode \<Rightarrow> usize \<Rightarrow> nat \<Rightarrow> u8 list res" where
  "proc_readat ProcRoot off n = Err ENOENT"
| "proc_readat Mounts off n = mounts_readat off n"
| "proc_readat MemInfo off n = meminfo_readat off n"
| "proc_readat Interrupts off n = interrupts_readat off n"
| "proc_readat Version off n = version_readat off n"
| "proc_readat ProcStat off n = stat_readat off n"
| "proc_readat CpuInfo off n = cpuinfo_readat off n"

fun proc_stat :: "ProcNode \<Rightarrow> Stat \<Rightarrow> Stat" where
  "proc_stat ProcRoot st = dev_stat 0 S_DIR 0 st"
| "proc_stat Mounts st = mounts_stat st"
| "proc_stat MemInfo st = meminfo_stat st"
| "proc_stat Interrupts st = interrupts_stat st"
| "proc_stat Version st = version_stat st"
| "proc_stat ProcStat st = stat_stat st"
| "proc_stat CpuInfo st = cpuinfo_stat st"

definition proc_inode :: "ProcNode \<Rightarrow> (ProcNode, 's) inode" where
  "proc_inode x = inode_default
     \<lparr>i_readat := \<lambda>s off n. (s, proc_readat x off n),
      i_lookup := \<lambda>s name. if x = ProcRoot then proc_dir_lookup name else Err ENOENT,
      i_read_dir := \<lambda>s. if x = ProcRoot then Ok proc_dir_read_dir else Err EPERM,
      i_stat := \<lambda>s st. Ok (proc_stat x st)\<rparr>"

section \<open>Reading a file to its end\<close>

fun proc_content :: "ProcNode \<Rightarrow> u8 list" where
  "proc_content MemInfo = meminfo_content"
| "proc_content Version = version_content"
| "proc_content ProcStat = stat_content"
| "proc_content CpuInfo = cpuinfo_content"
| "proc_content x = []"

lemma text_readat_take: "text_readat bytes off n = Ok (take n (drop off bytes))"
  by (simp add: text_readat_def Let_def min_def)

lemma meminfo_readat_text: "meminfo_readat off n = text_readat meminfo_content off n"
  by (auto simp: meminfo_readat_def text_readat_def Let_def min_def)

text \<open>Read \<open>n\<close> bytes at a time from the offset on until nothing comes; \<open>fuel\<close> bounds the number of reads.\<close>

fun read_to_end :: "(usize \<Rightarrow> nat \<Rightarrow> u8 list res) \<Rightarrow> nat \<Rightarrow> nat \<Rightarrow> usize \<Rightarrow> u8 list res option" where
  "read_to_end rd n 0 off = None"
| "read_to_end rd n (Suc fuel) off =
     (case rd off n of
        Ok bs \<Rightarrow> if bs = [] then Some (Ok []) else map_option (rmap ((@) bs)) (read_to_end rd n fuel (off + length bs))
      | Err e \<Rightarrow> Some (Err e)
      | Panic \<Rightarrow> Some Panic)"

lemma read_to_end_text:
  assumes "0 < n" "length bytes - off < fuel" "off \<le> length bytes"
  shows "read_to_end (text_readat bytes) n fuel off = Some (Ok (drop off bytes))"
  using assms(2,3)
proof (induction fuel arbitrary: off)
  case (Suc fuel)
  show ?case
  proof (cases "off = length bytes")
    case False
    let ?k = "min n (length bytes - off)"
    have k: "0 < ?k" "length (take n (drop off bytes)) = ?k" "off + ?k \<le> length bytes" using False Suc.prems assms(1) by auto
    have "length bytes - (off + ?k) < fuel" using k(1) Suc.prems by linarith
    from Suc.IH [OF this k(3)] have r: "read_to_end (text_readat bytes) n fuel (off + ?k) = Some (Ok (drop (off + ?k) bytes))" .
    have ne: "take n (drop off bytes) \<noteq> []" using k(1,2) by (metis length_greater_0_conv)
    have "take n (drop off bytes) @ drop (off + ?k) bytes = drop off bytes"
    proof -
      have "take n (drop off bytes) = take ?k (drop off bytes)" by (simp add: min_def)
      then show ?thesis using append_take_drop_id [of ?k "drop off bytes"] by (simp add: add.commute)
    qed
    then show ?thesis using ne k(2) r text_readat_take [of bytes off n] by (simp add: min.commute)
  qed (simp add: text_readat_take)
qed simp

text \<open>
  C29: a file of the process file system is read completely.  Reading it from the start in
  pieces of any size returns exactly its contents and then nothing, and the size the file
  reports is the number of bytes read; this holds for every file, the two empty ones included.
\<close>

theorem proc_file_is_read_completely:
  assumes "x \<noteq> ProcRoot" "0 < n" "length (proc_content x) < fuel"
  shows "read_to_end (\<lambda>off k. snd (i_readat (proc_inode x) s off k)) n fuel 0 = Some (Ok (proc_content x)) \<and>
    (\<exists>st'. i_stat (proc_inode x) s st = Ok st' \<and> st_size st' = length (proc_content x))"
proof -
  have rd: "(\<lambda>off k. snd (i_readat (proc_inode x) s off k)) = proc_readat x" by (simp add: proc_inode_def inode_default_def)
  have m: "proc_readat MemInfo = text_readat meminfo_content" by (simp add: fun_eq_iff meminfo_readat_text)
  have t: "proc_readat Version = text_readat version_content" "proc_readat ProcStat = text_readat stat_content"
    "proc_readat CpuInfo = text_readat cpuinfo_content"
    by (simp_all add: fun_eq_iff cpuinfo_readat_def stat_readat_def version_readat_def)
  have "read_to_end (proc_readat x) n fuel 0 = Some (Ok (proc_content x))"
  proof (cases "x = Mounts \<or> x = Interrupts")
    case True
    then show ?thesis using assms(3) by (cases fuel) (auto simp: mounts_readat_def interrupts_readat_def)
  next
    case False
    then have "proc_readat x = text_readat (proc_content x)" using assms(1) m t by (cases x) simp_all
    then show ?thesis using read_to_end_text [OF assms(2), of "proc_content x" 0 fuel] assms(3) by simp
  qed
  moreover have "st_size (proc_stat x st) = length (proc_content x)" using assms(1) by (cases x) (simp_all add: proc_stat_defs)
  ultimately show ?thesis unfolding rd by (simp add: proc_inode_def inode_default_def)
qed

theorem proc_file_is_read_completely_witness:
  "read_to_end (\<lambda>off k. snd (i_readat (proc_inode Version) () off k)) 16 (Suc (length (proc_content Version))) 0 = Some (Ok version_content)"
  using proc_file_is_read_completely [of Version 16 "Suc (length (proc_content Version))" "()" stat_default] by simp

end
