(* ===== verification/Fs_Calls.thy ===== *)
theory Fs_Calls
  imports Devfs
begin

text \<open>
  The calls on directories, mounts and attributes: \<^verbatim>\<open>chdir\<close>, \<^verbatim>\<open>getcwd\<close> of
  \<^verbatim>\<open>kernel/src/syscall/task.rs\<close>, \<^verbatim>\<open>mount\<close>, \<^verbatim>\<open>umount2\<close>, \<^verbatim>\<open>statfs\<close>, \<^verbatim>\<open>statx\<close> and the calls that
  change owners and modes or flush files of \<^verbatim>\<open>kernel/src/syscall/fd.rs\<close>, the set-up of the
  mounts in \<^verbatim>\<open>filesystem/fs/src/lib.rs\<close>, and the calls of \<^verbatim>\<open>kernel/src/syscall/sys.rs\<close> that only
  report values.
\<close>

section \<open>The current directory\<close>

definition sys_chdir :: "('i, 's) dispatch \<Rightarrow> ('i, 's) Proc \<Rightarrow> string \<Rightarrow> ('i, 's) Proc \<times> nat res" where
  "sys_chdir node st path =
     andthen (fd_open node st AT_CWD path O_RDONLY) (\<lambda>st1 f.
       case file_type node (fs st1) f of
         Ok Directory \<Rightarrow> (st1\<lparr>ofiles := ofiles st1 @ [f], curr_dir := length (ofiles st1)\<rparr>, Ok 0)
       | Ok _ \<Rightarrow> (st1, Err ENOTDIR)
       | Err e \<Rightarrow> (st1, Err e)
       | Panic \<Rightarrow> (st1, Panic))"

text \<open>The contents of the buffer after the call; the result is the address of the buffer.\<close>

definition sys_getcwd :: "('i, 's) Proc \<Rightarrow> usize \<Rightarrow> nat \<Rightarrow> u8 list \<times> usize res" where
  "sys_getcwd st buf_ptr n =
     (let bytes = map of_char (path_string (path_buf (ofiles st ! curr_dir st)));
          len = min (length bytes) n
      in (take len bytes @ replicate (n - len) 0, Ok buf_ptr))"

section \<open>Mounting\<close>

text \<open>
  \<^verbatim>\<open>mount\<close>, \<^verbatim>\<open>umount\<close> and \<^verbatim>\<open>statfs\<close> of an inode, which only block devices and disk file
  systems implement; the others refuse them with \<^verbatim>\<open>EPERM\<close>.
\<close>

record ('i, 's) mount_ops =
  m_mount :: "'i \<Rightarrow> 's \<Rightarrow> string \<Rightarrow> 's \<times> unit res"
  m_umount :: "'i \<Rightarrow> 's \<Rightarrow> 's \<times> unit res"
  m_statfs :: "'i \<Rightarrow> 's \<Rightarrow> 's \<times> unit res"

definition open_path :: "('i, 's) dispatch \<Rightarrow> ('i, 's) Proc \<Rightarrow> string \<Rightarrow> ('i, 's) Proc \<times> 'i FileObj res" where
  "open_path node st path = (case file_open node (mounts st) (fs st) (path_from path) O_RDONLY of (s, r) \<Rightarrow> (st\<lparr>fs := s\<rparr>, r))"

definition trim_slashes :: "string \<Rightarrow> string" where
  "trim_slashes s = dropWhile (\<lambda>c. c = SLASH) s"

text \<open>A failed mount is reported as a success.\<close>

definition sys_mount :: "('i, 's) dispatch \<Rightarrow> ('i, 's) mount_ops \<Rightarrow> ('i, 's) Proc \<Rightarrow> string \<Rightarrow> string \<Rightarrow> string \<Rightarrow> ('i, 's) Proc \<times> nat res" where
  "sys_mount node mo st special dir fstype =
     andthen
       (if dir = [] then (st, Ok ())
        else andthen (case file_open node (mounts st) (fs st) path_new O_RDONLY of (s, r) \<Rightarrow> (st\<lparr>fs := s\<rparr>, r)) (\<lambda>st1 parent.
          case i_mkdir (node (inner parent)) (fs st1) (trim_slashes dir) of
            (s, Panic) \<Rightarrow> (st1\<lparr>fs := s\<rparr>, Panic)
          | (s, _) \<Rightarrow> (st1\<lparr>fs := s\<rparr>, Ok ())))
       (\<lambda>st1 _.
          if fstype \<in> {''tmpfs'', ''ramfs'', ''proc'', ''sysfs'', ''devtmpfs''} then (st1, Ok 0)
          else if special \<noteq> [] \<and> special \<noteq> ''none'' then
            (case open_path node st1 special of
               (st2, Ok dev) \<Rightarrow>
                 (case m_mount mo (inner dev) (fs st2) dir of
                    (s, Panic) \<Rightarrow> (st2\<lparr>fs := s\<rparr>, Panic)
                  | (s, _) \<Rightarrow> (st2\<lparr>fs := s\<rparr>, Ok 0))
             | (st2, Err _) \<Rightarrow> (st2, Ok 0)
             | (st2, Panic) \<Rightarrow> (st2, Panic))
          else (st1, Ok 0))"

definition sys_umount2 :: "('i, 's) dispatch \<Rightarrow> ('i, 's) mount_ops \<Rightarrow> ('i, 's) Proc \<Rightarrow> string \<Rightarrow> ('i, 's) Proc \<times> nat res" where
  "sys_umount2 node mo st special =
     (if special = [] then (st, Err EINVAL)
      else if take 4 special = ''/dev'' then
        (case open_path node st special of
           (st1, Ok dev) \<Rightarrow>
             (case m_umount mo (inner dev) (fs st1) of
                (s, Panic) \<Rightarrow> (st1\<lparr>fs := s\<rparr>, Panic)
              | (s, _) \<Rightarrow> (st1\<lparr>fs := s\<rparr>, Ok 0))
         | (st1, Err _) \<Rightarrow> (st1, Ok 0)
         | (st1, Panic) \<Rightarrow> (st1, Panic))
      else (st\<lparr>mounts := umount (mounts st) (path_from special)\<rparr>, Ok 0))"

definition sys_statfs :: "('i, 's) dispatch \<Rightarrow> ('i, 's) mount_ops \<Rightarrow> ('i, 's) Proc \<Rightarrow> string \<Rightarrow> ('i, 's) Proc \<times> nat res" where
  "sys_statfs node mo st path =
     andthen (open_path node st path) (\<lambda>st1 f.
       case m_statfs mo (inner f) (fs st1) of (s, r) \<Rightarrow> (st1\<lparr>fs := s\<rparr>, rmap (\<lambda>_. 0) r))"

section \<open>Attributes\<close>

record StatxTimestamp =
  tv_sec :: "64 word"
  tv_nsec :: "32 word"

definition statx_time :: "TimeSpec \<Rightarrow> StatxTimestamp" where
  "statx_time t = \<lparr>tv_sec = of_nat (sec t), tv_nsec = of_nat (nsec t)\<rparr>"

record Statx =
  stx_mask :: "32 word"
  stx_blksize :: "32 word"
  stx_nlink :: "32 word"
  stx_uid :: "32 word"
  stx_gid :: "32 word"
  stx_mode :: "16 word"
  stx_ino :: u64
  stx_size :: u64
  stx_blocks :: u64
  stx_atime :: StatxTimestamp
  stx_btime :: StatxTimestamp
  stx_ctime :: StatxTimestamp
  stx_mtime :: StatxTimestamp
  stx_rdev_major :: "32 word"
  stx_rdev_minor :: "32 word"
  stx_dev_major :: "32 word"
  stx_dev_minor :: "32 word"

definition STATX_ALL :: "32 word" where
  "STATX_ALL = 0xfff"

definition dev_major :: "u64 \<Rightarrow> 32 word" where
  "dev_major d = ucast (drop_bit 8 d AND 0xfff) OR ucast (drop_bit 32 d AND NOT 0xfff)"

definition dev_minor :: "u64 \<Rightarrow> 32 word" where
  "dev_minor d = ucast (d AND 0xff) OR ucast (drop_bit 12 d AND NOT 0xff)"

definition sys_statx :: "('i, 's) dispatch \<Rightarrow> ('i, 's) Proc \<Rightarrow> int \<Rightarrow> string \<Rightarrow> ('i, 's) Proc \<times> Statx res" where
  "sys_statx node st dir_fd path =
     andthen (fd_open node st dir_fd path O_RDONLY) (\<lambda>st1 f.
       (st1, rmap (\<lambda>a.
          \<lparr>stx_mask = STATX_ALL, stx_blksize = of_nat (st_blksize a), stx_nlink = of_nat (st_nlink a),
           stx_uid = of_nat (st_uid a), stx_gid = of_nat (st_gid a), stx_mode = ucast (st_mode a), stx_ino = st_ino a,
           stx_size = of_nat (st_size a), stx_blocks = of_nat (st_blocks a), stx_atime = statx_time (st_atime a),
           stx_btime = statx_time (st_ctime a), stx_ctime = statx_time (st_ctime a), stx_mtime = statx_time (st_mtime a),
           stx_rdev_major = dev_major (st_rdev a), stx_rdev_minor = dev_minor (st_rdev a),
           stx_dev_major = dev_major (st_dev a), stx_dev_minor = dev_minor (st_dev a)\<rparr>)
          (file_stat node (fs st1) f stat_default)))"

definition O_NOFOLLOW :: OpenFlags where
  "O_NOFOLLOW = 0x20000"

definition sys_fchmodat :: "('i, 's) dispatch \<Rightarrow> ('i, 's) Proc \<Rightarrow> int \<Rightarrow> string \<Rightarrow> nat \<Rightarrow> ('i, 's) Proc \<times> nat res" where
  "sys_fchmodat node st dir_fd path mode = andthen (fd_open node st dir_fd path O_RDONLY) (\<lambda>st1 _. (st1, Ok 0))"

definition sys_chown :: "('i, 's) dispatch \<Rightarrow> ('i, 's) Proc \<Rightarrow> string \<Rightarrow> nat \<Rightarrow> nat \<Rightarrow> ('i, 's) Proc \<times> nat res" where
  "sys_chown node st path owner grp = andthen (fd_open node st AT_CWD path O_RDONLY) (\<lambda>st1 _. (st1, Ok 0))"

definition sys_fchown :: "('i, 's) Proc \<Rightarrow> nat \<Rightarrow> nat \<Rightarrow> nat \<Rightarrow> ('i, 's) Proc \<times> nat res" where
  "sys_fchown st fd owner grp = with_fd st fd EBADF (\<lambda>_. (st, Ok 0))"

definition sys_lchown :: "('i, 's) dispatch \<Rightarrow> ('i, 's) Proc \<Rightarrow> string \<Rightarrow> nat \<Rightarrow> nat \<Rightarrow> ('i, 's) Proc \<times> nat res" where
  "sys_lchown node st path owner grp = andthen (fd_open node st AT_CWD path (O_RDONLY OR O_NOFOLLOW)) (\<lambda>st1 _. (st1, Ok 0))"

definition sys_fchownat :: "('i, 's) dispatch \<Rightarrow> ('i, 's) Proc \<Rightarrow> int \<Rightarrow> string \<Rightarrow> nat \<Rightarrow> nat \<Rightarrow> u64 \<Rightarrow> ('i, 's) Proc \<times> nat res" where
  "sys_fchownat node st dir_fd path owner grp flags =
     andthen (fd_open node st dir_fd path (if flags AND 0x100 \<noteq> 0 then O_RDONLY OR O_NOFOLLOW else O_RDONLY)) (\<lambda>st1 _. (st1, Ok 0))"

definition sys_fsync :: "('i, 's) Proc \<Rightarrow> nat \<Rightarrow> ('i, 's) Proc \<times> nat res" where
  "sys_fsync st fd = with_fd st fd EBADF (\<lambda>_. if fd \<le> 2 then (st, Ok 0) else (st, Ok 0))"

definition sys_fdatasync :: "('i, 's) Proc \<Rightarrow> nat \<Rightarrow> ('i, 's) Proc \<times> nat res" where
  "sys_fdatasync st fd = with_fd st fd EBADF (\<lambda>_. if fd \<le> 2 then (st, Ok 0) else (st, Ok 0))"

text \<open>\<^verbatim>\<open>sync\<close> looks up every descriptor up to 255 and does nothing with the files.\<close>

definition sys_sync :: "('i, 's) Proc \<Rightarrow> ('i, 's) Proc \<times> nat res" where
  "sys_sync st = (st, fold (\<lambda>fd r. rbind r (\<lambda>_. rmap (\<lambda>_. 0) (get_fd st fd))) [0..<256] (Ok 0))"

section \<open>Setting up the mounts\<close>

fun make_dirs :: "('i, 's) dispatch \<Rightarrow> 'i \<Rightarrow> string list \<Rightarrow> 's \<Rightarrow> 's res" where
  "make_dirs node d [] s = Ok s"
| "make_dirs node d (name # names) s =
     (case i_mkdir (node d) s name of (s1, Ok _) \<Rightarrow> make_dirs node d names s1 | _ \<Rightarrow> Panic)"

definition fs_init :: "('i, 's) dispatch \<Rightarrow> (fs_kind \<Rightarrow> 'i) \<Rightarrow> 's \<Rightarrow> ('i mounts \<times> 's) res" where
  "fs_init node new s =
     (let ms = map (\<lambda>(p, k). (p, new k)) init_mounts in
      case file_open node ms s path_new O_RDONLY of
        (s1, Ok root) \<Rightarrow>
          rbind (make_dirs node (inner root) [''dev'', ''tmp'', ''home'', ''var'', ''proc'', ''bin''] s1) (\<lambda>s2.
            case file_open node ms s2 (path_from ''/var'') O_RDONLY of
              (s3, Ok var) \<Rightarrow>
                (case i_mkdir (node (inner var)) s3 ''tmp'' of
                   (s4, Panic) \<Rightarrow> Panic
                 | (s4, _) \<Rightarrow> Ok (ms, s4))
            | _ \<Rightarrow> Panic)
      | _ \<Rightarrow> Panic)"

section \<open>Calls that report values\<close>

record UTSname =
  sysname :: "u8 list"
  nodename :: "u8 list"
  release :: "u8 list"
  version :: "u8 list"
  machine :: "u8 list"
  domainname :: "u8 list"

definition put_text :: "string \<Rightarrow> u8 list \<Rightarrow> u8 list" where
  "put_text s old = map of_char s @ drop (length s) old"

definition sys_uname :: "UTSname \<Rightarrow> UTSname" where
  "sys_uname u =
     \<lparr>sysname = put_text ''Linux'' (sysname u), nodename = put_text ''debian'' (nodename u),
      release = put_text ''5.10.0-7-riscv64'' (release u), version = put_text ''#1 SMP Debian 5.10.40-1 (2021-05-28)'' (version u),
      machine = put_text ''riscv qemu'' (machine u), domainname = put_text [] (domainname u)\<rparr>"

fun getrandom_bytes :: "u64 \<Rightarrow> nat \<Rightarrow> u64 \<times> u8 list" where
  "getrandom_bytes seed 0 = (seed, [])"
| "getrandom_bytes seed (Suc n) =
     (let seed' = seed * 0x5851f42d4c957f2d
      in case getrandom_bytes seed' n of (s, bs) \<Rightarrow> (s, ucast (drop_bit 33 seed') # bs))"

definition SEED :: u64 where
  "SEED = 0xdeadbeefcafebabe"

definition sys_getrandom :: "u64 \<Rightarrow> nat \<Rightarrow> u64 \<times> u8 list \<times> nat res" where
  "sys_getrandom seed buf_len = (case getrandom_bytes seed buf_len of (s, bs) \<Rightarrow> (s, bs, Ok buf_len))"

definition sys_membarrier :: "nat \<Rightarrow> nat res" where
  "sys_membarrier cmd = (if cmd = 0 then Ok (sum_list (map (\<lambda>i. 2 ^ i) [1..<10])) else Ok 0)"

definition sys_getsid :: "nat \<Rightarrow> nat \<Rightarrow> nat res" where
  "sys_getsid tid pid = (if pid = 0 then Ok tid else Ok pid)"

definition sys_prctl :: "nat \<Rightarrow> nat res" where
  "sys_prctl option0 = (if option0 = 3 then Ok 1 else Ok 0)"

definition sys_info :: "usize \<Rightarrow> u8 \<Rightarrow> u8 \<times> nat res" where
  "sys_info meminfo old = (if meminfo \<noteq> 0 then 3 else old, Ok 0)"

definition sys_getuid :: "nat res" where "sys_getuid = Ok 0"
definition sys_geteuid :: "nat res" where "sys_geteuid = Ok 0"
definition sys_getgid :: "nat res" where "sys_getgid = Ok 0"
definition sys_getegid :: "nat res" where "sys_getegid = Ok 0"
definition sys_getpgid :: "nat res" where "sys_getpgid = Ok 0"

definition sys_setpgid :: "nat \<Rightarrow> nat \<Rightarrow> nat res" where "sys_setpgid pid pgrp = Ok 0"
definition sys_setuid :: "nat \<Rightarrow> nat res" where "sys_setuid uid = Ok 0"
definition sys_setgid :: "nat \<Rightarrow> nat res" where "sys_setgid gid = Ok 0"

text \<open>The path is \<open>None\<close> when it is not UTF-8.\<close>

definition sys_mknod :: "string option \<Rightarrow> nat res" where
  "sys_mknod path = (case path of None \<Rightarrow> Err EINVAL | Some _ \<Rightarrow> Ok 0)"

definition sys_mknodat :: "string option \<Rightarrow> nat res" where
  "sys_mknodat path = (case path of None \<Rightarrow> Err EINVAL | Some _ \<Rightarrow> Ok 0)"

section \<open>Properties\<close>


text \<open>
  Unmounting the root stops the kernel at the next lookup.  \<^verbatim>\<open>umount2\<close> removes every mount at the
  path it is given, the root included, and reports success; from then on opening any path outside the
  other mount points finds no mount and panics.
\<close>

theorem umount_root_then_open_panics:
  assumes "\<forall>(mp, _) \<in> set (mounts st). mp \<noteq> [] \<longrightarrow> \<not> starts_with path mp"
  shows "\<exists>st'. sys_umount2 node mo st ''/'' = (st', Ok 0) \<and> snd (file_open node (mounts st') (fs st') path flags) = Panic"
proof -
  have r: "path_from ''/'' = []" by (simp add: path_from_def path_join_def push_component_def path_new_def SLASH_def)
  let ?ms = "umount (mounts st) []"
  have "List.find (\<lambda>(mp, _). starts_with path mp) (rev ?ms) = None"
    using assms by (auto simp: find_None_iff umount_def)
  then have "snd (file_open node ?ms (fs st) path flags) = Panic"
    by (simp add: file_open_def open_node_def get_mounted_def)
  then show ?thesis by (intro exI [of _ "st\<lparr>mounts := ?ms\<rparr>"]) (simp add: sys_umount2_def r)
qed

theorem umount_root_then_open_panics_witness:
  "\<exists>st'. sys_umount2 (ram_inode (\<lambda>_. 0)) \<lparr>m_mount = (\<lambda>_ s _. (s, Err EPERM)), m_umount = (\<lambda>_ s. (s, Err EPERM)), m_statfs = (\<lambda>_ s. (s, Err EPERM))\<rparr>
      demo_proc ''/'' = (st', Ok 0) \<and> snd (file_open (ram_inode (\<lambda>_. 0)) (mounts st') (fs st') [''etc''] O_RDONLY) = Panic"
  by (rule umount_root_then_open_panics) (simp add: demo_proc_def)


end
