(* ===== verification/Sockets.thy ===== *)
theory Sockets
  imports Polling
begin

unbundle bit_operations_syntax

text \<open>
  Network sockets: \<^verbatim>\<open>kernel/src/socket.rs\<close> and the calls of \<^verbatim>\<open>kernel/src/syscall/socket.rs\<close>.
  The network stack is a library; its operations are an argument, over a state of its own.
  A connection of the stack is named by a number.
\<close>

section \<open>The network stack\<close>

text \<open>An address and a port in the byte order of the machine.\<close>

record SockAddr =
  sa_ip :: "32 word"
  sa_port :: "16 word"

datatype ConnectResult = ConnectBlocking | ConnectOther

record 'n NetStack =
  n_blank_tcp :: "'n \<Rightarrow> 'n \<times> nat"
  n_blank_udp :: "'n \<Rightarrow> 'n \<times> nat"
  n_recv_from :: "'n \<Rightarrow> nat \<Rightarrow> 'n \<times> (u8 list \<times> SockAddr) option"
  n_sendto :: "'n \<Rightarrow> nat \<Rightarrow> u8 list \<Rightarrow> SockAddr option \<Rightarrow> 'n \<times> nat option"
  n_is_closed :: "'n \<Rightarrow> nat \<Rightarrow> bool option"
  n_readable :: "'n \<Rightarrow> nat \<Rightarrow> bool option"
  n_get_local :: "'n \<Rightarrow> nat \<Rightarrow> SockAddr option"
  n_get_remote :: "'n \<Rightarrow> nat \<Rightarrow> SockAddr option"
  n_bind :: "'n \<Rightarrow> nat \<Rightarrow> SockAddr \<Rightarrow> 'n \<times> bool"
  n_listen :: "'n \<Rightarrow> nat \<Rightarrow> 'n"
  n_accept :: "'n \<Rightarrow> nat \<Rightarrow> 'n \<times> nat option"
  n_connect :: "'n \<Rightarrow> nat \<Rightarrow> SockAddr \<Rightarrow> 'n \<times> ConnectResult"
  n_close :: "'n \<Rightarrow> nat \<Rightarrow> 'n"
  n_tcp_port :: "'n \<Rightarrow> 16 word \<Rightarrow> nat option"
  n_udp_port :: "'n \<Rightarrow> 16 word \<Rightarrow> nat option"
  n_is_tcp :: "'n \<Rightarrow> nat \<Rightarrow> bool"

section \<open>Sockets\<close>

datatype NetType = STEAM | DGRAME | RAW

definition net_type_from :: "nat \<Rightarrow> NetType option" where
  "net_type_from value = (if value = 1 then Some STEAM else if value = 2 then Some DGRAME else None)"

record Socket =
  domain :: nat
  net_type :: NetType
  sock_conn :: nat
  wsize :: usize
  rsize :: usize
  sock_buf :: "u8 list"

text \<open>The socket objects and the state of the stack.\<close>

record 'n SockState =
  net :: 'n
  socks :: "Socket list"

definition socket_with_inner :: "nat \<Rightarrow> NetType \<Rightarrow> nat \<Rightarrow> Socket" where
  "socket_with_inner dm ty c = \<lparr>domain = dm, net_type = ty, sock_conn = c, wsize = 0, rsize = 0, sock_buf = []\<rparr>"

definition socket_new :: "'n NetStack \<Rightarrow> 'n SockState \<Rightarrow> nat \<Rightarrow> NetType \<Rightarrow> 'n SockState \<times> Socket res" where
  "socket_new N s dm ty =
     (case ty of
        STEAM \<Rightarrow> (case n_blank_tcp N (net s) of (n, c) \<Rightarrow> (s\<lparr>net := n\<rparr>, Ok (socket_with_inner dm ty c)))
      | DGRAME \<Rightarrow> (case n_blank_udp N (net s) of (n, c) \<Rightarrow> (s\<lparr>net := n\<rparr>, Ok (socket_with_inner dm ty c)))
      | RAW \<Rightarrow> (s, Panic))"

definition socket_reuse :: "'n NetStack \<Rightarrow> 'n \<Rightarrow> Socket \<Rightarrow> 16 word \<Rightarrow> Socket res" where
  "socket_reuse N n x port =
     (case (if n_is_tcp N n (sock_conn x) then n_tcp_port N n port else n_udp_port N n port) of
        Some c \<Rightarrow> Ok (x\<lparr>sock_conn := c, sock_buf := []\<rparr>)
      | None \<Rightarrow> Panic)"

text \<open>The drop of a socket, with the number of strong references to its connection.\<close>

definition socket_drop :: "'n NetStack \<Rightarrow> 'n \<Rightarrow> Socket \<Rightarrow> nat \<Rightarrow> 'n res" where
  "socket_drop N n x strong_count =
     (case n_is_closed N n (sock_conn x) of
        None \<Rightarrow> Panic
      | Some closed \<Rightarrow> Ok (if \<not> closed \<and> (strong_count = 2 \<or> strong_count = 1) then n_close N n (sock_conn x) else n))"

definition socket_recv_from :: "'n NetStack \<Rightarrow> 'n \<Rightarrow> Socket \<Rightarrow> 'n \<times> (u8 list \<times> SockAddr) res" where
  "socket_recv_from N n x =
     (if n_get_local N n (sock_conn x) = None then (n, Panic)
      else case n_recv_from N n (sock_conn x) of
        (n', Some r) \<Rightarrow> (n', Ok r)
      | (n', None) \<Rightarrow> (n', Err EWOULDBLOCK))"

definition socket_readat :: "'n NetStack \<Rightarrow> 'n SockState \<Rightarrow> nat \<Rightarrow> nat \<Rightarrow> 'n SockState \<times> u8 list res" where
  "socket_readat N s i len =
     (let x = socks s ! i in
      case (if sock_buf x = [] then n_recv_from N (net s) (sock_conn x) else (net s, Some (sock_buf x, \<lparr>sa_ip = 0, sa_port = 0\<rparr>))) of
        (n, None) \<Rightarrow> (s\<lparr>net := n\<rparr>, Err EWOULDBLOCK)
      | (n, Some (d, _)) \<Rightarrow>
          (let rlen = min (length d) len
           in (s\<lparr>net := n,
                 socks := (socks s)[i := x\<lparr>rsize := uadd (rsize x) rlen, sock_buf := (if rlen < length d then drop rlen d else [])\<rparr>]\<rparr>,
               Ok (take rlen d))))"

definition socket_writeat :: "'n NetStack \<Rightarrow> 'n SockState \<Rightarrow> nat \<Rightarrow> u8 list \<Rightarrow> 'n SockState \<times> nat res" where
  "socket_writeat N s i buffer =
     (let x = socks s ! i in
      case n_sendto N (net s) (sock_conn x) buffer None of
        (n, Some len) \<Rightarrow> (s\<lparr>net := n, socks := (socks s)[i := x\<lparr>wsize := uadd (wsize x) len\<rparr>]\<rparr>, Ok len)
      | (n, None) \<Rightarrow> (s\<lparr>net := n\<rparr>, Err EPERM))"

definition socket_poll :: "'n NetStack \<Rightarrow> 'n SockState \<Rightarrow> nat \<Rightarrow> PollEvent \<Rightarrow> PollEvent res" where
  "socket_poll N s i events =
     (let c = sock_conn (socks s ! i) in
      rbind (if contains events POLLOUT then (case n_is_closed N (net s) c of
               None \<Rightarrow> Panic
             | Some closed \<Rightarrow> Ok (if \<not> closed \<and> n_get_remote N (net s) c \<noteq> None then POLLNONE OR POLLOUT else POLLNONE))
             else Ok POLLNONE) (\<lambda>res1.
        case n_readable N (net s) c of
          None \<Rightarrow> Panic
        | Some r \<Rightarrow> Ok (if r \<and> contains events POLLIN then res1 OR POLLIN else res1)))"

definition socket_stat :: "Stat \<Rightarrow> Stat" where
  "socket_stat st = st\<lparr>st_mode := S_SOCKET\<rparr>"

text \<open>The inodes of a process: sockets by their number, and others.\<close>

datatype 'x sock_node = SockNode nat | OtherNode 'x

definition socket_inode :: "'n NetStack \<Rightarrow> nat \<Rightarrow> ('x sock_node, 'n SockState) inode" where
  "socket_inode N i = inode_default
     \<lparr>i_readat := \<lambda>s _ n. socket_readat N s i n,
      i_writeat := \<lambda>s _ d. socket_writeat N s i d,
      i_poll := \<lambda>s e. (s, socket_poll N s i e),
      i_stat := \<lambda>s st. Ok (socket_stat st)\<rparr>"

section \<open>System calls\<close>

type_synonym ('x, 'n) sock_proc = "('x sock_node, 'n SockState) Proc"

text \<open>\<^verbatim>\<open>to_be\<close> of a port on a little-endian machine.\<close>

definition to_be :: "16 word \<Rightarrow> 16 word" where
  "to_be w = push_bit 8 w OR drop_bit 8 w"

text \<open>A socket address in user memory, the port as it is stored.\<close>

record SocketAddrIn =
  in_family :: "16 word"
  in_port :: "16 word"
  in_addr :: "32 word"

definition sock_at :: "('x, 'n) sock_proc \<Rightarrow> nat \<Rightarrow> Socket" where
  "sock_at st i = socks (fs st) ! i"

definition set_net :: "'n \<Rightarrow> ('x, 'n) sock_proc \<Rightarrow> ('x, 'n) sock_proc" where
  "set_net n st = st\<lparr>fs := (fs st)\<lparr>net := n\<rparr>\<rparr>"

text \<open>\<^verbatim>\<open>get_fd\<close> followed by the downcast to a socket.\<close>

definition with_socket :: "('x, 'n) sock_proc \<Rightarrow> nat \<Rightarrow> (nat \<Rightarrow> nat \<Rightarrow> ('x, 'n) sock_proc \<times> 'a res) \<Rightarrow> ('x, 'n) sock_proc \<times> 'a res" where
  "with_socket st fd k =
     with_fd st fd EINVAL (\<lambda>h. case inner (ofiles st ! h) of SockNode i \<Rightarrow> k h i | OtherNode _ \<Rightarrow> (st, Err EINVAL))"

text \<open>Put a socket at a descriptor: a new object and a new open file.\<close>

definition set_socket :: "('x, 'n) sock_proc \<Rightarrow> nat \<Rightarrow> Socket \<Rightarrow> OpenFlags \<Rightarrow> ('x, 'n) sock_proc res" where
  "set_socket st fd x flags =
     set_fd (st\<lparr>fs := (fs st)\<lparr>socks := socks (fs st) @ [x]\<rparr>,
       ofiles := ofiles st @ [(new_dev (SockNode (length (socks (fs st)))))\<lparr>fflags := flags\<rparr>]\<rparr>) fd (length (ofiles st))"

definition sys_socket :: "'n NetStack \<Rightarrow> ('x, 'n) sock_proc \<Rightarrow> nat \<Rightarrow> nat \<Rightarrow> ('x, 'n) sock_proc \<times> nat res" where
  "sys_socket N st dm ty =
     (case alloc_fd st of
        (st1, None) \<Rightarrow> (st1, Err EMFILE)
      | (st1, Some fd) \<Rightarrow>
          (case net_type_from ty of
             None \<Rightarrow> (st1, Err EINVAL)
           | Some t \<Rightarrow>
               (case socket_new N (fs st1) dm t of
                  (s, Ok x) \<Rightarrow>
                    (case set_socket (st1\<lparr>fs := s\<rparr>) fd x O_RDWR of
                       Ok st2 \<Rightarrow> (st2, Ok fd)
                     | _ \<Rightarrow> (st1, Panic))
                | (s, _) \<Rightarrow> (st1\<lparr>fs := s\<rparr>, Panic))))"

definition sys_bind :: "'n NetStack \<Rightarrow> ('x, 'n) sock_proc \<Rightarrow> nat \<Rightarrow> SocketAddrIn \<Rightarrow> ('x, 'n) sock_proc \<times> nat res" where
  "sys_bind N st socket_fd addr =
     with_socket st socket_fd (\<lambda>h i.
       let x = sock_at st i;
           port = to_be (in_port addr)
       in if in_family addr \<noteq> 2 then (st, Err EAFNOSUPPORT)
          else if (net_type x = STEAM \<and> n_tcp_port N (net (fs st)) port \<noteq> None) \<or>
                  (net_type x = DGRAME \<and> n_udp_port N (net (fs st)) port \<noteq> None) then
            (case socket_reuse N (net (fs st)) x port of
               Ok y \<Rightarrow> (case set_socket st socket_fd y O_RDWR of Ok st1 \<Rightarrow> (st1, Ok 0) | _ \<Rightarrow> (st, Panic))
             | _ \<Rightarrow> (st, Panic))
          else
            (case n_bind N (net (fs st)) (sock_conn x) \<lparr>sa_ip = in_addr addr, sa_port = port\<rparr> of
               (n, True) \<Rightarrow> (set_net n st, Ok 0)
             | (n, False) \<Rightarrow> (set_net n st, Err EALREADY)))"

definition sys_listen :: "'n NetStack \<Rightarrow> ('x, 'n) sock_proc \<Rightarrow> nat \<Rightarrow> ('x, 'n) sock_proc \<times> nat res" where
  "sys_listen N st socket_fd =
     with_socket st socket_fd (\<lambda>h i. (set_net (n_listen N (net (fs st)) (sock_conn (sock_at st i))) st, Ok 0))"

text \<open>
  \<^verbatim>\<open>accept\<close> chooses the descriptor first, then waits in rounds for a connection.  The first
  part returns the socket and the descriptor, a round looks for a connection.
\<close>

definition accept_start :: "('x, 'n) sock_proc \<Rightarrow> nat \<Rightarrow> ('x, 'n) sock_proc \<times> (nat \<times> nat \<times> nat) res" where
  "accept_start st socket_fd =
     with_socket st socket_fd (\<lambda>h i.
       case alloc_fd st of
         (st1, None) \<Rightarrow> (st1, Err EMFILE)
       | (st1, Some fd) \<Rightarrow> (st1, Ok (h, i, fd)))"

definition accept_round :: "'n NetStack \<Rightarrow> ('x, 'n) sock_proc \<Rightarrow> nat \<Rightarrow> nat \<Rightarrow> bool \<Rightarrow> ('x, 'n) sock_proc \<times> nat res Poll" where
  "accept_round N st i fd has_signal =
     (let x = sock_at st i in
      case n_accept N (net (fs st)) (sock_conn x) of
        (n, Some c) \<Rightarrow>
          (case set_socket (set_net n st) fd (socket_with_inner (domain x) (net_type x) c) O_RDWR of
             Ok st1 \<Rightarrow> (st1, Ready (Ok fd))
           | _ \<Rightarrow> (st, Ready Panic))
      | (n, None) \<Rightarrow> (set_net n st, if has_signal then Ready (Err EINTR) else Pending))"

definition accept4_round :: "'n NetStack \<Rightarrow> ('x, 'n) sock_proc \<Rightarrow> nat \<Rightarrow> nat \<Rightarrow> nat \<Rightarrow> u64 \<Rightarrow>
    ('x, 'n) sock_proc \<times> (nat \<times> SocketAddrIn) res Poll" where
  "accept4_round N st h i fd flags =
     (let x = sock_at st i in
      case n_accept N (net (fs st)) (sock_conn x) of
        (n, Some c) \<Rightarrow>
          (case n_get_remote N n c of
             None \<Rightarrow> (set_net n st, Ready Panic)
           | Some r \<Rightarrow>
               (case set_socket (set_net n st) fd (socket_with_inner (domain x) (net_type x) c) (open_flags_truncate flags) of
                  Ok st1 \<Rightarrow> (st1, Ready (Ok (fd, \<lparr>in_family = 2, in_port = sa_port r, in_addr = sa_ip r\<rparr>)))
                | _ \<Rightarrow> (st, Ready Panic)))
      | (n, None) \<Rightarrow> (set_net n st, if contains (fflags (ofiles st ! h)) O_NONBLOCK then Ready (Err EAGAIN) else Pending))"

definition connect_round :: "'n NetStack \<Rightarrow> ('x, 'n) sock_proc \<Rightarrow> nat \<Rightarrow> SocketAddrIn \<Rightarrow> ('x, 'n) sock_proc \<times> nat res Poll" where
  "connect_round N st socket_fd addr =
     (case with_socket st socket_fd (\<lambda>h i.
        case n_connect N (net (fs st)) (sock_conn (sock_at st i)) \<lparr>sa_ip = in_addr addr, sa_port = to_be (in_port addr)\<rparr> of
          (n, r) \<Rightarrow> (set_net n st, Ok r)) of
        (st1, Ok ConnectBlocking) \<Rightarrow> (st1, Pending)
      | (st1, Ok ConnectOther) \<Rightarrow> (st1, Ready (Ok 0))
      | (st1, Err e) \<Rightarrow> (st1, Ready (Err e))
      | (st1, Panic) \<Rightarrow> (st1, Ready Panic))"

definition recvfrom_round :: "'n NetStack \<Rightarrow> ('x, 'n) sock_proc \<Rightarrow> nat \<Rightarrow> nat \<Rightarrow>
    ('x, 'n) sock_proc \<times> (u8 list \<times> SocketAddrIn) res Poll" where
  "recvfrom_round N st socket_fd len =
     (case with_socket st socket_fd (\<lambda>h i.
        case socket_recv_from N (net (fs st)) (sock_at st i) of
          (n, Ok (d, r)) \<Rightarrow> (set_net n st, Ok (Some (take (min (length d) len) d,
             \<lparr>in_family = 2, in_port = to_be (sa_port r), in_addr = sa_ip r\<rparr>)))
        | (n, Err _) \<Rightarrow> (set_net n st, if contains (fflags (ofiles st ! h)) O_NONBLOCK then Err EAGAIN else Ok None)
        | (n, Panic) \<Rightarrow> (set_net n st, Panic)) of
        (st1, Ok (Some v)) \<Rightarrow> (st1, Ready (Ok v))
      | (st1, Ok None) \<Rightarrow> (st1, Pending)
      | (st1, Err e) \<Rightarrow> (st1, Ready (Err e))
      | (st1, Panic) \<Rightarrow> (st1, Ready Panic))"

definition addr_in :: "SockAddr \<Rightarrow> SocketAddrIn" where
  "addr_in a = \<lparr>in_family = 2, in_port = to_be (sa_port a), in_addr = sa_ip a\<rparr>"

definition sys_getsockname :: "'n NetStack \<Rightarrow> ('x, 'n) sock_proc \<Rightarrow> nat \<Rightarrow> bool \<Rightarrow> ('x, 'n) sock_proc \<times> SocketAddrIn option res" where
  "sys_getsockname N st socket_fd addr_valid =
     with_socket st socket_fd (\<lambda>h i.
       if \<not> addr_valid then (st, Ok None)
       else case n_get_local N (net (fs st)) (sock_conn (sock_at st i)) of
         None \<Rightarrow> (st, Panic) | Some a \<Rightarrow> (st, Ok (Some (addr_in a))))"

definition sys_getpeername :: "'n NetStack \<Rightarrow> ('x, 'n) sock_proc \<Rightarrow> nat \<Rightarrow> bool \<Rightarrow> ('x, 'n) sock_proc \<times> SocketAddrIn option res" where
  "sys_getpeername N st socket_fd addr_valid =
     with_socket st socket_fd (\<lambda>h i.
       if \<not> addr_valid then (st, Ok None)
       else case n_get_remote N (net (fs st)) (sock_conn (sock_at st i)) of
         None \<Rightarrow> (st, Panic) | Some a \<Rightarrow> (st, Ok (Some (addr_in a))))"

definition sys_setsockopt :: "nat res" where
  "sys_setsockopt = Ok 0"

definition sys_getsockopt :: "nat \<Rightarrow> nat \<Rightarrow> nat \<times> nat res" where
  "sys_getsockopt optname optval =
     (if optname = 7 then (32000, Ok 0) else if optname = 8 then (32000, Ok 0) else if optname = 2 then (2000, Ok 0)
      else if optname = 4 then (optval, Err EPERM) else (optval, Ok 0))"

definition sys_sendto :: "'n NetStack \<Rightarrow> ('x, 'n) sock_proc \<Rightarrow> nat \<Rightarrow> u8 list \<Rightarrow> SocketAddrIn option \<Rightarrow> ('x, 'n) sock_proc \<times> nat res" where
  "sys_sendto N st socket_fd buffer addr =
     with_socket st socket_fd (\<lambda>h i.
       let c = sock_conn (sock_at st i) in
       case n_get_local N (net (fs st)) c of
         None \<Rightarrow> (st, Panic)
       | Some l \<Rightarrow>
           (case (if sa_port l = 0 then n_bind N (net (fs st)) c \<lparr>sa_ip = 0x7F000001, sa_port = 0\<rparr> else (net (fs st), True)) of
              (n, False) \<Rightarrow> (set_net n st, Err EALREADY)
            | (n, True) \<Rightarrow>
                (case n_sendto N n c buffer (map_option (\<lambda>a. \<lparr>sa_ip = in_addr a, sa_port = to_be (in_port a)\<rparr>) addr) of
                   (n1, Some wlen) \<Rightarrow> (set_net n1 st, Ok wlen)
                 | (n1, None) \<Rightarrow> (set_net n1 st, Panic))))"

definition sys_shutdown :: "'n NetStack \<Rightarrow> ('x, 'n) sock_proc \<Rightarrow> nat \<Rightarrow> ('x, 'n) sock_proc \<times> nat res" where
  "sys_shutdown N st socket_fd =
     with_socket st socket_fd (\<lambda>h i. (set_net (n_close N (net (fs st)) (sock_conn (sock_at st i))) st, Ok 0))"

section \<open>Reading a stream\<close>

text \<open>
  The packets a connection still has to deliver.  What the kernel relies on is that receiving
  takes the first of them and leaves the others.
\<close>

definition delivers_packets :: "'n NetStack \<Rightarrow> nat \<Rightarrow> ('n \<Rightarrow> u8 list list) \<Rightarrow> bool" where
  "delivers_packets N c packets \<longleftrightarrow>
     (\<forall>n. case packets n of
        [] \<Rightarrow> snd (n_recv_from N n c) = None \<and> packets (fst (n_recv_from N n c)) = []
      | d # ds \<Rightarrow> map_option fst (snd (n_recv_from N n c)) = Some d \<and> packets (fst (n_recv_from N n c)) = ds)"

fun socket_reads :: "'n NetStack \<Rightarrow> nat \<Rightarrow> nat list \<Rightarrow> 'n SockState \<Rightarrow> 'n SockState \<times> u8 list" where
  "socket_reads N i [] s = (s, [])"
| "socket_reads N i (k # ks) s =
     (case socket_readat N s i k of (s1, r) \<Rightarrow>
        case socket_reads N i ks s1 of (s2, ds) \<Rightarrow> (s2, (case r of Ok d \<Rightarrow> d | _ \<Rightarrow> []) @ ds))"

definition unread :: "('n \<Rightarrow> u8 list list) \<Rightarrow> 'n SockState \<Rightarrow> nat \<Rightarrow> u8 list" where
  "unread packets s i = sock_buf (socks s ! i) @ concat (packets (net s))"

lemma socket_readat_unread:
  assumes "delivers_packets N (sock_conn (socks s ! i)) packets" "i < length (socks s)" "socket_readat N s i k = (s', r)"
  shows "unread packets s i = (case r of Ok d \<Rightarrow> d | _ \<Rightarrow> []) @ unread packets s' i \<and>
    length (socks s') = length (socks s) \<and> sock_conn (socks s' ! i) = sock_conn (socks s ! i)"
proof (cases "sock_buf (socks s ! i) = []")
  case False
  let ?d = "sock_buf (socks s ! i)"
  have "take (min (length ?d) k) ?d @ (if min (length ?d) k < length ?d then drop (min (length ?d) k) ?d else []) = ?d"
    by (auto simp: min_def)
  then show ?thesis using assms(2,3) False by (auto simp: socket_readat_def Let_def unread_def append_assoc [symmetric] simp del: append_assoc)
next
  case True
  let ?c = "sock_conn (socks s ! i)"
  obtain n q where q: "n_recv_from N (net s) ?c = (n, q)" by (cases "n_recv_from N (net s) ?c")
  show ?thesis
  proof (cases "packets (net s)")
    case Nil
    with assms(1) q have "q = None" "packets n = []" by (auto simp: delivers_packets_def dest!: spec [of _ "net s"])
    then show ?thesis using assms(3) True q Nil by (auto simp: socket_readat_def Let_def unread_def)
  next
    case (Cons d ds)
    have "map_option fst q = Some d" "packets n = ds" using assms(1) q Cons by (auto simp: delivers_packets_def dest!: spec [of _ "net s"])
    then obtain a where a: "q = Some (d, a)" "packets n = ds" by auto
    have "take (min (length d) k) d @ (if min (length d) k < length d then drop (min (length d) k) d else []) = d" by (auto simp: min_def)
    then show ?thesis using assms(2,3) True q a Cons
      by (auto simp: socket_readat_def Let_def unread_def append_assoc [symmetric] simp del: append_assoc)
  qed
qed

text \<open>
  C13: reading a socket loses and reorders nothing.  Whatever the sizes of the reads are, the
  bytes they return followed by what is left in the buffer of the socket and in the
  packets that have not been received yet are the bytes the peer sent, in order.
\<close>

theorem socket_reads_keep_the_stream:
  assumes "delivers_packets N (sock_conn (socks s ! i)) packets" "i < length (socks s)" "socket_reads N i ks s = (s', d)"
  shows "unread packets s i = d @ unread packets s' i"
  using assms
proof (induction ks arbitrary: s d)
  case (Cons k ks)
  obtain s1 r where s1: "socket_readat N s i k = (s1, r)" by (cases "socket_readat N s i k")
  obtain s2 ds where s2: "socket_reads N i ks s1 = (s2, ds)" by (cases "socket_reads N i ks s1")
  note u = socket_readat_unread [OF Cons.prems(1,2) s1]
  have e: "s2 = s'" "d = (case r of Ok d \<Rightarrow> d | _ \<Rightarrow> []) @ ds" using Cons.prems(3) s1 s2 by auto
  have "unread packets s1 i = ds @ unread packets s' i"
    using Cons.IH [of s1 ds] s2 e(1) u Cons.prems(1,2) by simp
  then show ?case using u e(2) by simp
qed simp

text \<open>
  \<^verbatim>\<open>poll\<close> does not see the buffer of a socket.  After a read that took a part of a packet, the
  rest is in the buffer of the socket and the next read returns it at once; but as long as no
  further packet arrives \<^verbatim>\<open>poll\<close> reports nothing to read, so a program that waits with
  \<^verbatim>\<open>poll\<close> before each read waits forever for bytes the kernel already has.
\<close>

theorem socket_poll_misses_the_buffer:
  assumes "sock_buf (socks s ! i) \<noteq> []" "n_readable N (net s) (sock_conn (socks s ! i)) = Some False" "0 < len"
  shows "socket_poll N s i POLLIN = Ok POLLNONE \<and> (\<exists>s' d. socket_readat N s i len = (s', Ok d) \<and> d \<noteq> [])"
  using assms by (simp add: socket_poll_def socket_readat_def Let_def poll_defs contains_def)

text \<open>
  \<^verbatim>\<open>recvfrom\<close> loses what does not fit.  On a stream socket a call with a buffer smaller than the
  packet at hand returns its beginning; the rest of the packet is in no buffer afterwards, so
  that the next bytes the socket delivers are those of the following packet, whatever the
  type of the socket is; and what an earlier read left in the buffer of the socket is passed over.
\<close>

theorem recvfrom_loses_the_rest:
  assumes "delivers_packets N (sock_conn (sock_at st i)) packets" "packets (net (fs st)) = d # ds" "get_fd st fd = Ok (Some h)"
    "inner (ofiles st ! h) = SockNode i" "n_get_local N (net (fs st)) (sock_conn (sock_at st i)) \<noteq> None"
  shows "\<exists>st' a. recvfrom_round N st fd len = (st', Ready (Ok (take len d, a))) \<and>
    unread packets (fs st') i = sock_buf (sock_at st i) @ concat ds"
proof -
  obtain n q where q: "n_recv_from N (net (fs st)) (sock_conn (sock_at st i)) = (n, q)"
    by (cases "n_recv_from N (net (fs st)) (sock_conn (sock_at st i))")
  have "map_option fst q = Some d" "packets n = ds" using assms(1,2) q by (auto simp: delivers_packets_def dest!: spec [of _ "net (fs st)"])
  then obtain a where a: "q = Some (d, a)" "packets n = ds" by auto
  have "take (min (length d) len) d = take len d" by (simp add: min_def)
  then show ?thesis
    using assms(3-5) q a
    by (auto simp: recvfrom_round_def with_socket_def with_fd_def socket_recv_from_def set_net_def unread_def sock_at_def)
qed

text \<open>
  C40: \<^verbatim>\<open>accept\<close> can overwrite a descriptor.  It chooses a free descriptor before it waits and does not
  reserve it; when another thread of the process opens a file meanwhile, that call is
  given the same descriptor, and the connection that arrives then replaces the open file.
\<close>

theorem accept_overwrites_a_descriptor:
  assumes w: "fd_wf st" and a: "accept_start st socket_fd = (st1, Ok (h, i, fd))"
    and o: "install st1 f EMFILE = (st2, Ok fd')" and n: "n_accept N (net (fs st2)) (sock_conn (sock_at st2 i)) = (m, Some c)"
  shows "fd' = fd \<and> get_fd st2 fd = Ok (Some (length (ofiles st1))) \<and> ofiles st2 ! length (ofiles st1) = f \<and>
    (\<exists>st3 k. accept_round N st2 i fd sig = (st3, Ready (Ok fd)) \<and> get_fd st3 fd = Ok (Some k) \<and>
       inner (ofiles st3 ! k) = SockNode (length (socks (fs st2))))"
proof -
  have al: "alloc_fd st = (st1, Some fd)"
    using a by (auto simp: accept_start_def with_socket_def with_fd_def split: res.splits option.splits prod.splits sock_node.splits)
  have e: "st1 = st" and fd: "fd < rlimits st ! 7" using fd_wf_alloc [OF w al] by auto
  let ?x = "st\<lparr>ofiles := ofiles st @ [f]\<rparr>"
  have wx: "fd_wf ?x" using w by (auto simp: fd_wf_def less_SucI)
  from fd_wf_set [OF wx, of "length (ofiles st)" fd] obtain y where
    y: "set_fd ?x fd (length (ofiles st)) = Ok y" "fd_wf y" "ofiles y = ofiles st @ [f]" "get_fd y fd = Ok (Some (length (ofiles st)))"
    using fd by auto
  have s2: "st2 = y" "fd' = fd" using o al y(1) by (auto simp: install_def e)
  have "rlimits y = rlimits st" using y(1) by (auto simp: set_fd_def split: if_splits)
  with fd have fd2: "fd < rlimits y ! 7" by simp
  let ?s = "socket_with_inner (domain (sock_at y i)) (net_type (sock_at y i)) c"
  let ?z = "(set_net m y)\<lparr>fs := (fs (set_net m y))\<lparr>socks := socks (fs (set_net m y)) @ [?s]\<rparr>,
       ofiles := ofiles (set_net m y) @ [(new_dev (SockNode (length (socks (fs (set_net m y))))))\<lparr>fflags := O_RDWR\<rparr>]\<rparr>"
  have wz: "fd_wf ?z" using y(2) by (auto simp: fd_wf_def set_net_def less_SucI)
  have lz: "ofiles (set_net m y) = ofiles y" "rlimits ?z = rlimits y" "socks (fs (set_net m y)) = socks (fs y)" by (simp_all add: set_net_def)
  from fd_wf_set [OF wz, of "length (ofiles y)" fd] obtain z where
    z: "set_fd ?z fd (length (ofiles y)) = Ok z" "ofiles z = ofiles ?z" "get_fd z fd = Ok (Some (length (ofiles y)))"
    using fd2 lz by auto
  have "set_socket (set_net m y) fd ?s O_RDWR = Ok z" using z(1) by (simp add: set_socket_def lz(1))
  then have "accept_round N y i fd sig = (z, Ready (Ok fd))" using n s2(1) by (simp add: accept_round_def Let_def)
  moreover have "inner (ofiles z ! length (ofiles y)) = SockNode (length (socks (fs y)))"
    unfolding z(2) by (simp add: lz new_dev_def nth_append)
  ultimately show ?thesis using s2 y(3,4) z(3) e by auto
qed

section \<open>A network\<close>

text \<open>A stack with one connection that has the given packets to deliver and always accepts.\<close>

definition one_peer :: "u8 list list NetStack" where
  "one_peer = \<lparr>n_blank_tcp = (\<lambda>n. (n, 0)), n_blank_udp = (\<lambda>n. (n, 0)),
     n_recv_from = (\<lambda>n c. case n of [] \<Rightarrow> ([], None) | d # ds \<Rightarrow> (ds, Some (d, \<lparr>sa_ip = 1, sa_port = 80\<rparr>))),
     n_sendto = (\<lambda>n c d a. (n, Some (length d))), n_is_closed = (\<lambda>n c. Some False), n_readable = (\<lambda>n c. Some (n \<noteq> [])),
     n_get_local = (\<lambda>n c. Some \<lparr>sa_ip = 2, sa_port = 8080\<rparr>), n_get_remote = (\<lambda>n c. Some \<lparr>sa_ip = 1, sa_port = 80\<rparr>),
     n_bind = (\<lambda>n c a. (n, True)), n_listen = (\<lambda>n c. n), n_accept = (\<lambda>n c. (n, Some 1)), n_connect = (\<lambda>n c a. (n, ConnectOther)),
     n_close = (\<lambda>n c. n), n_tcp_port = (\<lambda>n q. None), n_udp_port = (\<lambda>n q. None), n_is_tcp = (\<lambda>n c. True)\<rparr>"

definition peer_state :: "u8 list \<Rightarrow> u8 list list \<Rightarrow> u8 list list SockState" where
  "peer_state b ds = \<lparr>net = ds, socks = [(socket_with_inner 2 STEAM 0)\<lparr>sock_buf := b\<rparr>]\<rparr>"

definition peer_proc :: "u8 list list \<Rightarrow> (unit, u8 list list) sock_proc" where
  "peer_proc ds = \<lparr>fs = peer_state [] ds, mounts = [], ofiles = [new_dev (SockNode 0)], fd_table = [Some 0, None],
     rlimits = (replicate 8 0)[7 := 2], curr_dir = 0, umask = 0\<rparr>"

lemma one_peer_delivers: "delivers_packets one_peer c (\<lambda>n. n)"
  by (auto simp: delivers_packets_def one_peer_def split: list.splits)

theorem socket_reads_keep_the_stream_witness:
  "case socket_reads one_peer 0 [2, 2] (peer_state [] [[1, 2, 3], [4]]) of (s', d) \<Rightarrow> [1, 2, 3, 4] = d @ unread (\<lambda>n. n) s' 0"
proof -
  obtain s' d where r: "socket_reads one_peer 0 [2, 2] (peer_state [] [[1, 2, 3], [4]]) = (s', d)" by fastforce
  from socket_reads_keep_the_stream [OF one_peer_delivers _ r] show ?thesis using r by (simp add: peer_state_def unread_def socket_with_inner_def)
qed

theorem socket_poll_misses_the_buffer_witness:
  "socket_poll one_peer (peer_state [3] []) 0 POLLIN = Ok POLLNONE"
  using socket_poll_misses_the_buffer [of "peer_state [3] []" 0 one_peer 1] by (simp add: peer_state_def one_peer_def)

theorem recvfrom_loses_the_rest_witness:
  "\<exists>st' a. recvfrom_round one_peer (peer_proc [[1, 2, 3], [4]]) 0 1 = (st', Ready (Ok ([1], a))) \<and> unread (\<lambda>n. n) (fs st') 0 = [4]"
proof -
  have "\<exists>st' a. recvfrom_round one_peer (peer_proc [[1, 2, 3], [4]]) 0 1 = (st', Ready (Ok (take 1 [1, 2, 3], a))) \<and>
    unread (\<lambda>n. n) (fs st') 0 = sock_buf (sock_at (peer_proc [[1, 2, 3], [4]]) 0) @ concat [[4]]"
    by (rule recvfrom_loses_the_rest [OF one_peer_delivers, of _ _ _ _ 0])
      (simp_all add: peer_proc_def peer_state_def get_fd_def index_res_def new_dev_def one_peer_def)
  then show ?thesis by (simp add: peer_proc_def peer_state_def sock_at_def socket_with_inner_def)
qed

theorem accept_overwrites_a_descriptor_witness:
  "\<exists>st2 st3. install (peer_proc []) (new_dev (OtherNode ())) EMFILE = (st2, Ok 1) \<and>
     accept_round one_peer st2 0 1 False = (st3, Ready (Ok 1)) \<and> (\<exists>k. get_fd st3 1 = Ok (Some k) \<and> inner (ofiles st3 ! k) = SockNode 1)"
proof -
  have w: "fd_wf (peer_proc [])" by (auto simp: fd_wf_def peer_proc_def)
  have a: "accept_start (peer_proc []) 0 = (peer_proc [], Ok (0, 0, 1))"
    by (simp add: accept_start_def with_socket_def with_fd_def peer_proc_def get_fd_def index_res_def new_dev_def alloc_fd_def find_free_def)
  obtain st2 where o: "install (peer_proc []) (new_dev (OtherNode ())) EMFILE = (st2, Ok 1)" "fs st2 = peer_state [] []"
    by (simp add: install_def peer_proc_def alloc_fd_def find_free_def set_fd_def)
  have n: "n_accept one_peer (net (fs st2)) (sock_conn (sock_at st2 0)) = ([], Some 1)" by (simp add: o(2) one_peer_def peer_state_def)
  from accept_overwrites_a_descriptor [OF w a o(1) n, where sig = False] obtain st3 k where
    "accept_round one_peer st2 0 1 False = (st3, Ready (Ok 1))" "get_fd st3 1 = Ok (Some k)" "inner (ofiles st3 ! k) = SockNode (length (socks (fs st2)))"
    by (elim conjE exE) (rule that)
  then show ?thesis using o by (auto simp: peer_state_def)
qed

end
