(* ===== verification/Block_Io.thy ===== *)
theory Block_Io
  imports Kernel_Prelude
begin

text \<open>
  Block devices and the byte streams on top of them: the RAM disk (\<^verbatim>\<open>driver/kramdisk\<close>), the virtio
  disk (\<^verbatim>\<open>driver/kvirtio/src/virtio_blk.rs\<close>), and the adapters that give the file system
  libraries bytes from sectors of 512 bytes: the cursor of \<^verbatim>\<open>fatfs_shim.rs\<close>, the disk of
  \<^verbatim>\<open>ext4_rs_shim.rs\<close> and the disk of \<^verbatim>\<open>ext4_shim.rs\<close>.  The state \<open>'d\<close> is what the devices work on.
\<close>

section \<open>Block devices\<close>

record 'd BlkDriver =
  read_blocks :: "'d \<Rightarrow> usize \<Rightarrow> nat \<Rightarrow> u8 list res"
  write_blocks :: "'d \<Rightarrow> usize \<Rightarrow> u8 list \<Rightarrow> 'd res"
  capacity :: "'d \<Rightarrow> usize"

definition get_blk_device :: "'d BlkDriver list \<Rightarrow> nat \<Rightarrow> 'd BlkDriver option" where
  "get_blk_device devs id0 = (if id0 < length devs then Some (devs ! id0) else None)"

text \<open>The RAM disk lies in the memory of the kernel.\<close>

record RamDiskBlock =
  rd_start :: usize
  rd_size :: usize

type_synonym ramdisk = "RamDiskBlock \<times> (usize \<Rightarrow> u8)"

definition ramdisk_read_blocks :: "ramdisk \<Rightarrow> usize \<Rightarrow> nat \<Rightarrow> u8 list res" where
  "ramdisk_read_blocks s sector_offset n =
     (case s of (D, m) \<Rightarrow>
        if n mod 0x200 \<noteq> 0 then Panic
        else if uadd (umul sector_offset 0x200) n \<ge> rd_size D then Panic
        else Ok (map (\<lambda>i. m (uadd (rd_start D) (umul sector_offset 0x200) + i)) [0..<n]))"

definition ramdisk_write_blocks :: "ramdisk \<Rightarrow> usize \<Rightarrow> u8 list \<Rightarrow> ramdisk res" where
  "ramdisk_write_blocks s sector_idx buf =
     (case s of (D, m) \<Rightarrow>
        if length buf mod 0x200 \<noteq> 0 then Panic
        else if uadd (umul sector_idx 0x200) (length buf) \<ge> rd_size D then Panic
        else let at = uadd (rd_start D) (umul sector_idx 0x200)
             in Ok (D, \<lambda>a. if at \<le> a \<and> a < at + length buf then buf ! (a - at) else m a))"

definition ramdisk_capacity :: "ramdisk \<Rightarrow> usize" where
  "ramdisk_capacity s = rd_size (fst s)"

definition ramdisk_driver :: "ramdisk BlkDriver" where
  "ramdisk_driver = \<lparr>read_blocks = ramdisk_read_blocks, write_blocks = ramdisk_write_blocks, capacity = ramdisk_capacity\<rparr>"

text \<open>The virtio disk expects the library to succeed.\<close>

definition virtio_driver :: "('d \<Rightarrow> usize \<Rightarrow> nat \<Rightarrow> u8 list option) \<Rightarrow> ('d \<Rightarrow> usize \<Rightarrow> u8 list \<Rightarrow> 'd option) \<Rightarrow> ('d \<Rightarrow> usize) \<Rightarrow> 'd BlkDriver" where
  "virtio_driver rd wr cap =
     \<lparr>read_blocks = \<lambda>d b n. (case rd d b n of Some x \<Rightarrow> Ok x | None \<Rightarrow> Panic),
      write_blocks = \<lambda>d b x. (case wr d b x of Some d' \<Rightarrow> Ok d' | None \<Rightarrow> Panic),
      capacity = \<lambda>d. umul (cap d) 0x200\<rparr>"

section \<open>The cursor of the FAT file system\<close>

record DiskCursor =
  cur_sector :: usize
  cur_offset :: usize
  cur_device :: nat

definition cursor_position :: "DiskCursor \<Rightarrow> usize" where
  "cursor_position c = uadd (umul (cur_sector c) 0x200) (cur_offset c)"

definition cursor_set_position :: "usize \<Rightarrow> DiskCursor \<Rightarrow> DiskCursor" where
  "cursor_set_position p c = c\<lparr>cur_sector := p div 0x200, cur_offset := p mod 0x200\<rparr>"

definition move_cursor :: "nat \<Rightarrow> DiskCursor \<Rightarrow> DiskCursor" where
  "move_cursor amount c = cursor_set_position (uadd (cursor_position c) amount) c"

text \<open>A read of a buffer of \<open>n\<close> bytes; the result is the part of the buffer that was filled.\<close>

definition cursor_read :: "'d BlkDriver list \<Rightarrow> 'd \<Rightarrow> DiskCursor \<Rightarrow> nat \<Rightarrow> (DiskCursor \<times> u8 list) res" where
  "cursor_read devs d c n =
     (case get_blk_device devs (cur_device c) of
        None \<Rightarrow> Panic
      | Some dev \<Rightarrow>
          if cur_offset c \<noteq> 0 \<or> n < 512 then
            rbind (read_blocks dev d (cur_sector c) 512) (\<lambda>data.
              let end0 = min (cur_offset c + n) 512
              in Ok (move_cursor (end0 - cur_offset c) c, take (end0 - cur_offset c) (drop (cur_offset c) data)))
          else
            let rlen = n div 512 * 512
            in rbind (read_blocks dev d (cur_sector c) n) (\<lambda>data. Ok (move_cursor rlen c, take rlen data)))"

definition cursor_write :: "'d BlkDriver list \<Rightarrow> 'd \<Rightarrow> DiskCursor \<Rightarrow> u8 list \<Rightarrow> ('d \<times> DiskCursor \<times> nat) res" where
  "cursor_write devs d c buf =
     (case get_blk_device devs (cur_device c) of
        None \<Rightarrow> Panic
      | Some dev \<Rightarrow>
          if cur_offset c \<noteq> 0 \<or> length buf < 512 then
            rbind (read_blocks dev d (cur_sector c) 512) (\<lambda>data.
              let end0 = min (cur_offset c + length buf) 512; k = end0 - cur_offset c
              in rmap (\<lambda>d'. (d', move_cursor k c, k)) (write_blocks dev d (cur_sector c) (overwrite data (cur_offset c) (take k buf))))
          else rmap (\<lambda>d'. (d', move_cursor 512 c, 512)) (write_blocks dev d (cur_sector c) (take 512 buf)))"

datatype FatSeek = FromStart usize | FromEnd int | FromCurrent int

definition cursor_seek :: "DiskCursor \<Rightarrow> FatSeek \<Rightarrow> (DiskCursor \<times> usize) res" where
  "cursor_seek c pos =
     (case pos of
        FromStart i \<Rightarrow> Ok (cursor_set_position i c, i)
      | FromEnd _ \<Rightarrow> Panic
      | FromCurrent i \<Rightarrow>
          let p = nat ((int (cursor_position c) + i) mod int USIZE)
          in Ok (cursor_set_position p c, p))"

text \<open>
  The provided methods of the library on top of these: \<^verbatim>\<open>read_exact\<close> and \<^verbatim>\<open>write_all\<close> call \<^verbatim>\<open>read\<close>
  and \<^verbatim>\<open>write\<close> until the buffer is done; \<open>None\<close> when the fuel ends first.
\<close>

fun read_exact :: "'d BlkDriver list \<Rightarrow> nat \<Rightarrow> 'd \<Rightarrow> DiskCursor \<Rightarrow> nat \<Rightarrow> (DiskCursor \<times> u8 list) res option" where
  "read_exact devs fuel d c 0 = Some (Ok (c, []))"
| "read_exact devs 0 d c (Suc n) = None"
| "read_exact devs (Suc fuel) d c (Suc n) =
     (case cursor_read devs d c (Suc n) of
        Ok (c1, xs) \<Rightarrow> map_option (rmap (\<lambda>(c2, ys). (c2, xs @ ys))) (read_exact devs fuel d c1 (Suc n - length xs))
      | Err e \<Rightarrow> Some (Err e)
      | Panic \<Rightarrow> Some Panic)"

fun write_all :: "'d BlkDriver list \<Rightarrow> nat \<Rightarrow> 'd \<Rightarrow> DiskCursor \<Rightarrow> u8 list \<Rightarrow> ('d \<times> DiskCursor) res option" where
  "write_all devs fuel d c [] = Some (Ok (d, c))"
| "write_all devs 0 d c (x # xs) = None"
| "write_all devs (Suc fuel) d c (x # xs) =
     (case cursor_write devs d c (x # xs) of
        Ok (d1, c1, k) \<Rightarrow> write_all devs fuel d1 c1 (drop k (x # xs))
      | Err e \<Rightarrow> Some (Err e)
      | Panic \<Rightarrow> Some Panic)"

section \<open>The disk of the ext4 library in Rust\<close>

definition BLOCK_SIZE :: nat where
  "BLOCK_SIZE = 4096"

primrec read_offset_loop :: "'d BlkDriver \<Rightarrow> 'd \<Rightarrow> nat \<Rightarrow> nat \<Rightarrow> nat \<Rightarrow> nat \<Rightarrow> u8 list \<Rightarrow> u8 list res" where
  "read_offset_loop dev d 0 blk off got buf = Ok buf"
| "read_offset_loop dev d (Suc k) blk off got buf =
     rbind (read_blocks dev d blk 512) (\<lambda>data.
       let n = (if got = 0 then 512 - off else 512)
       in if got + n > length buf \<or> off + n > length data then Panic
          else read_offset_loop dev d k (blk + 1) 0 (got + n) (overwrite buf got (take n (drop off data))))"

definition read_offset :: "'d BlkDriver list \<Rightarrow> nat \<Rightarrow> 'd \<Rightarrow> usize \<Rightarrow> u8 list res" where
  "read_offset devs device_id d off =
     (case get_blk_device devs device_id of
        None \<Rightarrow> Panic
      | Some dev \<Rightarrow> read_offset_loop dev d (BLOCK_SIZE div 512) (off div 512) (off mod 512) 0 (replicate BLOCK_SIZE 0))"

primrec write_offset_loop :: "'d BlkDriver \<Rightarrow> u8 list \<Rightarrow> nat \<Rightarrow> nat \<Rightarrow> nat \<Rightarrow> nat \<Rightarrow> 'd \<Rightarrow> 'd res" where
  "write_offset_loop dev buf 0 blk off written d = Ok d"
| "write_offset_loop dev buf (Suc k) blk off written d =
     rbind (if length buf < 512 then read_blocks dev d blk 512 else Ok (replicate 512 0)) (\<lambda>data.
       let end0 = (if written + 512 > length buf then length buf else written + 512);
           n = end0 - written
       in if off + n > 512 then Panic
          else rbind (write_blocks dev d blk (overwrite data off (take n (drop written buf)))) (\<lambda>d'.
            write_offset_loop dev buf k (blk + 1) 0 (written + n) d'))"

definition write_offset :: "'d BlkDriver list \<Rightarrow> nat \<Rightarrow> 'd \<Rightarrow> usize \<Rightarrow> u8 list \<Rightarrow> 'd res" where
  "write_offset devs device_id d off buf =
     (case get_blk_device devs device_id of
        None \<Rightarrow> Panic
      | Some dev \<Rightarrow> write_offset_loop dev buf (div_ceil (length buf) 512) (off div 512) (off mod 512) 0 d)"

section \<open>The disk of the ext4 library in C\<close>

record Ext4DiskWrapper =
  dw_block :: usize
  dw_offset :: usize
  dw_blk_id :: nat

definition disk_new :: "nat \<Rightarrow> Ext4DiskWrapper" where
  "disk_new i = \<lparr>dw_block = 0, dw_offset = 0, dw_blk_id = i\<rparr>"

definition disk_position :: "Ext4DiskWrapper \<Rightarrow> usize" where
  "disk_position w = uadd (umul (dw_block w) 0x200) (dw_offset w)"

definition disk_set_position :: "usize \<Rightarrow> Ext4DiskWrapper \<Rightarrow> Ext4DiskWrapper" where
  "disk_set_position p w = w\<lparr>dw_block := p div 0x200, dw_offset := p mod 0x200\<rparr>"

text \<open>Reading and writing always go to the first device.\<close>

definition disk_write :: "'d BlkDriver list \<Rightarrow> 'd \<Rightarrow> Ext4DiskWrapper \<Rightarrow> u8 list \<Rightarrow> ('d \<times> Ext4DiskWrapper \<times> nat) res" where
  "disk_write devs d w buf =
     (if dw_offset w mod 0x200 \<noteq> 0 then Panic
      else case get_blk_device devs 0 of
        None \<Rightarrow> Panic
      | Some dev \<Rightarrow>
          rmap (\<lambda>d'. (d', w\<lparr>dw_block := uadd (dw_block w) (length buf div 0x200)\<rparr>, length buf)) (write_blocks dev d (dw_block w) buf))"

definition disk_read :: "'d BlkDriver list \<Rightarrow> 'd \<Rightarrow> Ext4DiskWrapper \<Rightarrow> nat \<Rightarrow> (Ext4DiskWrapper \<times> u8 list) res" where
  "disk_read devs d w n =
     (if dw_offset w mod 0x200 \<noteq> 0 then Panic
      else case get_blk_device devs 0 of
        None \<Rightarrow> Panic
      | Some dev \<Rightarrow> rmap (\<lambda>xs. (w\<lparr>dw_block := uadd (dw_block w) (n div 0x200)\<rparr>, xs)) (read_blocks dev d (dw_block w) n))"

text \<open>
  The offset is a signed number of 64 bits; the sum with an unsigned one is checked.  \<open>None\<close> is the error
  \<open>-1\<close> of the library.
\<close>

definition checked_add_signed :: "usize \<Rightarrow> int \<Rightarrow> usize option" where
  "checked_add_signed a i = (if 0 \<le> int a + i \<and> int a + i < int USIZE then Some (nat (int a + i)) else None)"

definition disk_seek :: "'d BlkDriver list \<Rightarrow> 'd \<Rightarrow> Ext4DiskWrapper \<Rightarrow> int \<Rightarrow> nat \<Rightarrow> (Ext4DiskWrapper \<times> usize) option res" where
  "disk_seek devs d w off whence =
     (case get_blk_device devs (dw_blk_id w) of
        None \<Rightarrow> Panic
      | Some dev \<Rightarrow>
          Ok (map_option (\<lambda>p. (disk_set_position p w, p))
            (if whence = 1 then checked_add_signed (disk_position w) off
             else if whence = 2 then checked_add_signed (capacity dev d) off
             else Some (nat (off mod int USIZE)))))"

section \<open>Replacing a part of the bytes\<close>

lemma overwrite_nested:
  assumes "o0 + length ys \<le> w" "at + w \<le> length B"
  shows "overwrite B at (overwrite (take w (drop at B)) o0 ys) = overwrite B (at + o0) ys"
proof (rule nth_equalityI)
  have l: "length (overwrite (take w (drop at B)) o0 ys) = w" using assms by simp
  show "length (overwrite B at (overwrite (take w (drop at B)) o0 ys)) = length (overwrite B (at + o0) ys)"
    using assms l by (subst (1 2) length_overwrite) simp_all
  fix i
  assume "i < length (overwrite B at (overwrite (take w (drop at B)) o0 ys))"
  then have i: "i < length B" using assms l by (subst (asm) length_overwrite) simp_all
  have w: "length (take w (drop at B)) = w" using assms by simp
  have j: "overwrite (take w (drop at B)) o0 ys ! (i - at) = (if o0 \<le> i - at \<and> i - at < o0 + length ys then ys ! (i - at - o0) else B ! i)"
    if "at \<le> i" "i < at + w"
    using nth_overwrite [of o0 ys "take w (drop at B)" "i - at"] nth_drop [of at B "i - at"] assms that unfolding w by auto
  show "overwrite B at (overwrite (take w (drop at B)) o0 ys) ! i = overwrite B (at + o0) ys ! i"
    using assms l i j by (auto simp: nth_overwrite)
qed

lemma overwrite_append:
  assumes "at + length xs + length ys \<le> length B"
  shows "overwrite (overwrite B at xs) (at + length xs) ys = overwrite B at (xs @ ys)"
  using assms by (simp add: overwrite_def ac_simps)

lemma overwrite_Nil [simp]: "overwrite B at [] = B"
  by (simp add: overwrite_def)

lemma take_drop_overwrite: "at + length xs \<le> length B \<Longrightarrow> n = length xs \<Longrightarrow> take n (drop at (overwrite B at xs)) = xs"
  by (simp add: overwrite_read)

lemma take_drop_sector:
  assumes "o0 + k \<le> w"
  shows "take k (drop o0 (take w (drop at B))) = take k (drop (at + o0) B)"
  using assms by (simp add: drop_take add.commute min_def)

lemma min_shift: "a \<le> w \<Longrightarrow> min (a + n) w - a = min n (w - a)" for a n w :: nat
  by arith

lemma take_drop_append: "take a (drop p B) @ take b (drop (p + a) B) = take (a + b) (drop p B)" if "p + a \<le> length B"
  using that by (simp add: take_add add.commute)

section \<open>The position of a cursor\<close>

definition cursor_at :: "DiskCursor \<Rightarrow> nat \<Rightarrow> bool" where
  "cursor_at c p \<longleftrightarrow> cur_sector c * 512 + cur_offset c = p \<and> cur_offset c < 512 \<and> cur_device c = 0"

lemma cursor_at_set: "cur_device c = 0 \<Longrightarrow> cursor_at (cursor_set_position p c) p"
  by (simp add: cursor_at_def cursor_set_position_def)

lemma cursor_at_position: "cursor_at c p \<Longrightarrow> p < USIZE \<Longrightarrow> cursor_position c = p"
  by (auto simp: cursor_at_def cursor_position_def usize_simps)

lemma cursor_at_move: "cursor_at c p \<Longrightarrow> p + k < USIZE \<Longrightarrow> cursor_at (move_cursor k c) (p + k)"
  using cursor_at_position [of c p] cursor_at_set [of c "p + k"] by (simp add: move_cursor_def cursor_at_def usize_simps)

text \<open>
  What is left after the first sector is less than a sector, or whole sectors: otherwise
  the length of a buffer that starts at a sector is not a multiple of the sector size and the device
  panics.
\<close>

definition sector_fit :: "nat \<Rightarrow> nat \<Rightarrow> bool" where
  "sector_fit p n \<longleftrightarrow> (let r = (if p mod 512 = 0 then n else n - min n (512 - p mod 512)) in r < 512 \<or> r mod 512 = 0)"

lemma sector_fit_step:
  assumes "sector_fit (b * 512 + o0) n" "o0 < 512" "o0 \<noteq> 0 \<or> n < 512"
  shows "sector_fit (b * 512 + o0 + min n (512 - o0)) (n - min n (512 - o0))"
proof (cases "n \<le> 512 - o0")
  case False
  have m: "(b * 512 + o0) mod 512 = o0" using assms(2) by simp
  have e: "b * 512 + o0 + min n (512 - o0) = (b + 1) * 512" using False assms(2) by simp
  have r: "n - min n (512 - o0) < 512 \<or> (n - min n (512 - o0)) mod 512 = 0"
    using assms(1,3) False unfolding sector_fit_def m Let_def by (simp split: if_splits)
  show ?thesis unfolding e sector_fit_def Let_def mod_mult_self2_is_0 using r by simp
qed (simp add: sector_fit_def)

section \<open>What the adapters rely on\<close>

text \<open>
  A device whose state has a sequence of bytes: reading and writing whole sectors that end
  before the last byte reads and replaces exactly those bytes.
\<close>

locale block_device =
  fixes dev :: "'d BlkDriver" and bytes :: "'d \<Rightarrow> u8 list" and ok :: "'d \<Rightarrow> bool"
  assumes size: "ok d \<Longrightarrow> length (bytes d) < USIZE"
    and read_law: "ok d \<Longrightarrow> n mod 512 = 0 \<Longrightarrow> b * 512 + n < length (bytes d) \<Longrightarrow>
      read_blocks dev d b n = Ok (take n (drop (b * 512) (bytes d)))"
    and write_law: "ok d \<Longrightarrow> length x mod 512 = 0 \<Longrightarrow> b * 512 + length x < length (bytes d) \<Longrightarrow>
      \<exists>d'. write_blocks dev d b x = Ok d' \<and> ok d' \<and> bytes d' = overwrite (bytes d) (b * 512) x"
begin

lemma read_sector:
  "ok d \<Longrightarrow> b * 512 + 512 < length (bytes d) \<Longrightarrow> read_blocks dev d b 512 = Ok (take 512 (drop (b * 512) (bytes d)))"
  by (rule read_law) simp_all

lemma write_sector:
  assumes "ok d" "length x = 512" "b * 512 + 512 < length (bytes d)"
  obtains d' where "write_blocks dev d b x = Ok d'" "ok d'" "bytes d' = overwrite (bytes d) (b * 512) x"
  using write_law [OF assms(1), of x b] assms(2,3) by auto

lemma read_step:
  assumes d: "ok d" and c: "cursor_at c p" and n: "0 < n" "sector_fit p n" "p + n + 512 \<le> length (bytes d)"
  obtains k c' where "cursor_read (dev # ds) d c n = Ok (c', take k (drop p (bytes d)))" "0 < k" "k \<le> n"
    "cursor_at c' (p + k)" "sector_fit (p + k) (n - k)"
proof -
  define b o0 where "b = cur_sector c" and "o0 = cur_offset c"
  have p: "p = b * 512 + o0" "o0 < 512" "cur_sector c = b" "cur_offset c = o0" "cur_device c = 0"
    using c by (simp_all add: cursor_at_def b_def o0_def)
  have u: "p + n < USIZE" using size [OF d] n(3) by simp
  show ?thesis
  proof (cases "o0 \<noteq> 0 \<or> n < 512")
    case True
    let ?k = "min n (512 - o0)"
    have k: "min (o0 + n) 512 - o0 = ?k" using p(2) by (intro min_shift) simp
    have "b * 512 + 512 < length (bytes d)" using n p(1) by simp
    then have r: "read_blocks dev d b 512 = Ok (take 512 (drop (b * 512) (bytes d)))" by (rule read_sector [OF d])
    have "take ?k (drop o0 (take 512 (drop (b * 512) (bytes d)))) = take ?k (drop p (bytes d))"
      unfolding p(1) by (rule take_drop_sector) (use p(2) in simp)
    then have "cursor_read (dev # ds) d c n = Ok (move_cursor ?k c, take ?k (drop p (bytes d)))"
      unfolding cursor_read_def get_blk_device_def p(3-5) Let_def k using True by (simp add: r)
    moreover have "cursor_at (move_cursor ?k c) (p + ?k)" by (rule cursor_at_move [OF c]) (use u in simp)
    ultimately show ?thesis using that [of _ ?k] sector_fit_step [OF n(2) [unfolded p(1)] p(2) True, folded p(1)] n(1) p(2) by simp
  next
    case False
    then have z: "o0 = 0" "\<not> n < 512" by simp_all
    then have m: "n mod 512 = 0" "n div 512 * 512 = n" using n(2) unfolding p(1) sector_fit_def by auto
    have "read_blocks dev d b n = Ok (take n (drop (b * 512) (bytes d)))"
      using m(1) n p(1) z by (intro read_law [OF d]) simp_all
    then have "cursor_read (dev # ds) d c n = Ok (move_cursor n c, take n (drop p (bytes d)))"
      unfolding cursor_read_def get_blk_device_def p(3-5) Let_def m(2) by (simp add: z p(1))
    then show ?thesis using that [of _ n] cursor_at_move [OF c u] n(1) by (simp add: sector_fit_def)
  qed
qed

lemma read_exact_ok:
  assumes "ok d" "cursor_at c p" "sector_fit p n" "p + n + 512 \<le> length (bytes d)" "n \<le> fuel"
  shows "\<exists>c'. read_exact (dev # ds) fuel d c n = Some (Ok (c', take n (drop p (bytes d)))) \<and> cursor_at c' (p + n)"
  using assms(2-)
proof (induction fuel arbitrary: c p n)
  case (Suc fuel)
  show ?case
  proof (cases n)
    case (Suc m)
    then have "0 < n" by simp
    then obtain k c' where k: "cursor_read (dev # ds) d c n = Ok (c', take k (drop p (bytes d)))" "0 < k" "k \<le> n"
      "cursor_at c' (p + k)" "sector_fit (p + k) (n - k)"
      using read_step [OF assms(1) Suc.prems(1) _ Suc.prems(2,3)] by blast
    have l: "length (take k (drop p (bytes d))) = k" using k(3) Suc.prems(3) by simp
    have "(p + k) + (n - k) + 512 \<le> length (bytes d)" "n - k \<le> fuel" using k(2,3) Suc.prems(3,4) by linarith+
    from Suc.IH [OF k(4,5) this] obtain c2 where
      c2: "read_exact (dev # ds) fuel d c' (n - k) = Some (Ok (c2, take (n - k) (drop (p + k) (bytes d))))" "cursor_at c2 (p + n)"
      using k(3) by auto
    have "take k (drop p (bytes d)) @ take (n - k) (drop (p + k) (bytes d)) = take n (drop p (bytes d))"
      using take_drop_append [of p k "bytes d" "n - k"] k(3) Suc.prems(3) by simp
    then show ?thesis using Suc k(1) l c2 by simp
  qed (use Suc.prems in simp)
qed simp

lemma write_step:
  assumes d: "ok d" and c: "cursor_at c p" and x: "x \<noteq> []" "p + length x + 512 \<le> length (bytes d)"
  obtains k c' d' where "cursor_write (dev # ds) d c x = Ok (d', c', k)" "0 < k" "k \<le> length x" "ok d'"
    "cursor_at c' (p + k)" "bytes d' = overwrite (bytes d) p (take k x)"
proof -
  define b o0 where "b = cur_sector c" and "o0 = cur_offset c"
  have p: "p = b * 512 + o0" "o0 < 512" "cur_sector c = b" "cur_offset c = o0" "cur_device c = 0"
    using c by (simp_all add: cursor_at_def b_def o0_def)
  have u: "p + length x < USIZE" using size [OF d] x(2) by simp
  have s: "b * 512 + 512 < length (bytes d)" using x p(1) by (cases x) simp_all
  show ?thesis
  proof (cases "o0 \<noteq> 0 \<or> length x < 512")
    case True
    let ?k = "min (length x) (512 - o0)"
    let ?new = "overwrite (take 512 (drop (b * 512) (bytes d))) o0 (take ?k x)"
    have k: "min (o0 + length x) 512 - o0 = ?k" using p(2) by (intro min_shift) simp
    have kx: "0 < ?k" "length (take ?k x) = ?k" "o0 + ?k \<le> 512" using x(1) p(2) by (cases x; simp)+
    have r: "read_blocks dev d b 512 = Ok (take 512 (drop (b * 512) (bytes d)))" by (rule read_sector [OF d s])
    have l: "length ?new = 512" using kx s by (subst length_overwrite) simp_all
    obtain d' where w: "write_blocks dev d b ?new = Ok d'" "ok d'" "bytes d' = overwrite (bytes d) (b * 512) ?new"
      by (rule write_sector [OF d l s]) (rule that)
    have "bytes d' = overwrite (bytes d) p (take ?k x)"
      unfolding w(3) p(1) by (rule overwrite_nested) (use kx s in simp_all)
    moreover have "cursor_write (dev # ds) d c x = Ok (d', move_cursor ?k c, ?k)"
      unfolding cursor_write_def get_blk_device_def p(3-5) Let_def k using True by (simp add: r w(1))
    moreover have "cursor_at (move_cursor ?k c) (p + ?k)" by (rule cursor_at_move [OF c]) (use u in simp)
    ultimately show ?thesis using that kx(1) w(2) by simp
  next
    case False
    then have z: "o0 = 0" "\<not> length x < 512" "length (take 512 x) = 512" by simp_all
    obtain d' where w: "write_blocks dev d b (take 512 x) = Ok d'" "ok d'" "bytes d' = overwrite (bytes d) (b * 512) (take 512 x)"
      by (rule write_sector [OF d z(3) s]) (rule that)
    have "cursor_write (dev # ds) d c x = Ok (d', move_cursor 512 c, 512)"
      unfolding cursor_write_def get_blk_device_def p(3-5) by (simp add: z w(1))
    moreover have "cursor_at (move_cursor 512 c) (p + 512)" by (rule cursor_at_move [OF c]) (use u z(2) in simp)
    ultimately show ?thesis using that [of d' _ 512] w(2,3) z p(1) by simp
  qed
qed

lemma write_all_ok:
  assumes "ok d" "cursor_at c p" "p + length x + 512 \<le> length (bytes d)" "length x \<le> fuel"
  shows "\<exists>d' c'. write_all (dev # ds) fuel d c x = Some (Ok (d', c')) \<and> ok d' \<and> bytes d' = overwrite (bytes d) p x \<and> cursor_at c' (p + length x)"
  using assms
proof (induction fuel arbitrary: d c p x)
  case (Suc fuel)
  show ?case
  proof (cases x)
    case (Cons a y)
    then obtain k c' d' where k: "cursor_write (dev # ds) d c x = Ok (d', c', k)" "0 < k" "k \<le> length x" "ok d'"
      "cursor_at c' (p + k)" "bytes d' = overwrite (bytes d) p (take k x)"
      using write_step [OF Suc.prems(1,2) _ Suc.prems(3)] by blast
    have l: "length (bytes d') = length (bytes d)" using k(3,6) Suc.prems(3) by simp
    have "p + k + length (drop k x) + 512 \<le> length (bytes d')" "length (drop k x) \<le> fuel"
      using k(2,3) Suc.prems(3,4) l by simp_all
    from Suc.IH [OF k(4,5) this] obtain d2 c2 where
      d2: "write_all (dev # ds) fuel d' c' (drop k x) = Some (Ok (d2, c2))" "ok d2" "bytes d2 = overwrite (bytes d') (p + k) (drop k x)"
        "cursor_at c2 (p + length x)" using k(3) by auto
    have "bytes d2 = overwrite (bytes d) p x"
      using overwrite_append [of p "take k x" "drop k x" "bytes d"] k(3,6) d2(3) Suc.prems(3) by simp
    then show ?thesis using Cons k(1) d2 by auto
  qed (use Suc.prems in simp)
qed simp

lemma read_offset_rest:
  assumes "ok d" "blk * 512 + k * 512 < length (bytes d)" "g + k * 512 \<le> length buf" "0 < g"
  shows "read_offset_loop dev d k blk 0 g buf = Ok (overwrite buf g (take (k * 512) (drop (blk * 512) (bytes d))))"
  using assms(2-)
proof (induction k arbitrary: blk g buf)
  case (Suc k)
  let ?A = "take 512 (drop (blk * 512) (bytes d))" and ?B = "take (k * 512) (drop ((blk + 1) * 512) (bytes d))"
  have lA: "length ?A = 512" and lB: "length ?B = k * 512" using Suc.prems(1) by simp_all
  have r: "read_blocks dev d blk 512 = Ok ?A" by (rule read_sector [OF assms(1)]) (use Suc.prems(1) in simp)
  have lo: "length (overwrite buf g ?A) = length buf" using Suc.prems(2) lA by (intro length_overwrite) simp
  have "(blk + 1) * 512 + k * 512 < length (bytes d)" "(g + 512) + k * 512 \<le> length (overwrite buf g ?A)" "0 < g + 512"
    using Suc.prems lo by simp_all
  note ih = Suc.IH [OF this]
  have "overwrite (overwrite buf g ?A) (g + 512) ?B = overwrite buf g (?A @ ?B)"
    using overwrite_append [of g ?A ?B buf] lA lB Suc.prems(2) by simp
  moreover have "?A @ ?B = take (Suc k * 512) (drop (blk * 512) (bytes d))"
    using take_drop_append [of "blk * 512" 512 "bytes d" "k * 512"] Suc.prems(1) by (simp add: algebra_simps)
  moreover have "read_offset_loop dev d (Suc k) blk 0 g buf = read_offset_loop dev d k (blk + 1) 0 (g + 512) (overwrite buf g ?A)"
    using r lA Suc.prems(2,3) by (simp add: Let_def)
  ultimately show ?case using ih by simp
qed simp

lemma read_offset_ok:
  assumes d: "ok d" and s: "off + BLOCK_SIZE < length (bytes d)"
  shows "read_offset (dev # ds) 0 d off = Ok (take (BLOCK_SIZE - off mod 512) (drop off (bytes d)) @ replicate (off mod 512) 0)"
proof -
  define b o0 where "b = off div 512" and "o0 = off mod 512"
  have p: "off = b * 512 + o0" "o0 < 512" by (simp_all add: b_def o0_def)
  let ?data = "take 512 (drop (b * 512) (bytes d))" and ?Z = "replicate 4096 0 :: u8 list"
  let ?A = "take (512 - o0) (drop o0 ?data)" and ?B = "take (7 * 512) (drop ((b + 1) * 512) (bytes d))"
  have l: "(b + 1) * 512 + 7 * 512 \<le> length (bytes d)" "b * 512 + 4096 + o0 < length (bytes d)" using s p(1) by (simp_all add: BLOCK_SIZE_def)
  have ld: "length ?data = 512" "length ?A = 512 - o0" "length ?B = 7 * 512" using l p(2) by simp_all
  have r: "read_blocks dev d b 512 = Ok ?data" by (rule read_sector [OF d]) (use l in simp)
  have A: "?A = take (512 - o0) (drop off (bytes d))" unfolding p(1) by (rule take_drop_sector) (use p(2) in simp)
  have step: "read_offset_loop dev d (Suc 7) b o0 0 ?Z = read_offset_loop dev d 7 (b + 1) 0 (512 - o0) (overwrite ?Z 0 ?A)"
  proof -
    have g: "\<not> (512 - o0 > length ?Z \<or> o0 + (512 - o0) > length ?data)" unfolding ld(1) using p(2) by auto
    show ?thesis unfolding read_offset_loop.simps r rbind.simps Let_def if_P [OF refl] add_0 if_not_P [OF g] ..
  qed
  have "(b + 1) * 512 + 7 * 512 < length (bytes d)" using l by simp
  moreover have lo: "length (overwrite ?Z 0 ?A) = 4096" using ld(2) by (subst length_overwrite) simp_all
  moreover have "0 < 512 - o0" using p(2) by simp
  ultimately have rest: "read_offset_loop dev d 7 (b + 1) 0 (512 - o0) (overwrite ?Z 0 ?A) = Ok (overwrite (overwrite ?Z 0 ?A) (512 - o0) ?B)"
    by (intro read_offset_rest [OF d]) simp_all
  have "overwrite (overwrite ?Z 0 ?A) (512 - o0) ?B = overwrite ?Z 0 (?A @ ?B)"
    using overwrite_append [of 0 ?A ?B ?Z] ld(2,3) by simp
  also have "\<dots> = (?A @ ?B) @ replicate o0 0" using ld(2,3) p(2) by (simp add: overwrite_def)
  also have "?A @ ?B = take (BLOCK_SIZE - o0) (drop off (bytes d))"
    using take_drop_append [of off "512 - o0" "bytes d" "7 * 512"] l p unfolding A by (simp add: BLOCK_SIZE_def algebra_simps)
  finally have e: "overwrite (overwrite ?Z 0 ?A) (512 - o0) ?B = take (BLOCK_SIZE - o0) (drop off (bytes d)) @ replicate o0 0" .
  have "BLOCK_SIZE div 512 = Suc 7" "replicate BLOCK_SIZE 0 = ?Z" by (simp_all add: BLOCK_SIZE_def)
  then show ?thesis
    unfolding read_offset_def get_blk_device_def b_def [symmetric] o0_def [symmetric] using step rest e by simp
qed

lemma write_offset_rest:
  assumes "ok d" "512 \<le> length buf" "P = buf @ replicate m 0" "w + k * 512 = length P" "m < 512" "blk * 512 + k * 512 < length (bytes d)"
  shows "\<exists>d'. write_offset_loop dev buf k blk 0 w d = Ok d' \<and> ok d' \<and> bytes d' = overwrite (bytes d) (blk * 512) (drop w P)"
  using assms(1,4,6)
proof (induction k arbitrary: blk w d)
  case (Suc k)
  let ?n = "(if w + 512 > length buf then length buf else w + 512) - w"
  let ?A = "take 512 (drop w P)"
  have wl: "w + 512 \<le> length P" "w < length buf" "length P = length buf + m" using Suc.prems(2) assms(3,5) by auto
  have lA: "length ?A = 512" using wl(1) by simp
  have A: "overwrite (replicate 512 0) 0 (take ?n (drop w buf)) = ?A"
  proof (cases "w + 512 > length buf")
    case True
    have "m = 512 - (length buf - w) \<or> 512 - (length buf - w) \<le> m" using wl by linarith
    then show ?thesis using True wl unfolding assms(3) by (auto simp: overwrite_def min_def)
  qed (use wl in \<open>simp add: overwrite_def assms(3)\<close>)
  have "blk * 512 + 512 < length (bytes d)" using Suc.prems(3) by simp
  then obtain d1 where d1: "write_blocks dev d blk ?A = Ok d1" "ok d1" "bytes d1 = overwrite (bytes d) (blk * 512) ?A"
    using write_sector [OF Suc.prems(1) lA] by blast
  have lb: "length (bytes d1) = length (bytes d)" unfolding d1(3) using Suc.prems(3) lA by (subst length_overwrite) simp_all
  have step: "write_offset_loop dev buf (Suc k) blk 0 w d = write_offset_loop dev buf k (blk + 1) 0 (w + ?n) d1"
  proof -
    have g: "\<not> 0 + ?n > 512" "\<not> length buf < 512" using assms(2) by auto
    show ?thesis unfolding write_offset_loop.simps if_not_P [OF g(2)] rbind.simps Let_def if_not_P [OF g(1)] A d1(1) ..
  qed
  show ?case
  proof (cases k)
    case 0
    then show ?thesis using step d1 Suc.prems(2) by simp
  next
    case (Suc k')
    then have n: "w + ?n = w + 512" using Suc.prems(2) assms(5) wl by auto
    have "(w + 512) + k * 512 = length P" "(blk + 1) * 512 + k * 512 < length (bytes d1)" using Suc.prems lb by simp_all
    from Suc.IH [OF d1(2) this] obtain d' where
      d': "write_offset_loop dev buf k (blk + 1) 0 (w + 512) d1 = Ok d'" "ok d'" "bytes d' = overwrite (bytes d1) ((blk + 1) * 512) (drop (w + 512) P)"
      by blast
    have "overwrite (bytes d1) (blk * 512 + length ?A) (drop (w + 512) P) = overwrite (bytes d) (blk * 512) (?A @ drop (w + 512) P)"
      unfolding d1(3) by (rule overwrite_append) (use lA Suc.prems(2,3) in simp)
    moreover have "?A @ drop (w + 512) P = drop w P" using append_take_drop_id [of 512 "drop w P"] by (simp add: add.commute)
    moreover have "(blk + 1) * 512 = blk * 512 + length ?A" using lA by simp
    ultimately have "bytes d' = overwrite (bytes d) (blk * 512) (drop w P)" using d'(3) by metis
    then show ?thesis unfolding step n using d'(1,2) by blast
  qed
qed (simp add: assms)

lemma write_offset_ok:
  assumes d: "ok d" and s: "off + length buf + 512 < length (bytes d)"
  shows "if off mod 512 + min (length buf) 512 > 512 then write_offset (dev # ds) 0 d off buf = Panic
    else \<exists>d'. write_offset (dev # ds) 0 d off buf = Ok d' \<and> ok d' \<and> bytes d' = overwrite (bytes d) off
      (if length buf < 512 then buf else buf @ replicate (div_ceil (length buf) 512 * 512 - length buf) 0)"
proof -
  define b o0 where "b = off div 512" and "o0 = off mod 512"
  have p: "off = b * 512 + o0" "o0 < 512" by (simp_all add: b_def o0_def)
  let ?k = "div_ceil (length buf) 512"
  have w: "write_offset (dev # ds) 0 d off buf = write_offset_loop dev buf ?k b o0 0 d"
    unfolding write_offset_def get_blk_device_def b_def o0_def by simp
  have sec: "b * 512 + 512 < length (bytes d)" using s p(1) by simp
  show ?thesis unfolding w o0_def [symmetric]
  proof (cases "length buf < 512")
    case True
    show "if o0 + min (length buf) 512 > 512 then write_offset_loop dev buf ?k b o0 0 d = Panic else \<exists>d'. write_offset_loop dev buf ?k b o0 0 d = Ok d' \<and>
        ok d' \<and> bytes d' = overwrite (bytes d) off (if length buf < 512 then buf else buf @ replicate (?k * 512 - length buf) 0)"
    proof (cases "buf = []")
      case False
      let ?new = "overwrite (take 512 (drop (b * 512) (bytes d))) o0 buf"
      have k: "?k = Suc 0" using True False by (simp add: div_ceil_def)
      have step: "write_offset_loop dev buf ?k b o0 0 d = (if o0 + length buf > 512 then Panic else write_blocks dev d b ?new)"
        unfolding k using True by (cases "write_blocks dev d b ?new") (simp_all add: Let_def read_sector [OF d sec])
      show ?thesis
      proof (cases "o0 + length buf > 512")
        case gt: False
        have l: "length ?new = 512" using gt sec by (subst length_overwrite) simp_all
        obtain d' where d': "write_blocks dev d b ?new = Ok d'" "ok d'" "bytes d' = overwrite (bytes d) (b * 512) ?new"
          by (rule write_sector [OF d l sec]) (rule that)
        have "bytes d' = overwrite (bytes d) off buf" unfolding d'(3) p(1) by (rule overwrite_nested) (use gt sec in simp_all)
        then show ?thesis using step d' gt True by simp
      qed (use step True in simp)
    qed (use d p(2) in \<open>simp add: div_ceil_def\<close>)
  next
    case False
    then have k: "?k = Suc (?k - 1)" by (auto simp: div_ceil_def)
    show "if o0 + min (length buf) 512 > 512 then write_offset_loop dev buf ?k b o0 0 d = Panic else \<exists>d'. write_offset_loop dev buf ?k b o0 0 d = Ok d' \<and>
        ok d' \<and> bytes d' = overwrite (bytes d) off (if length buf < 512 then buf else buf @ replicate (?k * 512 - length buf) 0)"
    proof (cases "o0 = 0")
      case True
      let ?m = "?k * 512 - length buf"
      have c: "length buf \<le> ?k * 512" "?k * 512 < length buf + 512" using div_ceil_bounds [of 512 "length buf"] by simp_all
      have "\<exists>d'. write_offset_loop dev buf ?k b 0 0 d = Ok d' \<and> ok d' \<and> bytes d' = overwrite (bytes d) (b * 512) (drop 0 (buf @ replicate ?m 0))"
        by (rule write_offset_rest [OF d _ refl]) (use False c s p(1) in simp_all)
      then show ?thesis using True False p(1) by simp
    next
      case o: False
      then have g: "o0 + ((if 0 + 512 > length buf then length buf else 0 + 512) - 0) > 512" using False by simp
      have "write_offset_loop dev buf ?k b o0 0 d = Panic"
        by (subst k) (unfold write_offset_loop.simps if_not_P [OF False] rbind.simps Let_def if_P [OF g], rule refl)
      then show ?thesis using False o by simp
    qed
  qed
qed

end

section \<open>The RAM disk is a block device\<close>

definition disk_bytes :: "ramdisk \<Rightarrow> u8 list" where
  "disk_bytes s = (case s of (D, m) \<Rightarrow> map m [rd_start D..<rd_start D + rd_size D])"

definition disk_ok :: "ramdisk \<Rightarrow> bool" where
  "disk_ok s \<longleftrightarrow> rd_start (fst s) + rd_size (fst s) < USIZE"

lemma length_disk_bytes [simp]: "length (disk_bytes s) = rd_size (fst s)"
  by (simp add: disk_bytes_def split: prod.splits)

lemma ramdisk_read_law:
  assumes "disk_ok s" "n mod 512 = 0" "b * 512 + n < rd_size (fst s)"
  shows "ramdisk_read_blocks s b n = Ok (take n (drop (b * 512) (disk_bytes s)))"
proof -
  obtain D m where s: "s = (D, m)" by fastforce
  have u: "umul b 512 = b * 512" "uadd (b * 512) n = b * 512 + n" "uadd (rd_start D) (b * 512) = rd_start D + b * 512"
    using assms by (simp_all add: s disk_ok_def umul_le uadd_le)
  have "map (\<lambda>i. m (rd_start D + b * 512 + i)) [0..<n] = take n (drop (b * 512) (map m [rd_start D..<rd_start D + rd_size D]))"
    using assms(3) by (intro nth_equalityI) (simp_all add: s add.assoc)
  then show ?thesis using assms(2,3) by (simp add: ramdisk_read_blocks_def s u disk_bytes_def)
qed

lemma ramdisk_write_law:
  assumes "disk_ok s" "length x mod 512 = 0" "b * 512 + length x < rd_size (fst s)"
  shows "\<exists>s'. ramdisk_write_blocks s b x = Ok s' \<and> disk_ok s' \<and> disk_bytes s' = overwrite (disk_bytes s) (b * 512) x"
proof -
  obtain D m where s: "s = (D, m)" by fastforce
  have u: "umul b 512 = b * 512" "uadd (b * 512) (length x) = b * 512 + length x" "uadd (rd_start D) (b * 512) = rd_start D + b * 512"
    using assms by (simp_all add: s disk_ok_def umul_le uadd_le)
  let ?at = "rd_start D + b * 512"
  let ?m = "\<lambda>a. if ?at \<le> a \<and> a < ?at + length x then x ! (a - ?at) else m a"
  have "disk_bytes (D, ?m) = overwrite (disk_bytes s) (b * 512) x"
  proof (rule nth_equalityI)
    fix i
    assume "i < length (disk_bytes (D, ?m))"
    then have i: "i < rd_size D" by simp
    have "overwrite (disk_bytes s) (b * 512) x ! i = (if b * 512 \<le> i \<and> i < b * 512 + length x then x ! (i - b * 512) else disk_bytes s ! i)"
      using assms(3) i by (intro nth_overwrite) (simp_all add: s)
    then show "disk_bytes (D, ?m) ! i = overwrite (disk_bytes s) (b * 512) x ! i"
      using i by (simp add: disk_bytes_def s)
  qed (use assms(3) in \<open>simp add: s\<close>)
  then show ?thesis using assms by (simp add: ramdisk_write_blocks_def s u disk_ok_def Let_def)
qed

interpretation ram_blocks: block_device ramdisk_driver disk_bytes disk_ok
proof unfold_locales
  show "length (disk_bytes s) < USIZE" if "disk_ok s" for s using that by (simp add: disk_ok_def)
  show "read_blocks ramdisk_driver s b n = Ok (take n (drop (b * 512) (disk_bytes s)))"
    if "disk_ok s" "n mod 512 = 0" "b * 512 + n < length (disk_bytes s)" for s b n
    using ramdisk_read_law [OF that(1,2)] that(3) by (simp add: ramdisk_driver_def)
  show "\<exists>s'. write_blocks ramdisk_driver s b x = Ok s' \<and> disk_ok s' \<and> disk_bytes s' = overwrite (disk_bytes s) (b * 512) x"
    if "disk_ok s" "length x mod 512 = 0" "b * 512 + length x < length (disk_bytes s)" for s b x
    using ramdisk_write_law [OF that(1,2)] that(3) by (simp add: ramdisk_driver_def)
qed

section \<open>Properties\<close>

text \<open>
  C19: bytes written through the cursor of the FAT file system are read back, at any position and in any length.
  Writing a buffer succeeds and replaces exactly the bytes of the disk at the position, whatever its place in the
  sectors; after seeking back, reading the same number of bytes returns the buffer and leaves the cursor behind it.
  The read needs a buffer whose part after the first sector is less than a sector or whole sectors, and all of it
  lies before the last sector of the disk, which the driver refuses.
\<close>

theorem disk_cursor_round_trip:
  assumes "disk_ok s" "cursor_at c p" "sector_fit p (length x)" "p + length x + 512 \<le> rd_size (fst s)" "length x \<le> fuel"
  shows "\<exists>s' c1 c2 c3. write_all [ramdisk_driver] fuel s c x = Some (Ok (s', c1)) \<and>
    disk_bytes s' = overwrite (disk_bytes s) p x \<and> cursor_seek c1 (FromStart p) = Ok (c2, p) \<and>
    read_exact [ramdisk_driver] fuel s' c2 (length x) = Some (Ok (c3, x)) \<and> cursor_position c3 = p + length x"
proof -
  have s: "p + length x + 512 \<le> length (disk_bytes s)" using assms(4) by simp
  obtain s' c1 where w: "write_all [ramdisk_driver] fuel s c x = Some (Ok (s', c1))" "disk_ok s'" "disk_bytes s' = overwrite (disk_bytes s) p x"
    "cursor_at c1 (p + length x)" using ram_blocks.write_all_ok [OF assms(1,2) s assms(5)] by blast
  let ?c2 = "cursor_set_position p c1"
  have c2: "cursor_at ?c2 p" using w(4) by (intro cursor_at_set) (simp add: cursor_at_def)
  have l: "length (disk_bytes s') = length (disk_bytes s)" unfolding w(3) using s by (intro length_overwrite) simp
  obtain c3 where r: "read_exact [ramdisk_driver] fuel s' ?c2 (length x) = Some (Ok (c3, take (length x) (drop p (disk_bytes s'))))"
    "cursor_at c3 (p + length x)" using ram_blocks.read_exact_ok [OF w(2) c2 assms(3) _ assms(5)] s l by auto
  have "take (length x) (drop p (disk_bytes s')) = x" unfolding w(3) using s by (intro overwrite_read) simp
  moreover have "cursor_position c3 = p + length x"
    by (rule cursor_at_position [OF r(2)]) (use assms(1,4) in \<open>simp add: disk_ok_def\<close>)
  ultimately show ?thesis using w(1,3) r(1) by (auto simp: cursor_seek_def)
qed

definition small_disk :: ramdisk where
  "small_disk = (\<lparr>rd_start = 0x1000, rd_size = 0x800\<rparr>, \<lambda>_. 0)"

theorem disk_cursor_round_trip_witness:
  "\<exists>s' c1 c2 c3. write_all [ramdisk_driver] 3 small_disk \<lparr>cur_sector = 0, cur_offset = 511, cur_device = 0\<rparr> [1, 2, 3] = Some (Ok (s', c1)) \<and>
    cursor_seek c1 (FromStart 511) = Ok (c2, 511) \<and> read_exact [ramdisk_driver] 3 s' c2 (length [1, 2, 3 :: u8]) = Some (Ok (c3, [1, 2, 3])) \<and> cursor_position c3 = 514"
  using disk_cursor_round_trip [of small_disk "\<lparr>cur_sector = 0, cur_offset = 511, cur_device = 0\<rparr>" 511 "[1, 2, 3]" 3]
  by (auto simp: disk_ok_def small_disk_def cursor_at_def sector_fit_def USIZE_def)



text \<open>The last sector of the RAM disk cannot be read.\<close>

theorem ramdisk_last_sector_panics:
  assumes "disk_ok s" "rd_size (fst s) = (b + 1) * 512"
  shows "ramdisk_read_blocks s b 512 = Panic"
proof -
  have "umul b 512 = b * 512" "uadd (b * 512) 512 = (b + 1) * 512" using assms by (simp_all add: disk_ok_def usize_simps)
  then show ?thesis using assms(2) by (cases s) (simp add: ramdisk_read_blocks_def)
qed

end
