(* ===== verification/Ext4.thy ===== *)
theory Ext4
  imports Files
begin

text \<open>
  The root file system, \<^verbatim>\<open>filesystem/fs/src/ext4_shim.rs\<close>: the inode interface on top of the ext4 library
  in C.  The library is a record of functions on its state \<open>'s\<close>, which includes the file that is open; an error of the library is
  its number.  An inode is the path and the type its file object was made with: the object is opened and closed inside
  each operation, under the lock of the inode.
\<close>

section \<open>The library\<close>

datatype InodeTypes =
    EXT4_DE_UNKNOWN | EXT4_DE_REG_FILE | EXT4_DE_DIR | EXT4_DE_CHRDEV | EXT4_DE_BLKDEV | EXT4_DE_FIFO | EXT4_DE_SOCK | EXT4_DE_SYMLINK
  | EXT4_INODE_MODE_FIFO | EXT4_INODE_MODE_CHARDEV | EXT4_INODE_MODE_DIRECTORY | EXT4_INODE_MODE_BLOCKDEV | EXT4_INODE_MODE_FILE
  | EXT4_INODE_MODE_SOFTLINK | EXT4_INODE_MODE_SOCKET | EXT4_INODE_MODE_TYPE_MASK

definition map_ext4_type :: "InodeTypes \<Rightarrow> FileType res" where
  "map_ext4_type value =
     (case value of
        EXT4_DE_UNKNOWN \<Rightarrow> Ok File
      | EXT4_DE_REG_FILE \<Rightarrow> Ok File
      | EXT4_DE_DIR \<Rightarrow> Ok Directory
      | EXT4_DE_CHRDEV \<Rightarrow> Ok Device
      | EXT4_DE_BLKDEV \<Rightarrow> Ok Device
      | EXT4_DE_FIFO \<Rightarrow> Ok Device
      | EXT4_DE_SOCK \<Rightarrow> Ok Socket
      | EXT4_DE_SYMLINK \<Rightarrow> Ok Link
      | _ \<Rightarrow> Panic)"

record 's Ext4Lib =
  l_open :: "'s \<Rightarrow> string \<Rightarrow> nat \<Rightarrow> 's \<times> (nat + unit)"
  l_seek :: "'s \<Rightarrow> usize \<Rightarrow> 's \<times> (nat + unit)"
  l_read :: "'s \<Rightarrow> nat \<Rightarrow> 's \<times> (nat + u8 list)"
  l_write :: "'s \<Rightarrow> u8 list \<Rightarrow> 's \<times> (nat + nat)"
  l_close :: "'s \<Rightarrow> 's \<times> (nat + unit)"
  l_truncate :: "'s \<Rightarrow> usize \<Rightarrow> 's \<times> (nat + unit)"
  l_dir_mk :: "'s \<Rightarrow> string \<Rightarrow> 's \<times> (nat + unit)"
  l_dir_rm :: "'s \<Rightarrow> string \<Rightarrow> 's \<times> (nat + unit)"
  l_file_remove :: "'s \<Rightarrow> string \<Rightarrow> 's \<times> (nat + unit)"
  l_exists :: "'s \<Rightarrow> string \<Rightarrow> InodeTypes \<Rightarrow> bool"
  l_entries :: "'s \<Rightarrow> string \<Rightarrow> nat + (u8 list \<times> InodeTypes) list"
  l_symlink :: "'s \<Rightarrow> string \<Rightarrow> string \<Rightarrow> 's \<times> (nat + unit)"
  l_readlink :: "'s \<Rightarrow> string \<Rightarrow> nat \<Rightarrow> nat + u8 list"
  l_inode_num :: "'s \<Rightarrow> string \<Rightarrow> u64 option"
  l_size :: "'s \<Rightarrow> usize"
  l_errno :: "nat \<Rightarrow> errno"
  l_utf8 :: "u8 list \<Rightarrow> string option"
  l_lossy :: "u8 list \<Rightarrow> string"

record Ext4Node =
  ef_path :: string
  ef_type :: InodeTypes

text \<open>\<^verbatim>\<open>map_err(map_ext4_err)?\<close> after a call of the library.\<close>

definition l_then :: "'s Ext4Lib \<Rightarrow> 's \<times> (nat + 'a) \<Rightarrow> ('s \<Rightarrow> 'a \<Rightarrow> 's \<times> 'b res) \<Rightarrow> 's \<times> 'b res" where
  "l_then L r k = (case r of (s, Inl e) \<Rightarrow> (s, Err (l_errno L e)) | (s, Inr x) \<Rightarrow> k s x)"

section \<open>Paths\<close>

definition trim_matches :: "string \<Rightarrow> string" where
  "trim_matches s = rev (dropWhile (\<lambda>c. c = SLASH) (rev (dropWhile (\<lambda>c. c = SLASH) s)))"

definition trim_end_matches :: "string \<Rightarrow> string" where
  "trim_end_matches s = rev (dropWhile (\<lambda>c. c = SLASH) (rev s))"

text \<open>\<^verbatim>\<open>p.replace("//", "/")\<close>\<close>

fun replace_double :: "string \<Rightarrow> string" where
  "replace_double (a # b # s) = (if a = SLASH \<and> b = SLASH then SLASH # replace_double s else a # replace_double (b # s))"
| "replace_double s = s"

lemma length_trim_matches: "length (trim_matches s) \<le> length s"
  unfolding trim_matches_def length_rev by (rule order_trans [OF length_dropWhile_le]) (simp add: length_dropWhile_le)

lemma length_replace_double: "length (replace_double s) \<le> length s"
  by (induction s rule: replace_double.induct) auto

lemma replace_double_shorter: "replace_double s \<noteq> s \<Longrightarrow> length (replace_double s) < length s"
proof (induction s rule: replace_double.induct)
  case (1 a b s)
  then show ?case using length_replace_double [of s] by auto
qed simp_all

function path_deal_with :: "string \<Rightarrow> string \<Rightarrow> string" where
  "path_deal_with base path =
     (let p = trim_matches path in
      if p = [] \<or> p = ''.'' then []
      else if take 2 p = ''./'' then path_deal_with base (drop 2 p)
      else if p \<noteq> replace_double p then path_deal_with base (replace_double p)
      else trim_end_matches base @ ''/'' @ p)"
  by pat_completeness auto
termination
proof (relation "measure (\<lambda>(_, path). length path)", goal_cases)
  case (2 base path p)
  then have "length (take 2 p) = 2" by simp
  then have "2 \<le> length p" by simp
  then show ?case using length_trim_matches [of path] 2(1) by simp
next
  case (3 base path p)
  then show ?case using length_trim_matches [of path] replace_double_shorter [of p] by fastforce
qed simp

declare path_deal_with.simps [simp del]

section \<open>The operations\<close>

definition ext4_new :: "string \<Rightarrow> InodeTypes \<Rightarrow> Ext4Node" where
  "ext4_new path ty = \<lparr>ef_path = path, ef_type = ty\<rparr>"

definition ext4_root :: Ext4Node where
  "ext4_root = ext4_new ''/'' EXT4_DE_DIR"

definition read_attempt :: "'s Ext4Lib \<Rightarrow> Ext4Node \<Rightarrow> 's \<Rightarrow> usize \<Rightarrow> nat \<Rightarrow> 's \<times> (nat + u8 list)" where
  "read_attempt L f s off n =
     (case l_open L s (ef_path f) 0 of
        (s1, Inl e) \<Rightarrow> (s1, Inl e)
      | (s1, Inr _) \<Rightarrow>
          (case l_seek L s1 off of
             (s2, Inl e) \<Rightarrow> (fst (l_close L s2), Inl e)
           | (s2, Inr _) \<Rightarrow> (case l_read L s2 n of (s3, r) \<Rightarrow> (fst (l_close L s3), r))))"

definition MAX_RETRIES :: nat where
  "MAX_RETRIES = 3"

primrec read_attempts :: "nat \<Rightarrow> 's Ext4Lib \<Rightarrow> Ext4Node \<Rightarrow> 's \<Rightarrow> usize \<Rightarrow> nat \<Rightarrow> 's \<times> u8 list res" where
  "read_attempts 0 L f s off n = (s, Err (l_errno L 5))"
| "read_attempts (Suc k) L f s off n =
     (case read_attempt L f s off n of
        (s1, Inr d) \<Rightarrow> (s1, Ok d)
      | (s1, Inl e) \<Rightarrow> if k = 0 then (s1, Err (l_errno L e)) else read_attempts k L f s1 off n)"

definition ext4_readat :: "'s Ext4Lib \<Rightarrow> Ext4Node \<Rightarrow> 's \<Rightarrow> usize \<Rightarrow> nat \<Rightarrow> 's \<times> u8 list res" where
  "ext4_readat L f s off n = read_attempts MAX_RETRIES L f s off n"

definition ext4_writeat :: "'s Ext4Lib \<Rightarrow> Ext4Node \<Rightarrow> 's \<Rightarrow> usize \<Rightarrow> u8 list \<Rightarrow> 's \<times> nat res" where
  "ext4_writeat L f s off buffer =
     l_then L (l_open L s (ef_path f) 2) (\<lambda>s1 _.
       l_then L (l_seek L s1 off) (\<lambda>s2 _.
         l_then L (l_write L s2 buffer) (\<lambda>s3 wsize. (fst (l_close L s3), Ok wsize))))"

definition ext4_mkdir :: "'s Ext4Lib \<Rightarrow> Ext4Node \<Rightarrow> 's \<Rightarrow> string \<Rightarrow> 's \<times> unit res" where
  "ext4_mkdir L f s name = l_then L (l_dir_mk L s (path_deal_with (ef_path f) name)) (\<lambda>s1 _. (s1, Ok ()))"

definition ext4_symlink :: "'s Ext4Lib \<Rightarrow> Ext4Node \<Rightarrow> 's \<Rightarrow> string \<Rightarrow> string \<Rightarrow> 's \<times> unit res" where
  "ext4_symlink L f s name src =
     (let fpath = path_deal_with (ef_path f) name in
      if fpath = [] then (s, Ok ())
      else if l_exists L s fpath EXT4_DE_SYMLINK then (s, Err EEXIST)
      else l_then L (l_symlink L s src fpath) (\<lambda>s1 _. (s1, Ok ())))"

definition ext4_resolve_link :: "'s Ext4Lib \<Rightarrow> Ext4Node \<Rightarrow> 's \<Rightarrow> string res" where
  "ext4_resolve_link L f s =
     (case l_readlink L s (ef_path f) 100 of Inl e \<Rightarrow> Err (l_errno L e) | Inr d \<Rightarrow> Ok (l_lossy L d))"

text \<open>\<^verbatim>\<open>CString::from_vec_with_nul\<close>: exactly one zero, at the end.\<close>

definition from_vec_with_nul :: "u8 list \<Rightarrow> u8 list option" where
  "from_vec_with_nul v = (if v \<noteq> [] \<and> last v = 0 \<and> 0 \<notin> set (butlast v) then Some (butlast v) else None)"

fun dir_entries :: "'s Ext4Lib \<Rightarrow> (u8 list \<times> InodeTypes) list \<Rightarrow> DirEntry list res" where
  "dir_entries L [] = Ok []"
| "dir_entries L ((name, ty) # es) =
     (case Option.bind (from_vec_with_nul name) (l_utf8 L) of
        None \<Rightarrow> Err EINVAL
      | Some x \<Rightarrow>
          rbind (map_ext4_type ty) (\<lambda>t. rmap (Cons \<lparr>de_filename = x, de_len = 0, de_type = t\<rparr>) (dir_entries L es)))"

definition ext4_read_dir :: "'s Ext4Lib \<Rightarrow> Ext4Node \<Rightarrow> 's \<Rightarrow> DirEntry list res" where
  "ext4_read_dir L f s = (case l_entries L s (ef_path f) of Inl e \<Rightarrow> Err (l_errno L e) | Inr es \<Rightarrow> dir_entries L es)"

definition ext4_lookup :: "'s Ext4Lib \<Rightarrow> Ext4Node \<Rightarrow> 's \<Rightarrow> string \<Rightarrow> Ext4Node res" where
  "ext4_lookup L f s name =
     (let fpath = path_deal_with (ef_path f) name in
      if fpath = [] then Ok (ext4_new ''/'' EXT4_DE_DIR)
      else if l_exists L s fpath EXT4_DE_DIR then Ok (ext4_new fpath EXT4_DE_DIR)
      else if l_exists L s fpath EXT4_DE_REG_FILE then Ok (ext4_new fpath EXT4_DE_REG_FILE)
      else if l_exists L s fpath EXT4_DE_SYMLINK then Ok (ext4_new fpath EXT4_DE_SYMLINK)
      else Err ENOENT)"

definition ext4_create :: "'s Ext4Lib \<Rightarrow> Ext4Node \<Rightarrow> 's \<Rightarrow> string \<Rightarrow> FileType \<Rightarrow> 's \<times> unit res" where
  "ext4_create L f s name ty =
     (case (case ty of Directory \<Rightarrow> Some EXT4_DE_DIR | File \<Rightarrow> Some EXT4_DE_REG_FILE | _ \<Rightarrow> None) of
        None \<Rightarrow> (s, Panic)
      | Some ext4_type \<Rightarrow>
          let fpath = path_deal_with (ef_path f) name in
          if fpath = [] then (s, Ok ())
          else if l_exists L s fpath ext4_type then (s, Ok ())
          else if ext4_type = EXT4_DE_DIR then l_then L (l_dir_mk L s fpath) (\<lambda>s1 _. (s1, Ok ()))
          else l_then L (l_open L s fpath 0x241) (\<lambda>s1 _. l_then L (l_close L s1) (\<lambda>s2 _. (s2, Ok ()))))"

definition ext4_truncate :: "'s Ext4Lib \<Rightarrow> Ext4Node \<Rightarrow> 's \<Rightarrow> usize \<Rightarrow> 's \<times> unit res" where
  "ext4_truncate L f s n =
     l_then L (l_open L s (ef_path f) 2) (\<lambda>s1 _. l_then L (l_truncate L s1 n) (\<lambda>s2 _. (fst (l_close L s2), Ok ())))"

definition ext4_unlink :: "'s Ext4Lib \<Rightarrow> Ext4Node \<Rightarrow> 's \<Rightarrow> string \<Rightarrow> 's \<times> unit res" where
  "ext4_unlink L f s name =
     (let fpath = path_deal_with (ef_path f) name in
      l_then L (if l_exists L s fpath EXT4_DE_DIR then l_dir_rm L s fpath else l_file_remove L s fpath) (\<lambda>s1 _. (s1, Ok ())))"

definition ext4_mode :: "InodeTypes \<Rightarrow> StatMode res" where
  "ext4_mode ty =
     (case ty of
        EXT4_DE_REG_FILE \<Rightarrow> Ok S_FILE
      | EXT4_DE_DIR \<Rightarrow> Ok S_DIR
      | EXT4_DE_BLKDEV \<Rightarrow> Ok S_BLOCK
      | EXT4_DE_SOCK \<Rightarrow> Ok S_SOCKET
      | EXT4_DE_SYMLINK \<Rightarrow> Ok S_LINK
      | _ \<Rightarrow> Panic)"

definition ext4_stat :: "'s Ext4Lib \<Rightarrow> Ext4Node \<Rightarrow> 's \<Rightarrow> Stat \<Rightarrow> 's \<times> Stat res" where
  "ext4_stat L f s st =
     (let is_file = (map_ext4_type (ef_type f) = Ok File) in
      l_then L (if is_file then l_open L s (ef_path f) 0 else (s, Inr ())) (\<lambda>s1 _.
        let ino = (if is_file then (case l_inode_num L s1 (ef_path f) of Some i \<Rightarrow> i | None \<Rightarrow> 1) else 1) in
        case ext4_mode (ef_type f) of
          Ok m \<Rightarrow>
            (if is_file then fst (l_close L s1) else s1,
             Ok (st\<lparr>st_ino := ino, st_mode := m, st_nlink := 1, st_uid := 0, st_gid := 0, st_size := l_size L s1, st_blksize := 512,
                    st_blocks := 0, st_rdev := 0, st_atime := time_zero, st_ctime := time_zero, st_mtime := time_zero\<rparr>))
        | _ \<Rightarrow> (s1, Panic)))"

text \<open>The method \<^verbatim>\<open>stat\<close> of the interface leaves the state as it is: the file it opens is closed again.\<close>

definition ext4_inode :: "'s Ext4Lib \<Rightarrow> (Ext4Node, 's) dispatch" where
  "ext4_inode L f = inode_default
     \<lparr>i_readat := ext4_readat L f,
      i_writeat := ext4_writeat L f,
      i_create := ext4_create L f,
      i_mkdir := ext4_mkdir L f,
      i_rmdir := ext4_unlink L f,
      i_remove := ext4_unlink L f,
      i_read_dir := ext4_read_dir L f,
      i_lookup := ext4_lookup L f,
      i_truncate := ext4_truncate L f,
      i_resolve_link := ext4_resolve_link L f,
      i_symlink := ext4_symlink L f,
      i_unlink := ext4_unlink L f,
      i_stat := \<lambda>s st. snd (ext4_stat L f s st),
      i_utimes := \<lambda>s _ _. (s, Ok ())\<rparr>"

section \<open>Paths of inodes\<close>

lemma dropWhile_hd: "s \<noteq> [] \<Longrightarrow> \<not> P (hd s) \<Longrightarrow> dropWhile P s = s"
  by (cases s) auto

lemma trim_matches_fix: "s \<noteq> [] \<Longrightarrow> hd s \<noteq> SLASH \<Longrightarrow> last s \<noteq> SLASH \<Longrightarrow> trim_matches s = s"
  by (simp add: trim_matches_def dropWhile_hd hd_rev)

lemma replace_double_fix: "SLASH \<notin> set s \<Longrightarrow> replace_double s = s"
  by (induction s rule: replace_double.induct) auto

lemma path_deal_with_component:
  assumes "component x"
  shows "path_deal_with base x = trim_end_matches base @ SLASH # x"
proof -
  have x: "x \<noteq> []" "x \<noteq> ''.''" "SLASH \<notin> set x" using assms by (auto simp: component_def)
  have "hd x \<noteq> SLASH" "last x \<noteq> SLASH" using x(3) hd_in_set [OF x(1)] last_in_set [OF x(1)] by metis+
  then have "trim_matches x = x" by (rule trim_matches_fix [OF x(1)])
  moreover have "take 2 x \<noteq> ''./''" using x(3) set_take_subset [of 2 x] by (auto simp: SLASH_def)
  ultimately show ?thesis using x replace_double_fix [OF x(3)] by (subst path_deal_with.simps) (simp add: Let_def SLASH_def)
qed

lemma intercalate_snoc: "pb \<noteq> [] \<Longrightarrow> intercalate (pb @ [x]) = intercalate pb @ SLASH # x"
  by (induction pb rule: intercalate.induct) auto

lemma last_intercalate: "path_wf pb \<Longrightarrow> pb \<noteq> [] \<Longrightarrow> intercalate pb \<noteq> [] \<and> last (intercalate pb) \<noteq> SLASH"
proof (induction pb rule: rev_induct)
  case (snoc x pb)
  then have x: "x \<noteq> []" "SLASH \<notin> set x" by (auto simp: path_wf_def component_def)
  then have "last x \<noteq> SLASH" using last_in_set [OF x(1)] by metis
  then show ?case using x intercalate_snoc [of pb x] by (cases "pb = []") auto
qed simp

lemma trim_path_string: "path_wf pb \<Longrightarrow> trim_end_matches (path_string pb) = (if pb = [] then [] else path_string pb)"
proof (cases "pb = []")
  case False
  assume "path_wf pb"
  from last_intercalate [OF this False] have "rev (path_string pb) \<noteq> []" "hd (rev (path_string pb)) \<noteq> SLASH"
    by (simp_all add: path_string_def hd_rev)
  then show ?thesis using False by (cases "rev (path_string pb)") (auto simp: trim_end_matches_def)
qed (simp add: trim_end_matches_def path_string_def)

text \<open>The path of an entry of a directory is the path of the directory with the name at its end.\<close>

lemma path_deal_with_step:
  assumes "path_wf pb" "component x"
  shows "path_deal_with (path_string pb) x = path_string (pb @ [x])"
  using trim_path_string [OF assms(1)] intercalate_snoc [of pb x]
  by (cases "pb = []") (simp_all add: path_deal_with_component [OF assms(2)] path_string_def)

lemma ext4_lookup_step:
  assumes "path_wf pb" "component x"
  shows "ext4_lookup L (ext4_new (path_string pb) ty) s x =
    (let p = path_string (pb @ [x]) in
     if l_exists L s p EXT4_DE_DIR then Ok (ext4_new p EXT4_DE_DIR)
     else if l_exists L s p EXT4_DE_REG_FILE then Ok (ext4_new p EXT4_DE_REG_FILE)
     else if l_exists L s p EXT4_DE_SYMLINK then Ok (ext4_new p EXT4_DE_SYMLINK)
     else Err ENOENT)"
  by (simp add: ext4_lookup_def ext4_new_def path_deal_with_step [OF assms] Let_def) (simp add: path_string_def)

lemma ext4_walk:
  assumes "path_wf (pb @ names)" "\<forall>i. 0 < i \<and> i \<le> length names \<longrightarrow> l_exists L s (path_string (pb @ take i names)) EXT4_DE_DIR"
  shows "walk (ext4_inode L) s (ext4_new (path_string pb) EXT4_DE_DIR) names = Ok (ext4_new (path_string (pb @ names)) EXT4_DE_DIR)"
  using assms
proof (induction names arbitrary: pb)
  case (Cons x names)
  have wf: "path_wf pb" "component x" using Cons.prems(1) by (auto simp: path_wf_def)
  have "l_exists L s (path_string (pb @ [x])) EXT4_DE_DIR" using Cons.prems(2) [rule_format, of 1] by simp
  then have "i_lookup (ext4_inode L (ext4_new (path_string pb) EXT4_DE_DIR)) s x = Ok (ext4_new (path_string (pb @ [x])) EXT4_DE_DIR)"
    by (simp add: ext4_inode_def ext4_lookup_step [OF wf] Let_def)
  moreover have "walk (ext4_inode L) s (ext4_new (path_string (pb @ [x])) EXT4_DE_DIR) names = Ok (ext4_new (path_string ((pb @ [x]) @ names)) EXT4_DE_DIR)"
    by (rule Cons.IH) (use Cons.prems(1) Cons.prems(2) [rule_format, of "Suc _"] in auto)
  ultimately show ?case by simp
qed simp


text \<open>A library that knows the directory \<^verbatim>\<open>/bin\<close> and the file \<^verbatim>\<open>/bin/sh\<close>.\<close>

definition demo_lib :: "unit Ext4Lib" where
  "demo_lib = \<lparr>l_open = \<lambda>s _ _. (s, Inr ()), l_seek = \<lambda>s _. (s, Inr ()), l_read = \<lambda>s _. (s, Inr []), l_write = \<lambda>s x. (s, Inr (length x)),
     l_close = \<lambda>s. (s, Inr ()), l_truncate = \<lambda>s _. (s, Inr ()), l_dir_mk = \<lambda>s _. (s, Inl 17), l_dir_rm = \<lambda>s _. (s, Inr ()),
     l_file_remove = \<lambda>s _. (s, Inr ()), l_exists = \<lambda>s p ty. (p, ty) \<in> {(''/bin'', EXT4_DE_DIR), (''/bin/sh'', EXT4_DE_REG_FILE)},
     l_entries = \<lambda>s _. Inr [], l_symlink = \<lambda>s _ _. (s, Inr ()), l_readlink = \<lambda>s _ _. Inr [], l_inode_num = \<lambda>s _. None, l_size = \<lambda>s. 0,
     l_errno = \<lambda>_. EIO, l_utf8 = \<lambda>_. None, l_lossy = \<lambda>_. []\<rparr>"


end
