(* ===== verification/Drivers.thy ===== *)
theory Drivers
  imports Devfs Memory Ordered_Map
begin

text \<open>
  The drivers and their registry: values initialised once (\<^verbatim>\<open>crates/sync\<close>), the device set and the
  discovery of devices at boot (\<^verbatim>\<open>crates/devices\<close> and the part of \<^verbatim>\<open>kernel/src/main.rs\<close> that runs it), the
  interrupt controller (\<^verbatim>\<open>driver/general-plic\<close>), the clock (\<^verbatim>\<open>driver/kgoldfish-rtc\<close>), and of the virtio
  drivers (\<^verbatim>\<open>driver/kvirtio\<close>) the probing, the memory for DMA, the network device and the addresses of PCI
  windows.  The flattened device tree, the virtio library and the hardware behind the registers are
  parameters.
\<close>

section \<open>Values initialised once\<close>

record 'a LazyInit =
  inited :: bool
  lz_data :: "'a option"

definition lazy_new :: "'a LazyInit" where
  "lazy_new = \<lparr>inited = False, lz_data = None\<rparr>"

definition is_init :: "'a LazyInit \<Rightarrow> bool" where
  "is_init l = inited l"

definition init_by :: "'a \<Rightarrow> 'a LazyInit \<Rightarrow> 'a LazyInit res" where
  "init_by d l = (if is_init l then Panic else Ok (l\<lparr>lz_data := Some d, inited := True\<rparr>))"

definition try_get :: "'a LazyInit \<Rightarrow> 'a option" where
  "try_get l = (if is_init l then lz_data l else None)"

definition lazy_get :: "'a LazyInit \<Rightarrow> 'a res" where
  "lazy_get l = (if \<not> is_init l then Panic else case lz_data l of Some d \<Rightarrow> Ok d | None \<Rightarrow> Panic)"

section \<open>Drivers\<close>

type_synonym irq = nat

text \<open>
  The drivers under \<^verbatim>\<open>driver/\<close>: each with the fields the registry looks at.  A virtio device keeps the
  address of its transport.
\<close>

datatype DriverDev =
    PLIC usize
  | RtcGoldfish usize
  | NS16550a usize "irq list"
  | VirtIOBlock usize "irq list"
  | VirtIOInput usize "irq list"
  | VirtIONet usize "irq list"
  | RamDisk usize usize
  | UnsupportedDriver

datatype 'd DeviceType = RTC 'd | BLOCK 'd | NET 'd | INPUT 'd | INT' 'd | UART 'd | NoDevice

text \<open>\<^verbatim>\<open>VirtIONet\<close> and \<^verbatim>\<open>RamDiskBlock\<close> keep the default of the trait, no interrupts.\<close>

fun interrupts :: "DriverDev \<Rightarrow> irq list" where
  "interrupts (NS16550a _ irqs) = irqs"
| "interrupts (VirtIOBlock _ irqs) = irqs"
| "interrupts (VirtIOInput _ irqs) = irqs"
| "interrupts _ = []"

fun get_device_wrapper :: "DriverDev \<Rightarrow> DriverDev DeviceType" where
  "get_device_wrapper (PLIC b) = INT' (PLIC b)"
| "get_device_wrapper (RtcGoldfish b) = RTC (RtcGoldfish b)"
| "get_device_wrapper (NS16550a b i) = UART (NS16550a b i)"
| "get_device_wrapper (VirtIOBlock t i) = BLOCK (VirtIOBlock t i)"
| "get_device_wrapper (VirtIOInput t i) = INPUT (VirtIOInput t i)"
| "get_device_wrapper (VirtIONet t i) = NET (VirtIONet t i)"
| "get_device_wrapper (RamDisk s n) = BLOCK (RamDisk s n)"
| "get_device_wrapper UnsupportedDriver = NoDevice"

section \<open>The interrupt controller\<close>

text \<open>
  The registers hold 32-bit values at their addresses and keep what is written to them; the properties
  look only at addresses that are multiples of four, where registers do not overlap.
\<close>

type_synonym u32 = "32 word"

type_synonym regs = "usize \<Rightarrow> u32"

definition plic_context :: "nat \<Rightarrow> bool \<Rightarrow> nat" where
  "plic_context hart_id is_smode = hart_id * 2 + (if is_smode then 1 else 0)"

definition set_irq_enable :: "usize \<Rightarrow> nat \<Rightarrow> bool \<Rightarrow> irq \<Rightarrow> regs \<Rightarrow> regs" where
  "set_irq_enable base hart_id is_smode irq m =
     (let addr = uadd (uadd (uadd base 0x2000) (irq div 32)) (plic_context hart_id is_smode * 0x80)
      in m(addr := m addr OR push_bit (irq mod 32) 1))"

definition get_irq_claim :: "usize \<Rightarrow> nat \<Rightarrow> bool \<Rightarrow> regs \<Rightarrow> u32" where
  "get_irq_claim base hart_id is_smode m =
     m (uadd (uadd base 0x200004) (plic_context hart_id is_smode * 0x1000))"

definition complete_irq_claim :: "usize \<Rightarrow> nat \<Rightarrow> bool \<Rightarrow> u32 \<Rightarrow> regs \<Rightarrow> regs" where
  "complete_irq_claim base hart_id is_smode irq m =
     m(uadd (uadd base 0x200004) (plic_context hart_id is_smode * 0x1000) := irq)"

definition set_thresold :: "usize \<Rightarrow> nat \<Rightarrow> bool \<Rightarrow> u32 \<Rightarrow> regs \<Rightarrow> regs" where
  "set_thresold base hart_id is_smode thresold m =
     m(uadd (uadd base 0x200000) (plic_context hart_id is_smode * 0x1000) := thresold)"

definition set_priority :: "usize \<Rightarrow> irq \<Rightarrow> u32 \<Rightarrow> regs \<Rightarrow> regs" where
  "set_priority base irq priority m = m(uadd base (irq * 4) := priority)"

definition register_irq :: "usize \<Rightarrow> irq \<Rightarrow> regs \<Rightarrow> regs" where
  "register_irq base irq m = set_priority base irq 7 (set_irq_enable base 0 True irq m)"

definition plic_try_handle_interrupt :: "usize \<Rightarrow> regs \<Rightarrow> regs \<times> bool" where
  "plic_try_handle_interrupt base m = (complete_irq_claim base 0 True (get_irq_claim base 0 True m) m, False)"

section \<open>The clock\<close>

type_synonym u64 = "64 word"

definition rtc_read :: "usize \<Rightarrow> regs \<Rightarrow> u64" where
  "rtc_read base m =
     (let low = m (uadd base 0); high = m (uadd base 4)
      in push_bit 32 (ucast high) OR ucast low)"

definition rtc_read_timestamp :: "usize \<Rightarrow> regs \<Rightarrow> u64" where
  "rtc_read_timestamp base m = rtc_read base m div 1000000000"

section \<open>Nodes of the device tree\<close>

record node =
  node_compatibles :: "string list option"
  node_reg :: "usize option"
  node_reg_raw :: "u8 list option"
  node_irqs :: "irq list option"

definition node_to_interrupts :: "node \<Rightarrow> irq list" where
  "node_to_interrupts n = (case node_irqs n of Some i \<Rightarrow> i | None \<Rightarrow> [])"

definition reg_address :: "node \<Rightarrow> usize res" where
  "reg_address n =
     (case node_reg_raw n of
        None \<Rightarrow> Panic
      | Some raw \<Rightarrow> if length raw < 8 then Panic
          else Ok (fold (\<lambda>x acc. acc * 256 + unat x) (take 4 (drop 4 raw)) 0))"

section \<open>The registry\<close>

datatype DriverFn = plic_init_driver | init_rtc | uart_init_driver | init_mmio

record Devices =
  ds_rtc :: "DriverDev list"
  ds_blk :: "DriverDev list"
  ds_net :: "DriverDev list"
  ds_uart :: "DriverDev list"
  ds_input :: "DriverDev list"
  int_device :: "DriverDev LazyInit"
  main_uart :: "DriverDev LazyInit"
  irq_manager :: "(irq \<times> DriverDev) list"
  driver_regs :: "(string \<times> DriverFn) list"
  ds_regs :: regs

definition devices_new :: "regs \<Rightarrow> Devices" where
  "devices_new m = \<lparr>ds_rtc = [], ds_blk = [], ds_net = [], ds_uart = [], ds_input = [], int_device = lazy_new,
     main_uart = lazy_new, irq_manager = [], driver_regs = [], ds_regs = m\<rparr>"

definition add_device :: "DriverDev \<Rightarrow> Devices \<Rightarrow> Devices res" where
  "add_device device D =
     (case get_device_wrapper device of
        RTC d \<Rightarrow> Ok (D\<lparr>ds_rtc := ds_rtc D @ [d]\<rparr>)
      | BLOCK d \<Rightarrow> Ok (D\<lparr>ds_blk := ds_blk D @ [d]\<rparr>)
      | NET d \<Rightarrow> Ok (D\<lparr>ds_net := ds_net D @ [d]\<rparr>)
      | INPUT d \<Rightarrow> Ok (D\<lparr>ds_input := ds_input D @ [d]\<rparr>)
      | INT' d \<Rightarrow> rmap (\<lambda>l. D\<lparr>int_device := l\<rparr>) (init_by d (int_device D))
      | UART d \<Rightarrow>
          rbind (if length (ds_uart D) = 0 then rmap (\<lambda>l. D\<lparr>main_uart := l\<rparr>) (init_by d (main_uart D)) else Ok D)
            (\<lambda>D. Ok (D\<lparr>ds_uart := ds_uart D @ [d]\<rparr>))
      | NoDevice \<Rightarrow> Ok D)"

definition get_int_device :: "Devices \<Rightarrow> DriverDev res" where
  "get_int_device D = (case try_get (int_device D) of Some d \<Rightarrow> Ok d | None \<Rightarrow> Panic)"

definition get_main_uart :: "Devices \<Rightarrow> DriverDev option" where
  "get_main_uart D = try_get (main_uart D)"

definition get_net_device :: "Devices \<Rightarrow> nat \<Rightarrow> DriverDev res" where
  "get_net_device D i = (if i < length (ds_net D) then Ok (ds_net D ! i) else Panic)"

definition register_device_irqs :: "DriverDev \<Rightarrow> Devices \<Rightarrow> Devices" where
  "register_device_irqs d D = D\<lparr>irq_manager := fold (\<lambda>irq m. bm_insert irq d m) (interrupts d) (irq_manager D)\<rparr>"

definition regist_devices_irq :: "Devices \<Rightarrow> Devices" where
  "regist_devices_irq D =
     (case try_get (int_device D) of
        Some (PLIC base) \<Rightarrow> D\<lparr>ds_regs := fold (\<lambda>(irq, _) m. register_irq base irq m) (irq_manager D) (ds_regs D)\<rparr>
      | _ \<Rightarrow> D)"

subsection \<open>Probing\<close>

text \<open>
  \<open>transport\<close> is the virtio library: the kind of device it finds at an address, if any; \<open>V\<close> is the
  start of the kernel's address space.  Log messages are left out, and with them the \<^verbatim>\<open>unwrap\<close> of
  the interrupts in their arguments, which is evaluated only when the level is enabled.
\<close>

datatype VirtioType = VBlock | VInput | VNetwork | VOther

definition virtio_device :: "usize \<Rightarrow> VirtioType \<Rightarrow> node \<Rightarrow> Devices \<Rightarrow> Devices \<times> DriverDev" where
  "virtio_device t k n D =
     (let irqs = node_to_interrupts n in
      case k of
        VBlock \<Rightarrow> (D, VirtIOBlock t irqs)
      | VInput \<Rightarrow> (register_device_irqs (VirtIOInput t irqs) D, VirtIOInput t irqs)
      | VNetwork \<Rightarrow> (register_device_irqs (VirtIONet t irqs) D, VirtIONet t irqs)
      | VOther \<Rightarrow> (D, UnsupportedDriver))"

definition probe_mmio :: "(usize \<Rightarrow> VirtioType option) \<Rightarrow> usize \<Rightarrow> node \<Rightarrow> Devices \<Rightarrow> Devices \<times> DriverDev" where
  "probe_mmio transport V n D =
     (case node_reg n of
        None \<Rightarrow> (D, UnsupportedDriver)
      | Some pa \<Rightarrow>
          (let vaddr = uadd V pa
           in case transport vaddr of Some k \<Rightarrow> virtio_device vaddr k n D | None \<Rightarrow> (D, UnsupportedDriver)))"

definition probe_plic :: "usize \<Rightarrow> node \<Rightarrow> Devices \<Rightarrow> (Devices \<times> DriverDev) res" where
  "probe_plic V n D = rmap (\<lambda>addr. let base = uadd V addr
     in (D\<lparr>ds_regs := set_thresold base 0 True 0 (ds_regs D)\<rparr>, PLIC base)) (reg_address n)"

definition probe_rtc :: "usize \<Rightarrow> node \<Rightarrow> Devices \<Rightarrow> (Devices \<times> DriverDev) res" where
  "probe_rtc V n D = rmap (\<lambda>addr. (D, RtcGoldfish (uadd V addr))) (reg_address n)"

text \<open>The set-up of the serial line by its library is left out.\<close>

definition probe_uart :: "usize \<Rightarrow> node \<Rightarrow> Devices \<Rightarrow> (Devices \<times> DriverDev) res" where
  "probe_uart V n D =
     (case node_reg n of
        None \<Rightarrow> Panic
      | Some addr \<Rightarrow> (let d = NS16550a (uadd V addr) (node_to_interrupts n) in Ok (register_device_irqs d D, d)))"

fun probe :: "(usize \<Rightarrow> VirtioType option) \<Rightarrow> usize \<Rightarrow> DriverFn \<Rightarrow> node \<Rightarrow> Devices \<Rightarrow> (Devices \<times> DriverDev) res" where
  "probe transport V plic_init_driver n D = probe_plic V n D"
| "probe transport V init_rtc n D = probe_rtc V n D"
| "probe transport V uart_init_driver n D = probe_uart V n D"
| "probe transport V init_mmio n D = Ok (probe_mmio transport V n D)"

text \<open>
  \<^verbatim>\<open>driver_define!\<close>: a driver either enters a function under the name of the devices it drives, or
  comes with a device at once.  The linker gives the list of them.
\<close>

datatype DriverInit = DefineFn string DriverFn | DefineDevice "DriverDev option"

fun driver_init :: "DriverInit \<Rightarrow> Devices \<Rightarrow> Devices \<times> DriverDev option" where
  "driver_init (DefineFn obj f) D = (D\<lparr>driver_regs := name_insert obj f (driver_regs D)\<rparr>, None)"
| "driver_init (DefineDevice d) D = (D, d)"

fun prepare_drivers :: "DriverInit list \<Rightarrow> Devices \<Rightarrow> Devices res" where
  "prepare_drivers [] D = Ok D"
| "prepare_drivers (f # rest) D =
     (case driver_init f D of (D', d) \<Rightarrow>
        rbind (case d of Some device \<Rightarrow> add_device device D' | None \<Rightarrow> Ok D') (prepare_drivers rest))"

fun try_compatibles :: "(usize \<Rightarrow> VirtioType option) \<Rightarrow> usize \<Rightarrow> node \<Rightarrow> string list \<Rightarrow> Devices \<Rightarrow> Devices res" where
  "try_compatibles transport V n [] D = Ok D"
| "try_compatibles transport V n (c # cs) D =
     (case map_of (driver_regs D) c of
        Some f \<Rightarrow> rbind (probe transport V f n D) (\<lambda>(D', d). add_device d D')
      | None \<Rightarrow> try_compatibles transport V n cs D)"

definition try_to_add_device :: "(usize \<Rightarrow> VirtioType option) \<Rightarrow> usize \<Rightarrow> node \<Rightarrow> Devices \<Rightarrow> Devices res" where
  "try_to_add_device transport V n D =
     (case node_compatibles n of Some cs \<Rightarrow> try_compatibles transport V n cs D | None \<Rightarrow> Ok D)"

fun add_nodes :: "(usize \<Rightarrow> VirtioType option) \<Rightarrow> usize \<Rightarrow> node list \<Rightarrow> Devices \<Rightarrow> Devices res" where
  "add_nodes transport V [] D = Ok D"
| "add_nodes transport V (n # ns) D = rbind (try_to_add_device transport V n D) (add_nodes transport V ns)"

definition boot_devices ::
    "(usize \<Rightarrow> VirtioType option) \<Rightarrow> usize \<Rightarrow> DriverInit list \<Rightarrow> node list option \<Rightarrow> regs \<Rightarrow> Devices res" where
  "boot_devices transport V inits fdt m =
     rbind (prepare_drivers inits (devices_new m)) (\<lambda>D.
     rbind (case fdt of Some nodes \<Rightarrow> add_nodes transport V nodes D | None \<Rightarrow> Ok D) (\<lambda>D.
     Ok (regist_devices_irq D)))"

section \<open>Memory for virtio devices\<close>

type_synonym container = "usize list"

definition dma_alloc :: "FrameAllocator \<Rightarrow> container \<Rightarrow> nat \<Rightarrow> (FrameAllocator \<times> container \<times> usize) res" where
  "dma_alloc A0 c n =
     rbind (frame_alloc_much A0 n) (\<lambda>(A1, r).
       case r of
         Some got \<Rightarrow> rmap (\<lambda>pa. (A1, c @ got, pa)) (index_res got 0)
       | None \<Rightarrow> Panic)"

definition dma_dealloc :: "FrameAllocator \<Rightarrow> container \<Rightarrow> usize \<Rightarrow> nat \<Rightarrow> (FrameAllocator \<times> container) res" where
  "dma_dealloc A0 c pa n =
     (let phy_page = pa div 2 ^ 12;
          keep = (\<lambda>calc_page. \<not> (phy_page \<le> calc_page \<and> calc_page < uadd phy_page n))
      in rmap (\<lambda>A1. (A1, filter keep c)) (drop_frames A0 (filter (\<lambda>x. \<not> keep x) c)))"

section \<open>The network device\<close>

datatype NetError = NoData

text \<open>\<open>receive\<close>, \<open>recycle\<close> and \<open>transmit\<close> are the virtio library; a packet stays in its buffer until it is recycled.\<close>

definition net_recv :: "('s \<Rightarrow> 's \<times> u8 list option) \<Rightarrow> ('s \<Rightarrow> u8 list \<Rightarrow> 's option) \<Rightarrow> 's \<Rightarrow> u8 list \<Rightarrow>
    ('s \<times> u8 list \<times> (NetError + nat)) res" where
  "net_recv receive recycle s buf =
     (case receive s of
        (s', None) \<Rightarrow> Ok (s', buf, Inl NoData)
      | (s', Some packet) \<Rightarrow>
          (let rlen = min (length buf) (length packet);
               buf' = overwrite buf 0 (take rlen packet)
           in case recycle s' packet of Some s'' \<Rightarrow> Ok (s'', buf', Inr rlen) | None \<Rightarrow> Panic))"

definition net_send :: "('s \<Rightarrow> u8 list \<Rightarrow> 's option) \<Rightarrow> 's \<Rightarrow> u8 list \<Rightarrow> 's res" where
  "net_send transmit s buf = (case transmit s buf of Some s' \<Rightarrow> Ok s' | None \<Rightarrow> Panic)"

section \<open>Addresses of PCI windows\<close>

definition align_up :: "u64 \<Rightarrow> u64 \<Rightarrow> u64" where
  "align_up addr align = (addr + align - 1) AND NOT (align - 1)"

definition LOONGARCH64_PCI_MEMORY32_START :: u64 where
  "LOONGARCH64_PCI_MEMORY32_START = 0x58000000"

definition LOONGARCH64_PCI_MEMORY32_END :: u64 where
  "LOONGARCH64_PCI_MEMORY32_END = 0x80000000"

definition LOONGARCH64_PCI_MEMORY64_START :: u64 where
  "LOONGARCH64_PCI_MEMORY64_START = 0x100000000000"

definition allocate_bar_address :: "u64 \<Rightarrow> u64 \<Rightarrow> u64 \<times> u64 option" where
  "allocate_bar_address next_bar n =
     (let aligned_addr = align_up next_bar n in
      if aligned_addr + n \<le> LOONGARCH64_PCI_MEMORY32_END then (aligned_addr + n, Some aligned_addr)
      else if next_bar < LOONGARCH64_PCI_MEMORY64_START then
        let aligned_addr = align_up LOONGARCH64_PCI_MEMORY64_START n in (aligned_addr + n, Some aligned_addr)
      else (next_bar, None))"

datatype MemoryBarType = Width32 | Below1MiB | Width64

datatype BarInfo = MemoryBar MemoryBarType u64 u64 | IoBar u32 u32

text \<open>The configuration space of a function, behind the virtio library.\<close>

record 'p pci =
  bar_info :: "'p \<Rightarrow> nat \<Rightarrow> BarInfo option"
  set_bar_32 :: "'p \<Rightarrow> nat \<Rightarrow> u32 \<Rightarrow> 'p"
  set_bar_64 :: "'p \<Rightarrow> nat \<Rightarrow> u64 \<Rightarrow> 'p"

text \<open>
  One round of the loop: the new configuration, the next free address and the next index.  The look at the
  previous window when the current one is set up already changes the message alone.
\<close>

definition assign_bar :: "'p pci \<Rightarrow> 'p \<Rightarrow> u64 \<Rightarrow> nat \<Rightarrow> 'p \<times> u64 \<times> nat" where
  "assign_bar P p next_bar i =
     (case bar_info P p i of
        Some (MemoryBar ty addr n) \<Rightarrow>
          (if n > 0 \<and> addr = 0 then
             (case allocate_bar_address next_bar n of
                (next', Some a) \<Rightarrow>
                  (case ty of
                     Width32 \<Rightarrow> (set_bar_32 P p i (ucast a), next', i + 1)
                   | Width64 \<Rightarrow> (set_bar_64 P p i a, next', i + 2)
                   | Below1MiB \<Rightarrow> (p, next', i + 1))
              | (next', None) \<Rightarrow> (p, next', i + 1))
           else (p, next_bar, i + 1))
      | Some (IoBar addr n) \<Rightarrow>
          (if n > 0 \<and> addr = 0 then
             (case allocate_bar_address next_bar (ucast n) of
                (next', Some a) \<Rightarrow> (set_bar_32 P p i (ucast a), next', i + 1)
              | (next', None) \<Rightarrow> (p, next', i + 1))
           else (p, next_bar, i + 1))
      | None \<Rightarrow> (p, next_bar, i + 1))"

lemma assign_bar_advances: "assign_bar P p nb i = (p', nb', j) \<Longrightarrow> i < j"
  by (auto simp: assign_bar_def split: option.splits BarInfo.splits prod.splits if_splits MemoryBarType.splits)

function assign_bars :: "'p pci \<Rightarrow> 'p \<Rightarrow> u64 \<Rightarrow> nat \<Rightarrow> 'p \<times> u64" where
  "assign_bars P p next_bar i =
     (if i < 6 then case assign_bar P p next_bar i of (p', next', j) \<Rightarrow> assign_bars P p' next' j
      else (p, next_bar))"
  by pat_completeness auto
termination
proof (relation "measure (\<lambda>(P, p, nb, i). 6 - i)", goal_cases)
  case (2 P p nb i p' y nb' j)
  then have "i < j" using assign_bar_advances [of P p nb i p' nb' j] by simp
  with 2(1) show ?case by simp
qed simp

declare assign_bars.simps [simp del]

definition assign_bars_with_pci_root :: "'p pci \<Rightarrow> 'p \<Rightarrow> u64 \<Rightarrow> 'p \<times> u64" where
  "assign_bars_with_pci_root P p next_bar = assign_bars P p next_bar 0"

section \<open>Lemmas\<close>

lemmas lazy_defs = lazy_new_def is_init_def init_by_def try_get_def lazy_get_def

subsection \<open>The interrupt controller\<close>

text \<open>The enable bit of a source by the table of registers: one word for 32 sources, four bytes apart.\<close>

definition source_enabled :: "usize \<Rightarrow> nat \<Rightarrow> irq \<Rightarrow> regs \<Rightarrow> bool" where
  "source_enabled base ctx irq m \<longleftrightarrow> bit (m (base + 0x2000 + ctx * 0x80 + 4 * (irq div 32))) (irq mod 32)"

definition plic_base_ok :: "usize \<Rightarrow> bool" where
  "plic_base_ok base \<longleftrightarrow> base + 0x4000000 \<le> USIZE"

lemma set_irq_enable_addr:
  assumes "plic_base_ok base" "irq < 1024"
  shows "set_irq_enable base 0 True irq m =
    m(base + 0x2080 + irq div 32 := m (base + 0x2080 + irq div 32) OR push_bit (irq mod 32) 1)"
proof -
  have "irq div 32 < 32" using assms(2) by (simp add: less_mult_imp_div_less)
  then have "uadd (uadd (uadd base 0x2000) (irq div 32)) (plic_context 0 True * 0x80) = base + 0x2080 + irq div 32"
    using assms(1) by (simp add: plic_base_ok_def plic_context_def usize_simps)
  then show ?thesis by (simp add: set_irq_enable_def Let_def)
qed

lemma register_irq_low:
  assumes "plic_base_ok base" "irq < 32" "j < 32"
  shows "source_enabled base 1 j (register_irq base irq m) \<longleftrightarrow> source_enabled base 1 j m \<or> j = irq"
    "register_irq base irq m (base + j * 4) = (if j = irq then 7 else m (base + j * 4))"
proof -
  have p: "uadd base (irq * 4) = base + irq * 4" using assms by (simp add: plic_base_ok_def usize_simps)
  have e: "set_irq_enable base 0 True irq m = m(base + 0x2080 := m (base + 0x2080) OR push_bit irq 1)"
    using set_irq_enable_addr [OF assms(1), of irq m] assms(2) by simp
  show "source_enabled base 1 j (register_irq base irq m) \<longleftrightarrow> source_enabled base 1 j m \<or> j = irq"
    using assms by (auto simp: register_irq_def set_priority_def p e source_enabled_def bit_simps add.commute [of base])
  show "register_irq base irq m (base + j * 4) = (if j = irq then 7 else m (base + j * 4))"
    using assms by (simp add: register_irq_def set_priority_def p e)
qed

lemma register_irqs_low:
  assumes "plic_base_ok base" "j < 32" "\<forall>irq \<in> set (map fst ks). irq < 32"
  shows "source_enabled base 1 j (fold (\<lambda>(irq, _) m. register_irq base irq m) ks m) \<longleftrightarrow>
      source_enabled base 1 j m \<or> j \<in> set (map fst ks)"
    "j \<in> set (map fst ks) \<or> m (base + j * 4) = 7 \<Longrightarrow>
      fold (\<lambda>(irq, _) m. register_irq base irq m) ks m (base + j * 4) = 7"
proof -
  have "(source_enabled base 1 j (fold (\<lambda>(irq, _) m. register_irq base irq m) ks m) \<longleftrightarrow>
      source_enabled base 1 j m \<or> j \<in> set (map fst ks)) \<and>
    (j \<in> set (map fst ks) \<or> m (base + j * 4) = 7 \<longrightarrow>
      fold (\<lambda>(irq, _) m. register_irq base irq m) ks m (base + j * 4) = 7)"
    using assms(3)
  proof (induction ks arbitrary: m)
    case (Cons x ks)
    obtain k d where x: "x = (k, d)" by fastforce
    have k: "k < 32" using Cons.prems x by simp
    show ?case
      using Cons.IH [of "register_irq base k m"] Cons.prems register_irq_low [OF assms(1) k assms(2), of m]
      by (auto simp: x)
  qed simp
  then show "source_enabled base 1 j (fold (\<lambda>(irq, _) m. register_irq base irq m) ks m) \<longleftrightarrow>
      source_enabled base 1 j m \<or> j \<in> set (map fst ks)"
    "j \<in> set (map fst ks) \<or> m (base + j * 4) = 7 \<Longrightarrow>
      fold (\<lambda>(irq, _) m. register_irq base irq m) ks m (base + j * 4) = 7" by blast+
qed

lemma set_thresold_enable:
  "plic_base_ok base \<Longrightarrow> j < 32 \<Longrightarrow> source_enabled base 1 j (set_thresold base 0 True t m) = source_enabled base 1 j m"
  by (simp add: set_thresold_def source_enabled_def plic_base_ok_def plic_context_def usize_simps)

subsection \<open>Discovery\<close>

text \<open>The devices in the order in which the boot finds them, as a function of the tree alone.\<close>

fun device_of :: "(usize \<Rightarrow> VirtioType option) \<Rightarrow> usize \<Rightarrow> DriverFn \<Rightarrow> node \<Rightarrow> DriverDev res" where
  "device_of transport V plic_init_driver n = rmap (\<lambda>a. PLIC (uadd V a)) (reg_address n)"
| "device_of transport V init_rtc n = rmap (\<lambda>a. RtcGoldfish (uadd V a)) (reg_address n)"
| "device_of transport V uart_init_driver n =
     (case node_reg n of None \<Rightarrow> Panic | Some a \<Rightarrow> Ok (NS16550a (uadd V a) (node_to_interrupts n)))"
| "device_of transport V init_mmio n =
     Ok (case node_reg n of
           None \<Rightarrow> UnsupportedDriver
         | Some a \<Rightarrow>
             (case transport (uadd V a) of
                Some VBlock \<Rightarrow> VirtIOBlock (uadd V a) (node_to_interrupts n)
              | Some VInput \<Rightarrow> VirtIOInput (uadd V a) (node_to_interrupts n)
              | Some VNetwork \<Rightarrow> VirtIONet (uadd V a) (node_to_interrupts n)
              | _ \<Rightarrow> UnsupportedDriver))"

definition driver_of :: "(string \<times> DriverFn) list \<Rightarrow> node \<Rightarrow> DriverFn option" where
  "driver_of R n = (case node_compatibles n of
     None \<Rightarrow> None
   | Some cs \<Rightarrow> (case find (\<lambda>c. map_of R c \<noteq> None) cs of Some c \<Rightarrow> map_of R c | None \<Rightarrow> None))"

fun tree_devices :: "(usize \<Rightarrow> VirtioType option) \<Rightarrow> usize \<Rightarrow> (string \<times> DriverFn) list \<Rightarrow> node list \<Rightarrow> DriverDev list res" where
  "tree_devices transport V R [] = Ok []"
| "tree_devices transport V R (n # ns) =
     (case driver_of R n of
        None \<Rightarrow> tree_devices transport V R ns
      | Some f \<Rightarrow> rbind (device_of transport V f n) (\<lambda>d. rmap (Cons d) (tree_devices transport V R ns)))"

definition is_int :: "DriverDev \<Rightarrow> bool" where "is_int d = (case d of PLIC _ \<Rightarrow> True | _ \<Rightarrow> False)"
definition is_rtc :: "DriverDev \<Rightarrow> bool" where "is_rtc d = (case d of RtcGoldfish _ \<Rightarrow> True | _ \<Rightarrow> False)"
definition is_uart :: "DriverDev \<Rightarrow> bool" where "is_uart d = (case d of NS16550a _ _ \<Rightarrow> True | _ \<Rightarrow> False)"
definition is_input :: "DriverDev \<Rightarrow> bool" where "is_input d = (case d of VirtIOInput _ _ \<Rightarrow> True | _ \<Rightarrow> False)"
definition is_net :: "DriverDev \<Rightarrow> bool" where "is_net d = (case d of VirtIONet _ _ \<Rightarrow> True | _ \<Rightarrow> False)"
definition is_blk :: "DriverDev \<Rightarrow> bool" where
  "is_blk d = (case d of VirtIOBlock _ _ \<Rightarrow> True | RamDisk _ _ \<Rightarrow> True | _ \<Rightarrow> False)"

lemmas kind_defs = is_int_def is_rtc_def is_uart_def is_input_def is_net_def is_blk_def

definition lazy_first :: "'a list \<Rightarrow> 'a LazyInit" where
  "lazy_first xs = (case xs of [] \<Rightarrow> lazy_new | x # _ \<Rightarrow> \<lparr>inited = True, lz_data = Some x\<rparr>)"

definition holds :: "DriverDev list \<Rightarrow> Devices \<Rightarrow> bool" where
  "holds ds D \<longleftrightarrow> ds_rtc D = filter is_rtc ds \<and> ds_blk D = filter is_blk ds \<and> ds_net D = filter is_net ds \<and>
     ds_uart D = filter is_uart ds \<and> ds_input D = filter is_input ds \<and>
     int_device D = lazy_first (filter is_int ds) \<and> main_uart D = lazy_first (filter is_uart ds)"

definition wanted :: "DriverDev \<Rightarrow> irq set" where
  "wanted d = (if is_uart d \<or> is_input d then set (interrupts d) else {})"

lemma try_get_lazy_first: "try_get (lazy_first xs) = (case xs of [] \<Rightarrow> None | x # _ \<Rightarrow> Some x)"
  by (simp add: lazy_first_def lazy_defs split: list.splits)

lemma lazy_first_init: "init_by x (lazy_first []) = Ok (lazy_first [x])"
  by (simp add: lazy_first_def lazy_defs)

lemma lazy_first_append: "xs \<noteq> [] \<Longrightarrow> lazy_first (xs @ ys) = lazy_first xs"
  by (cases xs) (simp_all add: lazy_first_def)

lemma add_device_holds:
  assumes "holds ds D" "is_int d \<Longrightarrow> filter is_int ds = []"
  shows "\<exists>D'. add_device d D = Ok D' \<and> holds (ds @ [d]) D' \<and> irq_manager D' = irq_manager D \<and>
    driver_regs D' = driver_regs D \<and> ds_regs D' = ds_regs D"
proof (cases "is_uart d \<and> filter is_uart ds = []")
  case True
  then show ?thesis using assms
    by (cases d) (auto simp: holds_def add_device_def kind_defs res_simps lazy_first_init)
next
  case False
  then show ?thesis using assms
    by (cases d) (auto simp: holds_def add_device_def kind_defs res_simps lazy_first_init lazy_first_append)
qed

lemma irq_keys_fold:
  "fst ` set (fold (\<lambda>irq. bm_insert irq d) is m) = set is \<union> fst ` set m"
  by (induction "is" arbitrary: m) (auto simp: bm_keys_insert)

lemma probe_spec:
  assumes "device_of transport V f n = Ok d"
  shows "\<exists>D'. probe transport V f n D = Ok (D', d) \<and> (\<forall>ds. holds ds D' = holds ds D) \<and>
    driver_regs D' = driver_regs D \<and> set (map fst (irq_manager D')) = wanted d \<union> set (map fst (irq_manager D)) \<and>
    ds_regs D' = (case d of PLIC base \<Rightarrow> set_thresold base 0 True 0 (ds_regs D) | _ \<Rightarrow> ds_regs D)"
proof (cases f)
  case plic_init_driver
  then show ?thesis using assms
    by (cases "reg_address n") (auto simp: probe_plic_def res_simps Let_def holds_def wanted_def kind_defs)
next
  case init_rtc
  then show ?thesis using assms
    by (cases "reg_address n") (auto simp: probe_rtc_def res_simps holds_def wanted_def kind_defs)
next
  case uart_init_driver
  then show ?thesis using assms
    by (cases "node_reg n") (auto simp: irq_keys_fold probe_uart_def Let_def register_device_irqs_def holds_def wanted_def kind_defs)
next
  case init_mmio
  then show ?thesis using assms
    by (auto simp: irq_keys_fold probe_mmio_def virtio_device_def Let_def register_device_irqs_def holds_def wanted_def kind_defs
        split: option.splits VirtioType.splits)
qed

lemma try_compatibles_find:
  "try_compatibles transport V n cs D =
     (case find (\<lambda>c. map_of (driver_regs D) c \<noteq> None) cs of
        None \<Rightarrow> Ok D
      | Some c \<Rightarrow> rbind (probe transport V (the (map_of (driver_regs D) c)) n D) (\<lambda>(D', d). add_device d D'))"
  by (induction cs) (auto split: option.splits)

lemma try_to_add_device_driver:
  "try_to_add_device transport V n D =
     (case driver_of (driver_regs D) n of
        None \<Rightarrow> Ok D
      | Some f \<Rightarrow> rbind (probe transport V f n D) (\<lambda>(D', d). add_device d D'))"
proof (cases "node_compatibles n")
  case (Some cs)
  show ?thesis
  proof (cases "find (\<lambda>c. map_of (driver_regs D) c \<noteq> None) cs")
    case (Some c)
    then obtain f where "map_of (driver_regs D) c = Some f" by (auto simp: find_Some_iff)
    with Some \<open>node_compatibles n = Some cs\<close> show ?thesis
      by (simp add: try_to_add_device_def driver_of_def try_compatibles_find)
  qed (simp add: Some try_to_add_device_def driver_of_def try_compatibles_find)
qed (simp add: try_to_add_device_def driver_of_def)

definition thresholds :: "DriverDev list \<Rightarrow> regs \<Rightarrow> regs" where
  "thresholds ds m = fold (\<lambda>d m. case d of PLIC base \<Rightarrow> set_thresold base 0 True 0 m | _ \<Rightarrow> m) ds m"

lemma add_nodes_holds:
  assumes "tree_devices transport V (driver_regs D) ns = Ok ds" "holds old D" "length (filter is_int (old @ ds)) \<le> 1"
  shows "\<exists>D'. add_nodes transport V ns D = Ok D' \<and> holds (old @ ds) D' \<and>
    set (map fst (irq_manager D')) = (\<Union>d \<in> set ds. wanted d) \<union> set (map fst (irq_manager D)) \<and>
    ds_regs D' = thresholds ds (ds_regs D)"
  using assms
proof (induction ns arbitrary: D old ds)
  case Nil
  then show ?case by (auto simp: thresholds_def)
next
  case (Cons n ns)
  show ?case
  proof (cases "driver_of (driver_regs D) n")
    case None
    then show ?thesis using Cons.IH [of D ds old] Cons.prems by (simp add: try_to_add_device_driver res_simps)
  next
    case (Some f)
    with Cons.prems(1) obtain d ds' where d: "device_of transport V f n = Ok d"
      and ds': "tree_devices transport V (driver_regs D) ns = Ok ds'" "ds = d # ds'"
      by (cases "device_of transport V f n"; cases "tree_devices transport V (driver_regs D) ns") (auto simp: res_simps)
    obtain D1 where D1: "probe transport V f n D = Ok (D1, d)" "holds old D1" "driver_regs D1 = driver_regs D"
      "set (map fst (irq_manager D1)) = wanted d \<union> set (map fst (irq_manager D))"
      "ds_regs D1 = (case d of PLIC base \<Rightarrow> set_thresold base 0 True 0 (ds_regs D) | _ \<Rightarrow> ds_regs D)"
      using probe_spec [OF d, of D] Cons.prems(2) by blast
    have "is_int d \<Longrightarrow> filter is_int old = []" using Cons.prems(3) ds'(2) by simp
    then obtain D2 where D2: "add_device d D1 = Ok D2" "holds (old @ [d]) D2" "irq_manager D2 = irq_manager D1"
      "driver_regs D2 = driver_regs D1" "ds_regs D2 = ds_regs D1"
      using add_device_holds [OF D1(2)] by blast
    have "\<exists>D'. add_nodes transport V ns D2 = Ok D' \<and> holds ((old @ [d]) @ ds') D' \<and>
      set (map fst (irq_manager D')) = (\<Union>d \<in> set ds'. wanted d) \<union> set (map fst (irq_manager D2)) \<and>
      ds_regs D' = thresholds ds' (ds_regs D2)"
      by (rule Cons.IH) (use Cons.prems(3) ds' D1(3) D2 in simp_all)
    then show ?thesis
      using D1 D2 Some ds'(2) by (auto simp: try_to_add_device_driver res_simps thresholds_def)
  qed
qed

text \<open>The devices that drivers bring along, and the names under which drivers are entered.\<close>

definition init_devices :: "DriverInit list \<Rightarrow> DriverDev list" where
  "init_devices inits = List.map_filter (\<lambda>i. case i of DefineDevice d \<Rightarrow> d | _ \<Rightarrow> None) inits"

definition init_names :: "DriverInit list \<Rightarrow> (string \<times> DriverFn) list \<Rightarrow> (string \<times> DriverFn) list" where
  "init_names inits R = fold (\<lambda>i R. case i of DefineFn obj f \<Rightarrow> name_insert obj f R | _ \<Rightarrow> R) inits R"

lemma prepare_drivers_holds:
  assumes "holds old D" "length (filter is_int (old @ init_devices inits)) \<le> 1"
  shows "\<exists>D'. prepare_drivers inits D = Ok D' \<and> holds (old @ init_devices inits) D' \<and>
    irq_manager D' = irq_manager D \<and> ds_regs D' = ds_regs D \<and> driver_regs D' = init_names inits (driver_regs D)"
  using assms
proof (induction inits arbitrary: D old)
  case Nil
  then show ?case by (simp add: init_devices_def init_names_def map_filter_simps)
next
  case (Cons i inits)
  show ?case
  proof (cases "\<exists>d. i = DefineDevice (Some d)")
    case True
    then obtain d where d: "i = DefineDevice (Some d)" by blast
    then have "is_int d \<Longrightarrow> filter is_int old = []"
      using Cons.prems(2) by (simp add: init_devices_def map_filter_simps)
    then obtain D2 where D2: "add_device d D = Ok D2" "holds (old @ [d]) D2" "irq_manager D2 = irq_manager D"
      "driver_regs D2 = driver_regs D" "ds_regs D2 = ds_regs D"
      using add_device_holds [OF Cons.prems(1)] by blast
    then show ?thesis
      using Cons.IH [OF D2(2)] Cons.prems(2) d by (simp add: init_devices_def init_names_def map_filter_simps res_simps)
  next
    case False
    then show ?thesis
    proof (cases i)
      case (DefineFn obj f)
      have "holds old (D\<lparr>driver_regs := name_insert obj f (driver_regs D)\<rparr>)" using Cons.prems(1) by (simp add: holds_def)
      from Cons.IH [OF this] show ?thesis
        using Cons.prems(2) DefineFn by (simp add: init_devices_def init_names_def map_filter_simps res_simps)
    next
      case (DefineDevice d)
      then have "i = DefineDevice None" using False by (cases d) auto
      then show ?thesis
        using Cons.IH [OF Cons.prems(1)] Cons.prems(2) by (simp add: init_devices_def init_names_def map_filter_simps res_simps)
    qed
  qed
qed

lemma holds_new: "holds [] (devices_new m)"
  by (simp add: holds_def devices_new_def lazy_first_def)

lemma thresholds_enable:
  assumes "plic_base_ok base" "j < 32" "\<forall>b. PLIC b \<in> set ds \<longrightarrow> b = base"
  shows "source_enabled base 1 j (thresholds ds m) = source_enabled base 1 j m"
  using assms(3)
proof (induction ds arbitrary: m)
  case (Cons d ds)
  then show ?case
    using set_thresold_enable [OF assms(1,2)] by (cases d) (auto simp: thresholds_def)
qed (simp add: thresholds_def)

lemma boot_devices_holds:
  assumes "tree_devices transport V (init_names inits []) ns = Ok ds"
    "length (filter is_int (init_devices inits @ ds)) \<le> 1"
  shows "\<exists>D. boot_devices transport V inits (Some ns) m = Ok (regist_devices_irq D) \<and> holds (init_devices inits @ ds) D \<and>
    set (map fst (irq_manager D)) = (\<Union>d \<in> set ds. wanted d) \<and> ds_regs D = thresholds ds m"
proof -
  obtain D1 where D1: "prepare_drivers inits (devices_new m) = Ok D1" "holds (init_devices inits) D1"
    "irq_manager D1 = []" "ds_regs D1 = m" "driver_regs D1 = init_names inits []"
    using prepare_drivers_holds [OF holds_new, of inits m] assms(2) by (auto simp: devices_new_def)
  have "tree_devices transport V (driver_regs D1) ns = Ok ds" using assms(1) D1(5) by simp
  from add_nodes_holds [OF this D1(2) assms(2)] D1 show ?thesis
    by (auto simp: boot_devices_def res_simps)
qed

lemma regist_holds: "holds ds (regist_devices_irq D) = holds ds D"
  by (auto simp: regist_devices_irq_def holds_def split: option.splits DriverDev.splits)

lemma single_plic:
  assumes "PLIC base \<in> set ds" "length (filter is_int ds) \<le> 1"
  shows "filter is_int ds = [PLIC base]"
proof -
  have "PLIC base \<in> set (filter is_int ds)" using assms(1) by (simp add: is_int_def)
  with assms(2) show ?thesis by (cases "filter is_int ds") auto
qed

lemma only_plic:
  assumes "PLIC base \<in> set ds" "length (filter is_int ds) \<le> 1" "PLIC b \<in> set ds"
  shows "b = base"
  using single_plic [OF assms(1,2)] single_plic [OF assms(3,2)] by simp

lemma find_lazy_first: "try_get (lazy_first (filter P xs)) = find P xs"
  by (induction xs) (auto simp: try_get_lazy_first)

lemma regist_regs:
  assumes "holds ds D" "PLIC base \<in> set ds" "length (filter is_int ds) \<le> 1"
  shows "ds_regs (regist_devices_irq D) = fold (\<lambda>(irq, _) m. register_irq base irq m) (irq_manager D) (ds_regs D)"
  using assms single_plic [OF assms(2,3)] by (simp add: regist_devices_irq_def holds_def try_get_lazy_first)

subsection \<open>Windows of PCI devices\<close>

text \<open>The windows handed out for requests of the given sizes, with the address after each.\<close>

fun windows :: "u64 \<Rightarrow> u64 list \<Rightarrow> (nat \<times> nat) list" where
  "windows next_bar [] = []"
| "windows next_bar (n # ns) =
     (case allocate_bar_address next_bar n of
        (next', Some a) \<Rightarrow> (unat a, unat n) # windows next' ns
      | (next', None) \<Rightarrow> windows next' ns)"

lemma and_not_low: "(x :: 'a::len word) AND NOT (2 ^ k - 1) = push_bit k (drop_bit k x)"
  by (rule bit_eqI) (auto simp: bit_simps mask_eq_exp_minus_1 [symmetric])

lemma unat_exp: "k < 64 \<Longrightarrow> unat (2 ^ k :: u64) = 2 ^ k"
proof -
  assume "k < 64"
  then have "(2::nat) ^ k < 2 ^ 64" by (rule power_strict_increasing) simp
  then have "unat (of_nat (2 ^ k) :: u64) = 2 ^ k"
    unfolding unat_of_nat by (intro mod_less) simp
  then show ?thesis by simp
qed

lemma div_mult_low:
  assumes "c < b"
  shows "(q * b + c) div b = (q :: nat)"
proof -
  have "b \<noteq> 0" using assms by simp
  from div_mult_self3 [OF this, of q c] assms show ?thesis by (simp only: div_less add_0_right)
qed

lemma div_ceil_add:
  assumes "0 < n"
  shows "(a + (n - 1)) div n = div_ceil a n"
proof -
  define q r where "q = a div n" and "r = a mod n"
  have a: "a = q * n + r" "r < n" using assms by (simp_all add: q_def r_def)
  show ?thesis
  proof (cases "r = 0")
    case True
    have "(q * n + (n - 1)) div n = q" by (rule div_mult_low) (use assms in simp)
    moreover have "q * n = a" using a(1) True by simp
    moreover have "div_ceil a n = q" using True by (simp add: div_ceil_def r_def q_def)
    ultimately show ?thesis by metis
  next
    case False
    then have "a + (n - 1) = (q + 1) * n + (r - 1)" using a by simp
    moreover have "((q + 1) * n + (r - 1)) div n = q + 1"  by (rule div_mult_low) (use a(2) in simp)
    moreover have "div_ceil a n = q + 1" using False by (simp add: div_ceil_def r_def q_def)
    ultimately show ?thesis by metis
  qed
qed

lemma align_up_exp:
  assumes "k < 64" "unat a + 2 ^ k \<le> 2 ^ 64"
  shows "unat (align_up a (2 ^ k)) = div_ceil (unat a) (2 ^ k) * 2 ^ k"
proof -
  define x where "x = unat a + (2 ^ k - 1)"
  have pos: "(1::nat) \<le> 2 ^ k" by simp
  then have lt: "x < 2 ^ 64" using assms(2) by (simp add: x_def)
  have "of_nat (x + 1) = a + 2 ^ k" using pos by (simp add: x_def)
  then have x: "a + 2 ^ k - 1 = (of_nat x :: u64)" by (metis add_diff_cancel_right' of_nat_1 of_nat_add)
  have u: "unat (of_nat x :: u64) = x" using lt by (simp add: unat_of_nat take_bit_nat_eq_self)
  have le: "x div 2 ^ k * 2 ^ k \<le> x" by simp
  have "unat (align_up a (2 ^ k)) = take_bit 64 (x div 2 ^ k * 2 ^ k)"
    unfolding align_up_def and_not_low x unsigned_push_bit_eq unsigned_drop_bit_eq u
    using lt by (simp add: push_bit_eq_mult drop_bit_eq_div take_bit_nat_eq_self)
  also have "\<dots> = x div 2 ^ k * 2 ^ k" by (rule take_bit_nat_eq_self) (rule le_less_trans [OF le lt])
  also have "x div 2 ^ k = div_ceil (unat a) (2 ^ k)"
    unfolding x_def by (rule div_ceil_add) simp
  finally show ?thesis .
qed

lemma allocate_low:
  assumes "unat nb \<le> 2 ^ 31" "k \<le> 40"
  obtains nx a where "allocate_bar_address nb (2 ^ k) = (nx, Some a)" "unat nx = unat a + 2 ^ k" "2 ^ k dvd unat a"
    "unat nb \<le> unat a" "unat nx \<le> 2 ^ 31 \<or> 2 ^ 44 \<le> unat a \<and> unat nx \<le> 2 ^ 45"
proof -
  define al where "al = div_ceil (unat nb) (2 ^ k) * 2 ^ k"
  have p: "(2::nat) ^ k \<le> 2 ^ 40" by (rule power_increasing) (use assms(2) in simp_all)
  have k: "k < 64" using assms(2) by simp
  have un: "unat (2 ^ k :: u64) = 2 ^ k" by (rule unat_exp) (use k in simp)
  have al: "unat (align_up nb (2 ^ k)) = al" "unat nb \<le> al" "al < unat nb + 2 ^ k"
    using align_up_exp [OF k, of nb] div_ceil_bounds [of "2 ^ k" "unat nb"] assms(1) p by (simp_all add: al_def)
  have sum: "unat (align_up nb (2 ^ k) + 2 ^ k) = al + 2 ^ k"
    using al un p assms(1) by (simp add: unat_word_ariths)
  show thesis
  proof (cases "al + 2 ^ k \<le> 2 ^ 31")
    case True
    have "allocate_bar_address nb (2 ^ k) = (align_up nb (2 ^ k) + 2 ^ k, Some (align_up nb (2 ^ k)))"
      using True sum by (simp add: allocate_bar_address_def LOONGARCH64_PCI_MEMORY32_END_def word_le_nat_alt Let_def)
    then show thesis by (rule that) (use True sum al in \<open>simp_all add: al_def\<close>)
  next
    case False
    define b where "b = align_up LOONGARCH64_PCI_MEMORY64_START (2 ^ k)"
    have hi: "unat LOONGARCH64_PCI_MEMORY64_START = 2 ^ 44" by (simp add: LOONGARCH64_PCI_MEMORY64_START_def)
    have b: "unat b = div_ceil (2 ^ 44) (2 ^ k) * 2 ^ k" "2 ^ 44 \<le> unat b" "unat b < 2 ^ 44 + 2 ^ k"
      using align_up_exp [OF k, of LOONGARCH64_PCI_MEMORY64_START] div_ceil_bounds [of "2 ^ k" "2 ^ 44"] p
      by (simp_all add: b_def hi)
    have s: "unat (b + 2 ^ k) = unat b + 2 ^ k" using b un p by (simp add: unat_word_ariths)
    have "allocate_bar_address nb (2 ^ k) = (b + 2 ^ k, Some b)"
      using False sum assms(1) hi
      by (simp add: allocate_bar_address_def LOONGARCH64_PCI_MEMORY32_END_def word_le_nat_alt word_less_nat_alt Let_def b_def)
    then show thesis by (rule that) (use s b p assms(1) in simp_all)
  qed
qed

lemma allocate_high:
  assumes "2 ^ 44 \<le> unat nb" "unat nb \<le> 2 ^ 45" "k \<le> 40"
  shows "allocate_bar_address nb (2 ^ k) = (nb, None)"
proof -
  have p: "(2::nat) ^ k \<le> 2 ^ 40" by (rule power_increasing) (use assms(3) in simp_all)
  have k: "k < 64" using assms(3) by simp
  have un: "unat (2 ^ k :: u64) = 2 ^ k" by (rule unat_exp) (use k in simp)
  have al: "2 ^ 44 \<le> unat (align_up nb (2 ^ k))" "unat (align_up nb (2 ^ k)) < 2 ^ 45 + 2 ^ k"
    using align_up_exp [OF k, of nb] div_ceil_bounds [of "2 ^ k" "unat nb"] assms p by simp_all
  then have "unat (align_up nb (2 ^ k) + 2 ^ k) = unat (align_up nb (2 ^ k)) + 2 ^ k"
    using un p by (simp add: unat_word_ariths)
  with al assms(1) show ?thesis
    by (simp add: allocate_bar_address_def LOONGARCH64_PCI_MEMORY32_END_def LOONGARCH64_PCI_MEMORY64_START_def
        word_le_nat_alt word_less_nat_alt Let_def)
qed

lemma windows_high:
  assumes "2 ^ 44 \<le> unat nb" "unat nb \<le> 2 ^ 45" "\<forall>k \<in> set ks. k \<le> 40"
  shows "windows nb (map (\<lambda>k. 2 ^ k) ks) = []"
  using assms(3) by (induction ks) (simp_all add: allocate_high [OF assms(1,2)])

lemma windows_low:
  assumes "unat nb \<le> 2 ^ 31" "\<forall>k \<in> set ks. k \<le> 40"
  shows "sorted_wrt (\<lambda>(a, n) (b, _). a + n \<le> b) (windows nb (map (\<lambda>k. 2 ^ k) ks)) \<and>
    (\<forall>(a, n) \<in> set (windows nb (map (\<lambda>k. 2 ^ k) ks)). n dvd a \<and> unat nb \<le> a \<and> (a + n \<le> 2 ^ 31 \<or> 2 ^ 44 \<le> a))"
  using assms
proof (induction ks arbitrary: nb)
  case (Cons k ks)
  then have k: "k \<le> 40" by simp
  have un: "unat (2 ^ k :: u64) = 2 ^ k" by (rule unat_exp) (use k in simp)
  obtain nx a where a: "allocate_bar_address nb (2 ^ k) = (nx, Some a)" "unat nx = unat a + 2 ^ k" "2 ^ k dvd unat a"
    "unat nb \<le> unat a" "unat nx \<le> 2 ^ 31 \<or> 2 ^ 44 \<le> unat a \<and> unat nx \<le> 2 ^ 45"
    by (rule allocate_low [OF Cons.prems(1) k]) (rule that)
  show ?case
  proof (cases "unat nx \<le> 2 ^ 31")
    case True
    have ks: "\<forall>k \<in> set ks. k \<le> 40" using Cons.prems(2) by simp
    show ?thesis using Cons.IH [OF True ks] a True un by auto
  next
    case False
    then have "windows nx (map (\<lambda>k. 2 ^ k) ks) = []" using a Cons.prems(2) by (intro windows_high) auto
    then show ?thesis using a False un by auto
  qed
qed simp

subsection \<open>Memory for devices\<close>

lemma dma_dealloc_none:
  assumes "\<forall>x \<in> set c. pa div 2 ^ 12 + n \<le> x" "pa div 2 ^ 12 + n < USIZE"
  shows "dma_dealloc A c pa n = Ok (A, c)"
proof -
  have "filter (\<lambda>x. pa div 2 ^ 12 \<le> x \<and> x < pa div 2 ^ 12 + n) c = []"
    using assms(1) by (auto simp: filter_empty_conv)
  moreover have "filter (\<lambda>x. \<not> (pa div 2 ^ 12 \<le> x \<and> x < pa div 2 ^ 12 + n)) c = c"
    using assms(1) by (auto simp: filter_id_conv)
  ultimately show ?thesis using assms(2) by (simp add: dma_dealloc_def Let_def usize_simps res_simps)
qed

lemma dma_alloc_frames:
  assumes "fa_wf A" "0 < n" "dma_alloc A c n = Ok (A', c', pa)"
  shows "\<exists>got. c' = c @ got \<and> got = map (\<lambda>i. pa + i * PAGE_SIZE) [0..<n] \<and> set got \<subseteq> free_frames A \<and>
    free_frames A' = free_frames A - set got"
proof -
  obtain A1 r where r: "frame_alloc_much A n = Ok (A1, r)" "much_post A n A1 r"
    using frame_alloc_much_spec [OF assms(1,2)] by blast
  with assms(3) obtain got where got: "r = Some got" by (cases r) (auto simp: dma_alloc_def res_simps)
  from r(2) obtain base where b: "got = map (\<lambda>i. base + i * PAGE_SIZE) [0..<n]" "set got \<subseteq> free_frames A"
    "free_frames A1 = free_frames A - set got" unfolding much_post_def got option.case by blast
  have "index_res got 0 = Ok base" using b(1) assms(2) by (simp add: index_res_def)
  then have "A' = A1" "c' = c @ got" "pa = base" using assms(3) r(1) got by (auto simp: dma_alloc_def res_simps)
  with b show ?thesis by blast
qed

section \<open>Properties\<close>



text \<open>
  The enable bit of an interrupt is not where the table of registers has it: the driver adds the
  number of the word to the address instead of four times it, so that enabling a source from 128 to 159
  enables the source 96 below it and leaves its own bit as it was.
\<close>

theorem plic_enables_another_source:
  assumes "plic_base_ok base" "128 \<le> irq" "irq < 160"
  shows "source_enabled base 1 (irq - 96) (set_irq_enable base 0 True irq m) \<and>
    source_enabled base 1 irq (set_irq_enable base 0 True irq m) = source_enabled base 1 irq m"
proof -
  obtain k where k: "irq = 128 + k" using assms(2) le_Suc_ex by blast
  then have l: "k < 32" using assms(3) by simp
  have d: "(128 + k) div 32 = 4" "(32 + k) div 32 = 1" using div_mult_low [OF l, of 4] div_mult_low [OF l, of 1] by simp_all
  have r: "(128 + k) mod 32 = k" "(32 + k) mod 32 = k" using d l by (simp_all add: modulo_nat_def)
  show ?thesis
    using set_irq_enable_addr [OF assms(1), of irq m] k l d r by (simp add: source_enabled_def bit_simps add.commute [of base])
qed

theorem plic_enables_another_source_witness:
  "plic_base_ok 0xC000000 \<and> source_enabled 0xC000000 1 54 (set_irq_enable 0xC000000 0 True 150 (\<lambda>_. 0))"
proof -
  have "plic_base_ok 0xC000000" by (simp add: plic_base_ok_def USIZE_def)
  then show ?thesis using plic_enables_another_source [of "0xC000000" 150 "\<lambda>_. 0"] by simp
qed

text \<open>
  C32: the windows that the PCI probe hands out for any sequence of sizes that are powers of two up to
  2^40 are aligned to their size, follow one another without overlap from the start of the 32-bit
  window, and lie below its end or in the 64-bit window.
\<close>

theorem bar_windows_disjoint:
  assumes "\<forall>k \<in> set ks. k \<le> 40"
  shows "let ws = windows LOONGARCH64_PCI_MEMORY32_START (map (\<lambda>k. 2 ^ k) ks)
    in sorted_wrt (\<lambda>(a, n) (b, _). a + n \<le> b) ws \<and>
       (\<forall>(a, n) \<in> set ws. n dvd a \<and> 0x58000000 \<le> a \<and> (a + n \<le> 0x80000000 \<or> 0x100000000000 \<le> a))"
proof -
  have s: "unat LOONGARCH64_PCI_MEMORY32_START = 0x58000000" by (simp add: LOONGARCH64_PCI_MEMORY32_START_def)
  then have "unat LOONGARCH64_PCI_MEMORY32_START \<le> 2 ^ 31" by simp
  from windows_low [OF this assms] show ?thesis unfolding Let_def s by simp
qed

theorem bar_windows_disjoint_witness:
  "windows LOONGARCH64_PCI_MEMORY32_START [2 ^ 12, 2 ^ 14] = [(0x58000000, 0x1000), (0x58004000, 0x4000)] \<and>
   list_all (\<lambda>(a, n). n dvd a) (windows LOONGARCH64_PCI_MEMORY32_START (map (\<lambda>k. 2 ^ k) [12, 14]))"
proof -
  have "windows LOONGARCH64_PCI_MEMORY32_START [2 ^ 12, 2 ^ 14] = [(0x58000000, 0x1000), (0x58004000, 0x4000)]"
    by (simp add: allocate_bar_address_def align_up_def LOONGARCH64_PCI_MEMORY32_START_def LOONGARCH64_PCI_MEMORY32_END_def)
  moreover have "list_all (\<lambda>(a, n). n dvd a) (windows LOONGARCH64_PCI_MEMORY32_START (map (\<lambda>k. 2 ^ k) [12, 14]))"
    using bar_windows_disjoint [of "[12, 14]"] unfolding Let_def list_all_iff by (auto simp del: windows.simps)
  ultimately show ?thesis by blast
qed

text \<open>
  Giving back the memory of a virtio queue frees nothing: the frames stay in the container and are
  not free, because the driver compares the number of a page with the addresses of the frames.
\<close>

theorem dma_memory_is_never_freed:
  assumes "fa_wf A" "0 < n" "dma_alloc A [] n = Ok (A', c, pa)" "pa div 2 ^ 12 + n \<le> pa" "pa < USIZE"
  shows "dma_dealloc A' c pa n = Ok (A', c) \<and> length c = n \<and> set c \<inter> free_frames A' = {}"
proof -
  have c: "c = map (\<lambda>i. pa + i * PAGE_SIZE) [0..<n]" "free_frames A' = free_frames A - set c"
    using dma_alloc_frames [OF assms(1-3)] by auto
  have "dma_dealloc A' c pa n = Ok (A', c)"
    by (rule dma_dealloc_none) (use assms(4,5) c in \<open>auto intro: le_less_trans\<close>)
  then show ?thesis unfolding c(2) by (simp add: c(1))
qed

theorem dma_memory_is_never_freed_witness:
  "let A = [\<lparr>bits = [0xF0], paddr = 0x1000, paddr_end = 0x41000\<rparr>] in
   \<exists>A' c. dma_alloc A [] 1 = Ok (A', c, 0x1000) \<and> dma_dealloc A' c 0x1000 1 = Ok (A', c)"
proof -
  let ?m = "\<lparr>bits = [0xF0], paddr = 0x1000, paddr_end = 0x41000\<rparr>"
  let ?m' = "\<lparr>bits = [0xF1], paddr = 0x1000, paddr_end = 0x41000\<rparr>"
  have w: "fa_wf [?m]" by (simp add: frame_wf_eval)
  have c: "region_get_free_page_count ?m = 60"
    by (simp add: region_get_free_page_count_def word_free_count_def upt_conv_Cons)
  have "find_window [0xF0] 1 0 (Suc 63) 0 0 = Ok (Some 0)"
    unfolding find_window.simps(2) by (simp add: ba_get_bit_def res_simps)
  then have "region_alloc_much ?m 1 = Ok (?m', Some [0x1000])"
    unfolding region_alloc_much_def Let_def c
    by (simp add: PAGE_SIZE_def usub_def USIZE_def ba_set_bit_def word_set_bit_def res_simps)
  then have a: "dma_alloc [?m] [] 1 = Ok ([?m'], [0x1000], 0x1000)"
    by (simp add: dma_alloc_def res_simps index_res_def)
  have "dma_dealloc [?m'] [0x1000] 0x1000 1 = Ok ([?m'], [0x1000])"
    using dma_memory_is_never_freed [OF w _ a] by (simp add: USIZE_def)
  with a show ?thesis unfolding Let_def by blast
qed

end
