(* ===== verification/Spec2Isabelle.thy ===== *)
theory Spec2Isabelle
  imports Heap Signal_Delivery Exec Procfs Fs_Calls Sockets Block_Io Ext4 Drivers
begin

text \<open>
  \<^bold>\<open>A verification library for the MonkeyOS kernel.\<close>

  MonkeyOS is a Unix-like kernel in Rust: a cooperative executor runs one future per
  user thread, every system call is an asynchronous method of the thread's container
  (\<^verbatim>\<open>kernel/src/syscall\<close>), memory comes from a bit map of physical frames
  (\<^verbatim>\<open>crates/runtime\<close>), and files are inodes behind one trait
  (\<^verbatim>\<open>filesystem/vfscore\<close>).  All paths below are relative to \<^verbatim>\<open>src/\<close>.
  The definitions translate the source function by function; the theories follow the parts
  of the program and import the parts they call.

  \<^bold>\<open>Conventions.\<close>  A \<^verbatim>\<open>usize\<close> is a natural number with the wrap-around written out
  (\<^verbatim>\<open>uadd\<close>, \<^verbatim>\<open>usub\<close>, \<^verbatim>\<open>umul\<close>); bit sets are machine words.  A call that
  can fail returns \<^verbatim>\<open>Ok\<close>, \<^verbatim>\<open>Err\<close> with the error number, or \<^verbatim>\<open>Panic\<close>, which stands for
  every way the kernel stops: \<^verbatim>\<open>unwrap\<close>, \<^verbatim>\<open>expect\<close>, a failed assertion, an index out of
  range, an unimplemented branch.  An asynchronous call that waits is modelled by its polls: a round
  returns \<^verbatim>\<open>Ready\<close> or \<^verbatim>\<open>Pending\<close>, and the rounds happen in states that other threads
  may have changed in between.  A lock is held for one step, so interleavings are sequences of steps.
  Code outside the sources (the buddy allocator, the ELF reader, the network stack, the trap
  frame of the hardware layer, the ext4 and virtio libraries) enters as an argument.

  \<^bold>\<open>Foundations.\<close>
  \<^item> \<^verbatim>\<open>Kernel_Prelude\<close>: results, polls, machine arithmetic, bit sets and the lemmas on lists and
    words that the parts share.  \<^verbatim>\<open>Ordered_Map\<close>: the ordered maps of the standard library.
    \<^verbatim>\<open>Byte_Order\<close>: numbers as bytes, and back.

  \<^bold>\<open>Memory and processes.\<close>
  \<^item> \<^verbatim>\<open>Frame\<close> (\<^verbatim>\<open>crates/runtime/src/frame.rs\<close>): the regions of the bit map, single and contiguous
    allocation.  No frame is handed out twice; a contiguous request gives adjacent free frames.
  \<^item> \<^verbatim>\<open>Heap\<close> (\<^verbatim>\<open>crates/runtime/src/heap.rs\<close>): the pool of large blocks.  Allocation is first fit and
    keeps blocks apart; the emergency reset does not.
  \<^item> \<^verbatim>\<open>Memory\<close> (\<^verbatim>\<open>tasks/memset.rs\<close>, \<^verbatim>\<open>syscall/mm.rs\<close>): areas, \<^verbatim>\<open>mmap\<close>, \<^verbatim>\<open>munmap\<close>, \<^verbatim>\<open>brk\<close>.
    A mapping covers exactly its range, removal removes exactly its range.
  \<^item> \<^verbatim>\<open>Process\<close> (\<^verbatim>\<open>tasks/task.rs\<close>, \<^verbatim>\<open>syscall/task.rs\<close>): the kernel state of the tasks
    (\<^verbatim>\<open>KState\<close>: control blocks, page tables, frames with their contents), \<^verbatim>\<open>fork\<close>, \<^verbatim>\<open>clone\<close>, exit,
    \<^verbatim>\<open>wait4\<close>.  The process tree is well formed in every reachable state, a parent gets the
    status of its child.
  \<^item> \<^verbatim>\<open>Page_Fault\<close> (\<^verbatim>\<open>user/mod.rs\<close>): copy on write, demand paging, user loads and stores.  Stores to private
    pages reach no other process; a forked child sees a snapshot.
  \<^item> \<^verbatim>\<open>User_Stack\<close> (\<^verbatim>\<open>tasks/elf.rs\<close>) and \<^verbatim>\<open>Exec\<close> (\<^verbatim>\<open>tasks/exec.rs\<close>): the initial stack and \<^verbatim>\<open>execve\<close>.
    The stack has the layout the C runtime reads; after a successful call the memory of the process is
    exactly the segments of the file and this stack.  \<^verbatim>\<open>exec_with_process\<close> calls itself for scripts and
    dynamically linked files, possibly for ever (a shell that is itself a script), so it has fuel; a static program
    needs one unit.
  \<^item> \<^verbatim>\<open>Executor\<close> (\<^verbatim>\<open>crates/executor\<close>), \<^verbatim>\<open>Futex\<close> (\<^verbatim>\<open>tasks/async_ops.rs\<close>), \<^verbatim>\<open>Timers\<close> (\<^verbatim>\<open>syscall/time.rs\<close>),
    \<^verbatim>\<open>Signals\<close> and \<^verbatim>\<open>Signal_Delivery\<close> (\<^verbatim>\<open>crates/signal\<close>, \<^verbatim>\<open>user/signal.rs\<close>), \<^verbatim>\<open>Ipc\<close> (\<^verbatim>\<open>syscall/shm.rs\<close>):
    the scheduler is fair, waiters are woken in order, sleeps last long enough, every pending signal is
    delivered and a handler returns to the interrupted state, message queues count what they hold.

  \<^bold>\<open>Files.\<close>
  \<^item> \<^verbatim>\<open>Vfs\<close>: the inode trait as a record of functions with the default methods; a file system is a dispatch from
    inode names to such records over a shared state.  \<^verbatim>\<open>Paths\<close> (\<^verbatim>\<open>filesystem/fs/src/pathbuf.rs\<close>, \<^verbatim>\<open>dentry.rs\<close>).
  \<^item> \<^verbatim>\<open>RamFs\<close>, \<^verbatim>\<open>Channels\<close> (pipes, socket pairs), \<^verbatim>\<open>Devfs\<close> (the terminal and the other devices), \<^verbatim>\<open>Procfs\<close> and
    \<^verbatim>\<open>Sockets\<close> (\<^verbatim>\<open>kernel/src/socket.rs\<close>, \<^verbatim>\<open>syscall/socket.rs\<close>) implement it.  A file of \<^verbatim>\<open>RamFs\<close> refines an
    array of bytes, a directory a map; pipes, the terminal and sockets lose and reorder nothing.
  \<^item> \<^verbatim>\<open>Files\<close> (\<^verbatim>\<open>filesystem/fs/src/file.rs\<close>), \<^verbatim>\<open>FdTable\<close> (\<^verbatim>\<open>tasks/filetable.rs\<close>, \<^verbatim>\<open>syscall/fd.rs\<close>), \<^verbatim>\<open>Fs_Calls\<close>
    (the calls on the working directory, mounts and attributes) and \<^verbatim>\<open>Polling\<close> (\<^verbatim>\<open>ppoll\<close>, \<^verbatim>\<open>pselect\<close>,
    epoll) are its clients, over any dispatch.  The locale \<^verbatim>\<open>readable_inode\<close> states what a poll promises about a
    following read; pipes, socket pairs and the terminal are interpretations.

  \<^bold>\<open>Disks and devices.\<close>
  \<^item> \<^verbatim>\<open>Block_Io\<close> (\<^verbatim>\<open>driver/kramdisk\<close>, \<^verbatim>\<open>driver/kvirtio/src/virtio_blk.rs\<close>, the disks of
    \<^verbatim>\<open>fatfs_shim.rs\<close>, \<^verbatim>\<open>ext4_rs_shim.rs\<close> and \<^verbatim>\<open>ext4_shim.rs\<close>): bytes from sectors.  The locale
    \<^verbatim>\<open>block_device\<close> says what a device promises, the RAM disk is an interpretation.  What is written through the
    FAT cursor is read back; what a write through the disk of the Rust ext4 library does to the rest of the sector
    is stated for every case.  The loops of the library over the cursor have fuel, one unit for each byte.
  \<^item> \<^verbatim>\<open>Ext4\<close> (\<^verbatim>\<open>ext4_shim.rs\<close>): the inodes of the root file system over the ext4 library, a record of functions.
    Opening a path reaches the file of that path.
  \<^item> \<^verbatim>\<open>Drivers\<close> (\<^verbatim>\<open>crates/devices\<close>, \<^verbatim>\<open>crates/sync\<close>, \<^verbatim>\<open>driver/general-plic\<close>, \<^verbatim>\<open>driver/kgoldfish-rtc\<close>,
    \<^verbatim>\<open>driver/ns16550a\<close>, \<^verbatim>\<open>driver/kvirtio\<close>): the registry and the discovery of devices, interrupt registration,
    memory for DMA and PCI windows.  The boot finds the devices of the tree in order and enables their interrupts;
    PCI windows are aligned and disjoint.

  \<^bold>\<open>Defects.\<close>  Where the code does not do what it means to, a theorem describes what it does:
  the error properties (a failed \<^verbatim>\<open>execve\<close>, the first thread's exit, an unmapped middle, the emergency
  reset, a timed out futex, an accepted connection) are such theorems.

  \<^bold>\<open>Not modelled.\<close>  The list of test programs in \<^verbatim>\<open>tasks/initproc.rs\<close>, the inode methods of
  \<^verbatim>\<open>ext4_rs_shim.rs\<close> and \<^verbatim>\<open>fatfs_shim.rs\<close>, the checks of the PCI probe that only print, the rest of the boot,
  logging and panic output, the table of system call numbers, and the loop that enters user
  mode.  Code selected for another architecture is left out except where noted.
\<close>

end
